(* ===== verification/Prelude.thy ===== *)
theory Prelude
  imports Complex_Main "HOL-Library.Word" "HOL-Library.Char_ord" "HOL-Library.List_Lexorder"
begin

text \<open>
  The vocabulary every other theory shares: machine integers, byte strings, the error values
  of the program with Go's \<open>errors.Is\<close>, and the collections that the component theories
  extend.  \<open>int64\<close> is Go's \<open>int64\<close> (and \<open>int\<close> on the 64-bit targets the program is built
  for, and \<open>time.Duration\<close>): a word of 64 bits read with \<open>sint\<close> and compared with the
  signed orders \<open><s\<close> and \<open><=s\<close>, so that every addition and subtraction wraps as in Go.
\<close>

section \<open>Named collections\<close>

named_theorems int64_simps \<open>signed readings of 64-bit words\<close>
named_theorems db_simps \<open>unfolding of the SQL statements over the tables\<close>
named_theorems wf_intros \<open>preservation of well-formedness by the operations\<close>

section \<open>64-bit integers\<close>

type_synonym int64 = "64 word"

lemma sint64_lower: "- (2 ^ 63) \<le> sint (x :: int64)"
  using sint_ge [of x] by simp

lemma sint64_upper: "sint (x :: int64) < 2 ^ 63"
  using sint_lt [of x] by simp

lemma sint64_of_int [int64_simps]:
  "- (2 ^ 63) \<le> i \<Longrightarrow> i < 2 ^ 63 \<Longrightarrow> sint (word_of_int i :: int64) = i"
  by (simp add: sint_sbintrunc' signed_take_bit_int_eq_self)

lemma sint64_add:
  "- (2 ^ 63) \<le> sint a + sint b \<Longrightarrow> sint a + sint b < 2 ^ 63 \<Longrightarrow>
    sint (a + b :: int64) = sint a + sint b"
  by (simp add: sint_word_ariths signed_take_bit_int_eq_self)

lemma sint64_add_wraps:
  assumes "2 ^ 63 \<le> sint a + sint b"
  shows "sint (a + b :: int64) = sint a + sint b - 2 ^ 64"
proof -
  have "sint a + sint b < 2 ^ 64"
    using sint64_upper [of a] sint64_upper [of b] by simp
  then have "(sint a + sint b + 2 ^ 63) mod 2 ^ 64 = sint a + sint b + 2 ^ 63 - 2 ^ 64"
    using assms by (intro int_mod_pos_eq [where q = 1]) auto
  then show ?thesis
    by (simp add: sint_word_ariths signed_take_bit_eq_take_bit_shift take_bit_eq_mod)
qed

lemma sint64_sub:
  "- (2 ^ 63) \<le> sint a - sint b \<Longrightarrow> sint a - sint b < 2 ^ 63 \<Longrightarrow>
    sint (a - b :: int64) = sint a - sint b"
  by (simp add: sint_word_ariths signed_take_bit_int_eq_self)

lemma sint64_neg: "- (2 ^ 63) < sint a \<Longrightarrow> sint (- a :: int64) = - sint a"
  using sint64_sub [of 0 a] sint64_upper [of a] by simp

text \<open>Differences of non-negative values never wrap.\<close>

lemma sint64_sub_nonneg [int64_simps]:
  assumes "0 \<le> sint a" and "0 \<le> sint b"
  shows "sint (a - b :: int64) = sint a - sint b"
proof (rule sint64_sub)
  show "- (2 ^ 63) \<le> sint a - sint b"
    using assms sint64_upper [of b] by linarith
  show "sint a - sint b < 2 ^ 63"
    using assms sint64_upper [of a] by linarith
qed

lemma sint_minus_one: "0 < sint (sz :: int64) \<Longrightarrow> sint (sz - 1) = sint sz - 1"
  by (subst sint64_sub_nonneg) auto

lemma sint64_eq_iff: "(x :: int64) = y \<longleftrightarrow> sint x = sint y"
  by (metis scast_id of_int_sint)

lemma sint64_less_iff [int64_simps]: "(x :: int64) <s y \<longleftrightarrow> sint x < sint y"
  by (rule word_sless_alt)

lemma sint64_le_iff [int64_simps]: "(x :: int64) <=s y \<longleftrightarrow> sint x \<le> sint y"
  by (rule word_sle_eq)

text \<open>\<open>int64(len(b))\<close> of a byte slice; Go slices are shorter than \<open>2 ^ 63\<close>.\<close>

definition len64 :: "'a list \<Rightarrow> int64" where
  "len64 xs = word_of_int (int (length xs))"

lemma sint_len64 [int64_simps]:
  "int (length xs) < 2 ^ 63 \<Longrightarrow> sint (len64 xs) = int (length xs)"
  unfolding len64_def by (rule sint64_of_int) simp_all

section \<open>Bytes\<close>

type_synonym bytes = "8 word list"

section \<open>Error values\<close>

text \<open>
  Go compares sentinel errors by identity, so each \<open>errors.New\<close> of the program is a
  constructor of its own; \<open>Wrapped\<close> is \<open>fmt.Errorf\<close> with a \<open>%w\<close> verb, whose text is
  the prefix, a colon and the text of the wrapped error.  \<open>EOF\<close>, \<open>UnexpectedEOF\<close>,
  \<open>NoRows\<close>, \<open>Canceled\<close> and \<open>ErrorResponse\<close> (with its code) are the sentinels of
  \<open>io\<close>, \<open>pgx\<close>, \<open>context\<close> and \<open>minio\<close> the program tests for; \<open>Opaque\<close> is any
  other error, by its text.  \<open>Panicked\<close> is no error value of the code but a run-time panic,
  carried as an outcome of the operation that panics.
\<close>

datatype goerr =
    MetadataNotFound
  | StorageNotFound
  | FilesNotFound
  | InvalidID
  | ChecksumMismatch
  | IdempotencyConflict
  | IdempotencyResultGone
  | UploadTooLarge
  | EOF
  | UnexpectedEOF
  | NoRows
  | Canceled
  | ErrorResponse string
  | Panicked string
  | Opaque string
  | Wrapped string goerr

type_synonym 'a res = "goerr + 'a"

text \<open>\<open>errors.Is\<close> walks the chain of wrapped errors.\<close>

fun errors_is :: "goerr \<Rightarrow> goerr \<Rightarrow> bool" where
  "errors_is (Wrapped p e) t \<longleftrightarrow> Wrapped p e = t \<or> errors_is e t"
| "errors_is e t \<longleftrightarrow> e = t"

text \<open>\<open>err.Error()\<close>.\<close>

fun error_text :: "goerr \<Rightarrow> string" where
  "error_text MetadataNotFound = ''metadata: file not found''"
| "error_text StorageNotFound = ''storage: object not found''"
| "error_text FilesNotFound = ''files: not found''"
| "error_text InvalidID = ''files: invalid id''"
| "error_text ChecksumMismatch = ''files: checksum mismatch''"
| "error_text IdempotencyConflict = ''files: idempotency key conflict''"
| "error_text IdempotencyResultGone = ''files: idempotent result deleted''"
| "error_text UploadTooLarge = ''api: upload body exceeds the size limit''"
| "error_text EOF = ''EOF''"
| "error_text UnexpectedEOF = ''unexpected EOF''"
| "error_text NoRows = ''no rows in result set''"
| "error_text Canceled = ''context canceled''"
| "error_text (ErrorResponse code) = code"
| "error_text (Panicked s) = s"
| "error_text (Opaque s) = s"
| "error_text (Wrapped p e) = p @ '': '' @ error_text e"

lemma errors_is_refl [simp]: "errors_is e e"
  by (cases e) simp_all

text \<open>A wrapped error is never itself one of the unwrapped sentinels.\<close>

lemma errors_is_Wrapped [simp]:
  "(\<And>q d. t \<noteq> Wrapped q d) \<Longrightarrow> errors_is (Wrapped p e) t = errors_is e t"
  by auto

section \<open>Lists\<close>

lemma take_min_length: "take (min n (length xs)) xs = take n xs"
  by (cases "n \<le> length xs") simp_all

lemma distinct_map_filter: "distinct (map f xs) \<Longrightarrow> distinct (map f (filter P xs))"
  by (induction xs) auto

lemma find_key_unique:
  assumes "distinct (map f xs)" and "x \<in> set xs"
  shows "find (\<lambda>y. f y = f x) xs = Some x"
  using assms by (induction xs) (auto simp: image_iff)

lemma find_filter_neq:
  "find (\<lambda>x. f x = k) (filter (\<lambda>x. f x \<noteq> j) xs) = (if k = j then None else find (\<lambda>x. f x = k) xs)"
  by (induction xs) auto

lemma find_SomeD: "find P xs = Some x \<Longrightarrow> x \<in> set xs \<and> P x"
  by (auto simp: find_Some_iff)

lemma find_append: "find P (xs @ ys) = (case find P xs of None \<Rightarrow> find P ys | Some x \<Rightarrow> Some x)"
  by (induction xs) auto

lemma find_map_key:
  "(\<And>x. key (h x) = key x) \<Longrightarrow>
    find (\<lambda>x. key x = k) (map h xs) = map_option h (find (\<lambda>x. key x = k) xs)"
  by (induction xs) auto

lemma find_filter_key:
  "distinct (map key xs) \<Longrightarrow>
    find (\<lambda>x. key x = k) (filter P xs) =
      (case find (\<lambda>x. key x = k) xs of None \<Rightarrow> None | Some x \<Rightarrow> if P x then Some x else None)"
  by (induction xs) (auto simp: find_None_iff image_iff split: option.splits dest!: find_SomeD)

end
