(* ===== verification/Metadata.thy ===== *)
theory Metadata
  imports Prelude "HOL-Library.AList"
begin

text \<open>
  \<open>internal/metadata/repository.go\<close>: the persistence seam.  \<open>File\<close>, \<open>listFilter\<close> and
  \<open>idemRecord\<close> are the Go structs; \<open>repository\<close> is the Go interface, a record of its
  methods over a database state \<open>'d\<close>.  A \<open>map[string]any\<close> of tags is an association list
  of JSON values (\<open>None\<close> for the nil map); a time is a number of nanoseconds.

  What the comments of the interface promise is the locale \<open>file_repository\<close>: \<open>rows\<close> reads
  a database as the map from identifiers to records (soft-deleted ones included), \<open>claims\<close>
  as the map from idempotency keys to their state, and \<open>good\<close> is the invariant, which
  includes that an error means that nothing happened.  \<open>canon\<close> is how the database reads an
  identifier: \<open>None\<close> for text it does not take as one.
\<close>

section \<open>JSON\<close>

datatype json =
    JNull
  | JBool bool
  | JNum rat
  | JStr string
  | JArr "json list"
  | JObj "(string \<times> json) list"

type_synonym tags = "(string \<times> json) list"

section \<open>Data\<close>

record File =
  f_ID :: string
  f_StorageKey :: string
  f_Filename :: string
  f_ContentType :: string
  f_SizeBytes :: int64
  f_Checksum :: string
  f_Metadata :: "tags option"
  f_CreatedAt :: int
  f_UpdatedAt :: "int option"
  f_DeletedAt :: "int option"

abbreviation live :: "File \<Rightarrow> bool" where
  "live f \<equiv> f_DeletedAt f = None"

record listFilter =
  lf_ContentType :: string
  lf_Tags :: tags
  lf_Limit :: int64
  lf_Cursor :: string

definition IdempotencyPending :: string where
  "IdempotencyPending = ''pending''"

definition IdempotencyCompleted :: string where
  "IdempotencyCompleted = ''completed''"

lemma status_distinct [simp]:
  "IdempotencyPending \<noteq> IdempotencyCompleted" "IdempotencyCompleted \<noteq> IdempotencyPending"
  by (simp_all add: IdempotencyPending_def IdempotencyCompleted_def)

record idemRecord =
  ir_Status :: string
  ir_FileID :: "string option"

section \<open>The interface\<close>

text \<open>\<open>Create\<close> and \<open>CreateForKey\<close> fill in the record they are given, so they return it.\<close>

record 'd repository =
  r_Create :: "File \<Rightarrow> 'd \<Rightarrow> File res \<times> 'd"
  r_Get :: "string \<Rightarrow> 'd \<Rightarrow> File res \<times> 'd"
  r_List :: "listFilter \<Rightarrow> 'd \<Rightarrow> File list res \<times> 'd"
  r_UpdateMetadata :: "string \<Rightarrow> tags \<Rightarrow> bool \<Rightarrow> 'd \<Rightarrow> File res \<times> 'd"
  r_Delete :: "string \<Rightarrow> 'd \<Rightarrow> unit res \<times> 'd"
  r_ListDeleted :: "int64 \<Rightarrow> 'd \<Rightarrow> File list res \<times> 'd"
  r_Purge :: "string \<Rightarrow> 'd \<Rightarrow> unit res \<times> 'd"
  r_StorageKeys :: "'d \<Rightarrow> string set res \<times> 'd"
  r_ClaimIdempotencyKey :: "string \<Rightarrow> 'd \<Rightarrow> (bool \<times> idemRecord option) res \<times> 'd"
  r_CreateForKey :: "File \<Rightarrow> string \<Rightarrow> 'd \<Rightarrow> File res \<times> 'd"
  r_ReleaseIdempotencyKey :: "string \<Rightarrow> 'd \<Rightarrow> unit res \<times> 'd"
  r_PurgeIdempotencyKeys :: "int \<Rightarrow> 'd \<Rightarrow> nat res \<times> 'd"

text \<open>Merging tags: the \<open>||\<close> operator of \<open>jsonb\<close> on two objects, where the right one wins.\<close>

definition jsonb_concat :: "tags \<Rightarrow> tags \<Rightarrow> tags" where
  "jsonb_concat a b = AList.merge a b"

text \<open>\<open>g\<close> is \<open>f\<close> as the database completes it: pristine, live, with a tag map.\<close>

definition filled_in :: "File \<Rightarrow> File \<Rightarrow> bool" where
  "filled_in f g \<longleftrightarrow>
     f_ID g = f_ID f \<and> f_StorageKey g = f_StorageKey f \<and> f_Filename g = f_Filename f \<and>
     f_ContentType g = f_ContentType f \<and> f_SizeBytes g = f_SizeBytes f \<and>
     f_Checksum g = f_Checksum f \<and>
     f_Metadata g = Some (case f_Metadata f of None \<Rightarrow> [] | Some t \<Rightarrow> t) \<and>
     f_UpdatedAt g = None"

section \<open>The contract\<close>

text \<open>\<open>added R c f g\<close>: the rows after inserting \<open>f\<close>, returned as \<open>g\<close>, under \<open>c\<close>.\<close>

definition added :: "(string \<rightharpoonup> File) \<Rightarrow> string \<Rightarrow> File \<Rightarrow> File \<Rightarrow> (string \<rightharpoonup> File) \<Rightarrow> bool" where
  "added R c f g R' \<longleftrightarrow>
     R c = None \<and> (\<forall>r\<in>ran R. f_StorageKey r \<noteq> f_StorageKey f) \<and> filled_in f g \<and>
     R' = R(c \<mapsto> g\<lparr>f_ID := c, f_DeletedAt := None\<rparr>)"

text \<open>
  The tags after an edit: the patch merged over the present ones, or in their place.
\<close>

definition edited_tags :: "File \<Rightarrow> tags \<Rightarrow> bool \<Rightarrow> tags" where
  "edited_tags f tags merge =
     (if merge then jsonb_concat (case f_Metadata f of None \<Rightarrow> [] | Some t \<Rightarrow> t) tags else tags)"

locale file_repository =
  fixes R :: "'d repository" and canon :: "string \<Rightarrow> string option"
    and rows :: "'d \<Rightarrow> string \<rightharpoonup> File" and claims :: "'d \<Rightarrow> string \<rightharpoonup> idemRecord"
    and good :: "'d \<Rightarrow> bool"
  assumes Create_ok: "good d \<Longrightarrow> r_Create R f d = (Inr g, d') \<Longrightarrow>
      (\<exists>c. canon (f_ID f) = Some c \<and> added (rows d) c f g (rows d')) \<and> claims d' = claims d \<and> good d'"
    and Create_error: "good d \<Longrightarrow> r_Create R f d = (Inl e, d') \<Longrightarrow>
      rows d' = rows d \<and> claims d' = claims d \<and> good d'"
    and Get_ok: "good d \<Longrightarrow> r_Get R i d = (Inr g, d') \<Longrightarrow>
      (\<exists>c. canon i = Some c \<and> rows d c = Some g) \<and> live g"
    and Get_missing: "good d \<Longrightarrow> r_Get R i d = (Inl MetadataNotFound, d') \<Longrightarrow>
      (\<exists>c. canon i = Some c \<and> (\<forall>g. rows d c = Some g \<longrightarrow> \<not> live g))"
    and Get_frame: "good d \<Longrightarrow> r_Get R i d = (x, d') \<Longrightarrow>
      rows d' = rows d \<and> claims d' = claims d \<and> good d'"
    and Delete_ok: "good d \<Longrightarrow> r_Delete R i d = (Inr (), d') \<Longrightarrow>
      (\<exists>c g t. canon i = Some c \<and> rows d c = Some g \<and> live g \<and>
         rows d' = (rows d)(c \<mapsto> g\<lparr>f_DeletedAt := Some t\<rparr>)) \<and> claims d' = claims d \<and> good d'"
    and Delete_error: "good d \<Longrightarrow> r_Delete R i d = (Inl e, d') \<Longrightarrow>
      rows d' = rows d \<and> claims d' = claims d \<and> good d'"
    and Update_ok: "good d \<Longrightarrow> r_UpdateMetadata R i tags mrg d = (Inr g, d') \<Longrightarrow>
      (\<exists>c f t. canon i = Some c \<and> rows d c = Some f \<and> live f \<and>
         g = f\<lparr>f_Metadata := Some (edited_tags f tags mrg), f_UpdatedAt := Some t\<rparr> \<and>
         rows d' = (rows d)(c \<mapsto> g)) \<and> claims d' = claims d \<and> good d'"
    and Update_error: "good d \<Longrightarrow> r_UpdateMetadata R i tags mrg d = (Inl e, d') \<Longrightarrow>
      rows d' = rows d \<and> claims d' = claims d \<and> good d'"
    and List_frame: "good d \<Longrightarrow> r_List R flt d = (xs, d') \<Longrightarrow>
      rows d' = rows d \<and> claims d' = claims d \<and> good d'"
    and Claim_ok: "good d \<Longrightarrow> r_ClaimIdempotencyKey R k d = (Inr (True, x1), d') \<Longrightarrow>
      claims d k = None \<and> claims d' = (claims d)(k \<mapsto> \<lparr>ir_Status = IdempotencyPending, ir_FileID = None\<rparr>) \<and>
      rows d' = rows d \<and> good d'"
    and Claim_taken: "good d \<Longrightarrow> r_ClaimIdempotencyKey R k d = (Inr (False, Some rec), d') \<Longrightarrow>
      claims d k = Some rec"
    and Claim_frame: "good d \<Longrightarrow> r_ClaimIdempotencyKey R k d = (x2, d') \<Longrightarrow> \<forall>p. x2 \<noteq> Inr (True, p) \<Longrightarrow>
      rows d' = rows d \<and> claims d' = claims d \<and> good d'"
    and CreateForKey_ok: "good d \<Longrightarrow> r_CreateForKey R f k d = (Inr g, d') \<Longrightarrow>
      (\<exists>c. canon (f_ID f) = Some c \<and> added (rows d) c f g (rows d')) \<and> claims d k \<noteq> None \<and>
      claims d' = (claims d)(k \<mapsto> \<lparr>ir_Status = IdempotencyCompleted, ir_FileID = Some (f_ID f)\<rparr>) \<and> good d'"
    and CreateForKey_error: "good d \<Longrightarrow> r_CreateForKey R f k d = (Inl e, d') \<Longrightarrow>
      rows d' = rows d \<and> claims d' = claims d \<and> good d'"
    and Release_ok: "good d \<Longrightarrow> r_ReleaseIdempotencyKey R k d = (Inr (), d') \<Longrightarrow>
      rows d' = rows d \<and> good d' \<and>
      claims d' = (if map_option ir_Status (claims d k) = Some IdempotencyPending
                   then (claims d)(k := None) else claims d)"
    and Release_error: "good d \<Longrightarrow> r_ReleaseIdempotencyKey R k d = (Inl e, d') \<Longrightarrow>
      rows d' = rows d \<and> claims d' = claims d \<and> good d'"

end
