(* ===== verification/GoStd.thy ===== *)
theory GoStd
  imports Prelude
begin

text \<open>
  The pieces of Go's standard library that the program's parsers rest on, written out:
  \<open>strings.HasPrefix\<close>, \<open>strings.TrimPrefix\<close>, \<open>strings.CutPrefix\<close>, \<open>strings.IndexByte\<close>,
  \<open>strings.Cut\<close> (with a one-byte separator), \<open>strings.Contains\<close>, \<open>strings.ContainsAny\<close>,
  \<open>strings.Join\<close>, \<open>strings.TrimSpace\<close>, \<open>strconv.ParseInt(s, 10, 64)\<close>,
  \<open>strconv.ParseBool\<close>, the decimal verb of \<open>fmt\<close> and \<open>hex.EncodeToString\<close>; with the
  round trips between printing and parsing.  A Go string is a string of bytes, so it is a
  \<open>string\<close> here.
\<close>

section \<open>Strings\<close>

definition has_prefix :: "string \<Rightarrow> string \<Rightarrow> bool" where
  "has_prefix s p \<longleftrightarrow> take (length p) s = p"

definition trim_prefix :: "string \<Rightarrow> string \<Rightarrow> string" where
  "trim_prefix s p = (if has_prefix s p then drop (length p) s else s)"

definition cut_prefix :: "string \<Rightarrow> string \<Rightarrow> string \<times> bool" where
  "cut_prefix s p = (if has_prefix s p then (drop (length p) s, True) else (s, False))"

fun index_byte :: "string \<Rightarrow> char \<Rightarrow> nat option" where
  "index_byte [] c = None"
| "index_byte (x # xs) c = (if x = c then Some 0 else map_option Suc (index_byte xs c))"

definition cut_byte :: "string \<Rightarrow> char \<Rightarrow> string \<times> string \<times> bool" where
  "cut_byte s c =
     (case index_byte s c of
        None \<Rightarrow> (s, '''', False)
      | Some i \<Rightarrow> (take i s, drop (Suc i) s, True))"

fun contains :: "string \<Rightarrow> string \<Rightarrow> bool" where
  "contains [] p = (p = [])"
| "contains (x # xs) p = (has_prefix (x # xs) p \<or> contains xs p)"

definition contains_any :: "string \<Rightarrow> string \<Rightarrow> bool" where
  "contains_any s cs = list_ex (\<lambda>c. c \<in> set cs) s"

fun join :: "string list \<Rightarrow> string \<Rightarrow> string" where
  "join [] sep = ''''"
| "join [s] sep = s"
| "join (s # t # ss) sep = s @ sep @ join (t # ss) sep"

text \<open>
  \<open>unicode.IsSpace\<close>, as the UTF-8 encodings of the runes it accepts: the six ASCII ones,
  U+0085, U+00A0, U+1680, U+2000 to U+200A, U+2028, U+2029, U+202F, U+205F and U+3000.
\<close>

definition space_runes :: "string list" where
  "space_runes =
     [[CHR 0x09], [CHR 0x0A], [CHR 0x0B], [CHR 0x0C], [CHR 0x0D], [CHR 0x20],
      [CHR 0xC2, CHR 0x85], [CHR 0xC2, CHR 0xA0], [CHR 0xE1, CHR 0x9A, CHR 0x80],
      [CHR 0xE2, CHR 0x80, CHR 0x80], [CHR 0xE2, CHR 0x80, CHR 0x81],
      [CHR 0xE2, CHR 0x80, CHR 0x82], [CHR 0xE2, CHR 0x80, CHR 0x83],
      [CHR 0xE2, CHR 0x80, CHR 0x84], [CHR 0xE2, CHR 0x80, CHR 0x85],
      [CHR 0xE2, CHR 0x80, CHR 0x86], [CHR 0xE2, CHR 0x80, CHR 0x87],
      [CHR 0xE2, CHR 0x80, CHR 0x88], [CHR 0xE2, CHR 0x80, CHR 0x89],
      [CHR 0xE2, CHR 0x80, CHR 0x8A], [CHR 0xE2, CHR 0x80, CHR 0xA8],
      [CHR 0xE2, CHR 0x80, CHR 0xA9], [CHR 0xE2, CHR 0x80, CHR 0xAF],
      [CHR 0xE2, CHR 0x81, CHR 0x9F], [CHR 0xE3, CHR 0x80, CHR 0x80]]"

lemma space_runes_nonempty: "r \<in> set space_runes \<Longrightarrow> r \<noteq> []"
  by (auto simp: space_runes_def)

function trim_left :: "string list \<Rightarrow> string \<Rightarrow> string" where
  "trim_left rs s =
     (case find (\<lambda>r. r \<noteq> [] \<and> has_prefix s r) rs of
        None \<Rightarrow> s
      | Some r \<Rightarrow> trim_left rs (drop (length r) s))"
  by pat_completeness auto
termination
proof (relation "measure (\<lambda>(rs, s). length s)")
  fix rs :: "string list" and s r
  assume "find (\<lambda>r. r \<noteq> [] \<and> has_prefix s r) rs = Some r"
  then have "r \<noteq> []" "take (length r) s = r"
    by (auto dest: find_SomeD simp: has_prefix_def)
  then show "((rs, drop (length r) s), rs, s) \<in> measure (\<lambda>(rs, s). length s)"
    by (cases s) auto
qed simp

declare trim_left.simps [simp del]

definition trim_space :: "string \<Rightarrow> string" where
  "trim_space s =
     rev (trim_left (map rev space_runes) (rev (trim_left space_runes s)))"

section \<open>Decimal integers\<close>

definition is_digit :: "char \<Rightarrow> bool" where
  "is_digit c \<longleftrightarrow> 48 \<le> (of_char c :: nat) \<and> (of_char c :: nat) \<le> 57"

definition digit_value :: "char \<Rightarrow> nat" where
  "digit_value c = (of_char c :: nat) - 48"

definition digit_char :: "nat \<Rightarrow> char" where
  "digit_char d = char_of (48 + d)"

datatype num_error = ErrSyntax | ErrRange

text \<open>
  \<open>strconv.ParseUint(s, 10, 64)\<close>: the digits are read from the left, and the first
  offence decides, a non-digit or a value past \<open>2 ^ 64 - 1\<close>.
\<close>

fun parse_uint_loop :: "nat \<Rightarrow> string \<Rightarrow> num_error + nat" where
  "parse_uint_loop n [] = Inr n"
| "parse_uint_loop n (c # cs) =
     (if \<not> is_digit c then Inl ErrSyntax
      else let m = 10 * n + digit_value c
           in if 2 ^ 64 \<le> m then Inl ErrRange else parse_uint_loop m cs)"

definition parse_uint :: "string \<Rightarrow> num_error + nat" where
  "parse_uint s = (if s = '''' then Inl ErrSyntax else parse_uint_loop 0 s)"

text \<open>\<open>strconv.ParseInt(s, 10, 64)\<close>: one optional sign, plus or minus, then digits.\<close>

definition parse_int :: "string \<Rightarrow> num_error + int" where
  "parse_int s =
     (case s of
        [] \<Rightarrow> Inl ErrSyntax
      | c # cs \<Rightarrow>
          (let neg = (c = CHR ''-'');
               digits = (if c = CHR ''+'' \<or> c = CHR ''-'' then cs else s)
           in case parse_uint digits of
                Inl e \<Rightarrow> Inl e
              | Inr u \<Rightarrow>
                  if \<not> neg \<and> 2 ^ 63 \<le> u then Inl ErrRange
                  else if neg \<and> 2 ^ 63 < u then Inl ErrRange
                  else Inr (if neg then - int u else int u)))"

definition parse_int64 :: "string \<Rightarrow> num_error + int64" where
  "parse_int64 s = map_sum id word_of_int (parse_int s)"

text \<open>\<open>fmt.Sprintf("%d", n)\<close> and \<open>strconv.Itoa\<close>.\<close>

fun show_nat :: "nat \<Rightarrow> string" where
  "show_nat n = (if n < 10 then [digit_char n] else show_nat (n div 10) @ [digit_char (n mod 10)])"

declare show_nat.simps [simp del]

definition show_int :: "int \<Rightarrow> string" where
  "show_int i = (if i < 0 then CHR ''-'' # show_nat (nat (- i)) else show_nat (nat i))"

definition show_int64 :: "int64 \<Rightarrow> string" where
  "show_int64 w = show_int (sint w)"

subsection \<open>Printing and parsing are inverse\<close>

lemma of_char_digit_char: "d < 10 \<Longrightarrow> (of_char (digit_char d) :: nat) = 48 + d"
  by (simp add: digit_char_def)

lemma is_digit_digit_char [simp]: "d < 10 \<Longrightarrow> is_digit (digit_char d)"
  by (simp add: is_digit_def of_char_digit_char)

lemma digit_value_digit_char [simp]: "d < 10 \<Longrightarrow> digit_value (digit_char d) = d"
  by (simp add: digit_value_def of_char_digit_char)

lemma not_digit_chars [simp]:
  "\<not> is_digit (CHR ''-'')" "\<not> is_digit (CHR ''+'')" "\<not> is_digit (CHR '','')"
  by (simp_all add: is_digit_def)

lemma show_nat_nonempty [simp]: "show_nat n \<noteq> []"
  by (subst show_nat.simps) simp

lemma show_nat_digits: "list_all is_digit (show_nat n)"
proof (induction n rule: show_nat.induct)
  case (1 n)
  then show ?case
    by (cases "n < 10") (simp_all add: show_nat.simps [of n])
qed

lemma show_nat_hd_digit: "is_digit (hd (show_nat n))"
  using show_nat_digits [of n] by (cases "show_nat n") auto

lemma parse_uint_loop_append:
  "parse_uint_loop a (s @ t) =
     (case parse_uint_loop a s of Inl e \<Rightarrow> Inl e | Inr m \<Rightarrow> parse_uint_loop m t)"
  by (induction s arbitrary: a) (auto simp: Let_def)

lemma parse_uint_loop_show: "n < 2 ^ 64 \<Longrightarrow> parse_uint_loop 0 (show_nat n) = Inr n"
proof (induction n rule: show_nat.induct)
  case (1 n)
  show ?case
  proof (cases "n < 10")
    case True
    then show ?thesis by (subst show_nat.simps) simp
  next
    case False
    then have "parse_uint_loop 0 (show_nat (n div 10)) = Inr (n div 10)"
      using "1" by simp
    moreover have "10 * (n div 10) + n mod 10 = n" by simp
    ultimately show ?thesis
      using False "1.prems"
      by (simp add: show_nat.simps [of n] parse_uint_loop_append Let_def)
  qed
qed

lemma parse_uint_show [simp]: "n < 2 ^ 64 \<Longrightarrow> parse_uint (show_nat n) = Inr n"
  by (simp add: parse_uint_def parse_uint_loop_show)

lemma parse_int_show_nat [simp]: "n < 2 ^ 63 \<Longrightarrow> parse_int (show_nat n) = Inr (int n)"
proof -
  assume n: "n < 2 ^ 63"
  obtain c cs where s: "show_nat n = c # cs"
    by (cases "show_nat n") auto
  then have "is_digit c"
    using show_nat_hd_digit [of n] by simp
  then have "c \<noteq> CHR ''+''" "c \<noteq> CHR ''-''"
    by auto
  moreover have "parse_uint (c # cs) = Inr n"
    using n parse_uint_show [of n] s by simp
  ultimately show ?thesis
    using n s by (simp add: parse_int_def)
qed

theorem parse_int_show_int:
  "- (2 ^ 63) \<le> i \<Longrightarrow> i < 2 ^ 63 \<Longrightarrow> parse_int (show_int i) = Inr i"
  by (cases "i < 0") (auto simp: show_int_def parse_int_def[of "_ # _"] nat_less_iff)

lemma parse_int_range: "parse_int s = Inr i \<Longrightarrow> - (2 ^ 63) \<le> i \<and> i < 2 ^ 63"
  by (auto simp: parse_int_def Let_def split: list.splits sum.splits if_splits)

lemma parse_int64_show_nat [simp]:
  "n < 2 ^ 63 \<Longrightarrow> parse_int64 (show_nat n) = Inr (word_of_int (int n))"
  by (simp add: parse_int64_def)

lemma parse_int64_empty [simp]: "parse_int64 '''' = Inl ErrSyntax"
  by (simp add: parse_int64_def parse_int_def)

subsection \<open>Cutting and trimming digit strings\<close>

lemma index_byte_append:
  "c \<notin> set s \<Longrightarrow> index_byte (s @ c # t) c = Some (length s)"
  by (induction s) auto

lemma index_byte_None: "c \<notin> set s \<Longrightarrow> index_byte s c = None"
  by (induction s) auto

lemma cut_byte_append [simp]: "c \<notin> set s \<Longrightarrow> cut_byte (s @ c # t) c = (s, t, True)"
  by (simp add: cut_byte_def index_byte_append)

lemma digits_not_in: "list_all is_digit s \<Longrightarrow> \<not> is_digit c \<Longrightarrow> c \<notin> set s"
  by (induction s) auto

lemma show_nat_no_sep [simp]:
  "CHR ''-'' \<notin> set (show_nat n)" "CHR '','' \<notin> set (show_nat n)" "CHR ''+'' \<notin> set (show_nat n)"
  by (rule digits_not_in [OF show_nat_digits], simp)+

lemma trim_left_id:
  "(\<And>r. r \<in> set rs \<Longrightarrow> \<not> has_prefix s r) \<Longrightarrow> trim_left rs s = s"
  by (subst trim_left.simps) (auto split: option.split dest: find_SomeD)

definition plain_char :: "char \<Rightarrow> bool" where
  "plain_char c \<longleftrightarrow> is_digit c \<or> c = CHR ''-'' \<or> c = CHR ''+''"

lemma has_prefix_hd: "has_prefix s r \<Longrightarrow> r \<noteq> [] \<Longrightarrow> s \<noteq> [] \<and> hd s = hd r"
  by (cases s; cases r) (auto simp: has_prefix_def)

lemma space_bytes_not_plain:
  "r \<in> set space_runes \<Longrightarrow> \<not> plain_char (hd r) \<and> \<not> plain_char (last r)"
  by (auto simp: space_runes_def plain_char_def is_digit_def)

lemma trim_space_plain [simp]:
  assumes "list_all plain_char s"
  shows "trim_space s = s"
proof -
  have head: "\<not> has_prefix s r" if "r \<in> set space_runes" for r
    using assms that space_bytes_not_plain [OF that] space_runes_nonempty [OF that]
    by (cases s) (auto dest: has_prefix_hd)
  have tail: "\<not> has_prefix (rev s) r" if r: "r \<in> set (map rev space_runes)" for r
  proof
    assume p: "has_prefix (rev s) r"
    from r obtain q where q: "q \<in> set space_runes" "r = rev q" by auto
    then have "r \<noteq> []" using space_runes_nonempty by auto
    with p have "rev s \<noteq> []" "hd (rev s) = hd r" by (auto dest: has_prefix_hd)
    then have "last q \<in> set s"
      using q space_runes_nonempty by (metis hd_in_set hd_rev set_rev)
    then show False
      using assms space_bytes_not_plain [OF q(1)] by (auto simp: list_all_iff)
  qed
  have "trim_left space_runes s = s" "trim_left (map rev space_runes) (rev s) = rev s"
    by (rule trim_left_id, erule head) (rule trim_left_id, erule tail)
  then show ?thesis
    by (simp add: trim_space_def)
qed

lemma show_nat_plain [simp]: "list_all plain_char (show_nat n)"
  using show_nat_digits [of n] by (auto simp: list_all_iff plain_char_def)

lemma plain_signs [simp]: "plain_char (CHR ''-'')" "plain_char (CHR ''+'')"
  by (simp_all add: plain_char_def)

text \<open>Evaluation of the parsers on literals.\<close>

lemmas parse_eval = has_prefix_def trim_prefix_def cut_prefix_def cut_byte_def plain_char_def
  is_digit_def digit_value_def parse_uint_def parse_int_def parse_int64_def word_sless_alt word_sle_eq

text \<open>A number that does not fit is a range error, wherever the overflow shows.\<close>

lemma parse_uint_loop_overflow: "2 ^ 64 \<le> n \<Longrightarrow> parse_uint_loop 0 (show_nat n) = Inl ErrRange"
proof (induction n rule: show_nat.induct)
  case (1 n)
  have big: "\<not> n < 10" using "1.prems" by simp
  show ?case
  proof (cases "2 ^ 64 \<le> n div 10")
    case True
    then have "parse_uint_loop 0 (show_nat (n div 10)) = Inl ErrRange"
      using "1.IH" big by simp
    with big show ?thesis
      by (simp add: show_nat.simps [of n] parse_uint_loop_append)
  next
    case False
    then have "parse_uint_loop 0 (show_nat (n div 10)) = Inr (n div 10)"
      by (simp add: parse_uint_loop_show)
    moreover have "10 * (n div 10) + n mod 10 = n" by simp
    ultimately show ?thesis
      using big "1.prems" by (simp add: show_nat.simps [of n] parse_uint_loop_append Let_def)
  qed
qed

lemma parse_int_overflow: "2 ^ 63 \<le> n \<Longrightarrow> parse_int (show_nat n) = Inl ErrRange"
proof -
  assume n: "2 ^ 63 \<le> n"
  obtain c cs where s: "show_nat n = c # cs"
    by (cases "show_nat n") auto
  then have "c \<noteq> CHR ''+''" "c \<noteq> CHR ''-''"
    using show_nat_hd_digit [of n] by auto
  moreover have "parse_uint (c # cs) = (if n < 2 ^ 64 then Inr n else Inl ErrRange)"
    using parse_uint_show [of n] parse_uint_loop_overflow [of n] s by (simp add: parse_uint_def)
  ultimately show ?thesis
    using n s by (simp add: parse_int_def)
qed

section \<open>Hexadecimal\<close>

text \<open>\<open>hex.EncodeToString\<close>: two lower-case digits for each byte.\<close>

definition hex_digit :: "nat \<Rightarrow> char" where
  "hex_digit d = (if d < 10 then char_of (48 + d) else char_of (87 + d))"

definition hex_encode :: "8 word list \<Rightarrow> string" where
  "hex_encode bs = concat (map (\<lambda>b. [hex_digit (unat b div 16), hex_digit (unat b mod 16)]) bs)"

lemma hex_digit_inject: "c < 16 \<Longrightarrow> d < 16 \<Longrightarrow> hex_digit c = hex_digit d \<Longrightarrow> c = d"
  by (drule arg_cong [where f = "of_char :: char \<Rightarrow> nat"])
    (auto simp: hex_digit_def split: if_splits)

lemma hex_encode_Nil [simp]: "hex_encode [] = ''''"
  by (simp add: hex_encode_def)

lemma hex_encode_Cons [simp]:
  "hex_encode (b # bs) = hex_digit (unat b div 16) # hex_digit (unat b mod 16) # hex_encode bs"
  by (simp add: hex_encode_def)

lemma unat_byte_digits:
  assumes "unat (b :: 8 word) div 16 = unat (c :: 8 word) div 16" "unat b mod 16 = unat c mod 16"
  shows "b = c"
  using assms by (metis div_mult_mod_eq word_unat_eq_iff)

lemma hex_encode_inject [simp]: "hex_encode bs = hex_encode cs \<longleftrightarrow> bs = cs"
proof
  assume "hex_encode bs = hex_encode cs"
  then show "bs = cs"
  proof (induction bs arbitrary: cs)
    case (Cons b bs)
    then obtain c cs' where cs: "cs = c # cs'"
      by (cases cs) auto
    have "unat b < 2 ^ LENGTH(8)" "unat c < 2 ^ LENGTH(8)"
      by (rule unsigned_less)+
    then have "b = c"
      using Cons.prems cs by (intro unat_byte_digits) (auto intro: hex_digit_inject)
    with Cons cs show ?case by auto
  next
    case Nil
    then show ?case by (cases cs) auto
  qed
qed simp

section \<open>Durations\<close>

text \<open>\<open>time.Duration.String\<close>, on a count of nanoseconds.\<close>

definition strip_zeros :: "string \<Rightarrow> string" where
  "strip_zeros s = rev (dropWhile (\<lambda>c. c = CHR ''0'') (rev s))"

definition show_frac :: "nat \<Rightarrow> nat \<Rightarrow> string" where
  "show_frac v prec =
     (let s = show_nat (v mod 10 ^ prec);
          digits = strip_zeros (replicate (prec - length s) (CHR ''0'') @ s)
      in if digits = '''' then '''' else CHR ''.'' # digits)"

definition duration_string :: "int64 \<Rightarrow> string" where
  "duration_string d =
     (let u = nat \<bar>sint d\<bar>; s = u div 10 ^ 9
      in (if sint d < 0 then ''-'' else '''') @
         (if u = 0 then ''0s''
          else if u < 10 ^ 3 then show_nat u @ ''ns''
          else if u < 10 ^ 6 then show_nat (u div 10 ^ 3) @ show_frac u 3 @ [CHR 0xC2, CHR 0xB5, CHR ''s'']
          else if u < 10 ^ 9 then show_nat (u div 10 ^ 6) @ show_frac u 6 @ ''ms''
          else (if s div 3600 = 0 then '''' else show_nat (s div 3600) @ ''h'') @
               (if s div 60 = 0 then '''' else show_nat (s div 60 mod 60) @ ''m'') @
               show_nat (s mod 60) @ show_frac u 9 @ ''s''))"

section \<open>Quoting\<close>

text \<open>
  \<open>%q\<close>: a double-quoted string with Go's escapes.  Bytes above the ASCII range are kept, as
  \<open>strconv.Quote\<close> does for printable UTF-8.
\<close>

definition quote_char :: "char \<Rightarrow> string" where
  "quote_char c =
     (let n = of_char c :: nat
      in if c = CHR 34 \<or> c = CHR 92 then [CHR 92, c]
         else if n = 7 then [CHR 92, CHR ''a'']
         else if n = 8 then [CHR 92, CHR ''b'']
         else if n = 12 then [CHR 92, CHR ''f'']
         else if n = 10 then [CHR 92, CHR ''n'']
         else if n = 13 then [CHR 92, CHR ''r'']
         else if n = 9 then [CHR 92, CHR ''t'']
         else if n = 11 then [CHR 92, CHR ''v'']
         else if n < 32 \<or> n = 127 then [CHR 92, CHR ''x'', hex_digit (n div 16), hex_digit (n mod 16)]
         else [c])"

definition quote :: "string \<Rightarrow> string" where
  "quote s = CHR 34 # concat (map quote_char s) @ [CHR 34]"

end
