(* ===== verification/PostgresRepo.thy ===== *)
theory PostgresRepo
  imports Metadata GoStd "HOL-Library.AList"
begin

text \<open>
  \<open>internal/metadata/postgres\<close>: the SQL implementation of the repository, over the two
  tables of \<open>migrations/00001_create_files.sql\<close>.  A database state holds the rows of both
  tables, the clock of \<open>now()\<close> and a schedule of faults; every statement sent to the server
  consumes one entry of the schedule.  A fault can lose the statement before the server runs
  it (\<open>Lost\<close>) or lose the acknowledgement after (\<open>Unacked\<close>): the client sees an error
  either way.  An exhausted schedule means no more faults.

  The \<open>sql_\<close> definitions are the statements, the \<open>pg_\<close> definitions the Go methods around
  them.  \<open>canon\<close> is the server's reading of \<open>uuid\<close> text.  Under schedules without
  \<open>Unacked\<close> faults the methods satisfy the contract of \<open>Metadata\<close>.
\<close>

section \<open>The database\<close>

datatype fault = Fine | Lost string | Unacked string

record idemRow =
  k_Key :: string
  k_FileID :: "string option"
  k_Status :: string
  k_CreatedAt :: int

record db =
  d_files :: "File list"
  d_idem :: "idemRow list"
  d_now :: int
  d_faults :: "fault list"

text \<open>Sending one statement.\<close>

definition send :: "(db \<Rightarrow> 'a res \<times> db) \<Rightarrow> db \<Rightarrow> 'a res \<times> db" where
  "send f d =
     (case d_faults d of
        [] \<Rightarrow> f d
      | x # xs \<Rightarrow>
          (let d = d\<lparr>d_faults := xs\<rparr>
           in case x of
                Fine \<Rightarrow> f d
              | Lost e \<Rightarrow> (Inl (Opaque e), d)
              | Unacked e \<Rightarrow> (Inl (Opaque e), snd (f d))))"

definition sql_rows :: "(db \<Rightarrow> 'a) \<Rightarrow> db \<Rightarrow> 'a res \<times> db" where
  "sql_rows f d = (Inr (f d), d)"

definition uuid_syntax :: goerr where
  "uuid_syntax = Opaque ''invalid input syntax for type uuid''"

definition unique_violation :: goerr where
  "unique_violation = Opaque ''duplicate key value violates unique constraint''"

section \<open>Files\<close>

definition sql_insert_file :: "(string \<Rightarrow> string option) \<Rightarrow> File \<Rightarrow> db \<Rightarrow> (int \<times> int option) res \<times> db" where
  "sql_insert_file canon f d =
     (case canon (f_ID f) of
        None \<Rightarrow> (Inl uuid_syntax, d)
      | Some c \<Rightarrow>
          if c \<in> set (map f_ID (d_files d)) \<or> f_StorageKey f \<in> set (map f_StorageKey (d_files d))
          then (Inl unique_violation, d)
          else (Inr (d_now d, None),
                d\<lparr>d_files := d_files d @
                   [f\<lparr>f_ID := c, f_CreatedAt := d_now d, f_UpdatedAt := None, f_DeletedAt := None\<rparr>]\<rparr>))"

definition insertFile :: "(string \<Rightarrow> string option) \<Rightarrow> File \<Rightarrow> db \<Rightarrow> File res \<times> db" where
  "insertFile canon f d =
     (let f = (if f_Metadata f = None then f\<lparr>f_Metadata := Some []\<rparr> else f)
      in case send (sql_insert_file canon f) d of
           (Inl e, d') \<Rightarrow> (Inl (Wrapped ''postgres: insert file'' e), d')
         | (Inr (created, updated), d') \<Rightarrow>
             (Inr (f\<lparr>f_CreatedAt := created, f_UpdatedAt := updated\<rparr>), d'))"

definition pg_Create :: "(string \<Rightarrow> string option) \<Rightarrow> File \<Rightarrow> db \<Rightarrow> File res \<times> db" where
  "pg_Create canon f d = insertFile canon f d"

text \<open>\<open>where id = $1 and deleted_at is null\<close>.\<close>

definition live_row :: "string \<Rightarrow> File \<Rightarrow> bool" where
  "live_row c f \<longleftrightarrow> f_ID f = c \<and> f_DeletedAt f = None"

definition sql_get :: "(string \<Rightarrow> string option) \<Rightarrow> string \<Rightarrow> db \<Rightarrow> File res \<times> db" where
  "sql_get canon i d =
     (case canon i of
        None \<Rightarrow> (Inl uuid_syntax, d)
      | Some c \<Rightarrow>
          (case find (live_row c) (d_files d) of
             None \<Rightarrow> (Inl NoRows, d)
           | Some f \<Rightarrow> (Inr f, d)))"

definition pg_Get :: "(string \<Rightarrow> string option) \<Rightarrow> string \<Rightarrow> db \<Rightarrow> File res \<times> db" where
  "pg_Get canon i d =
     (case send (sql_get canon i) d of
        (Inr f, d') \<Rightarrow> (Inr f, d')
      | (Inl e, d') \<Rightarrow>
          if errors_is e NoRows then (Inl MetadataNotFound, d')
          else (Inl (Wrapped ''postgres: get file'' e), d'))"

text \<open>An \<open>update ... where id = $1 and deleted_at is null\<close>, with the rows it affects.\<close>

definition sql_update_live ::
  "(string \<Rightarrow> string option) \<Rightarrow> (db \<Rightarrow> File \<Rightarrow> File) \<Rightarrow> string \<Rightarrow> db \<Rightarrow> File list res \<times> db" where
  "sql_update_live canon g i d =
     (case canon i of
        None \<Rightarrow> (Inl uuid_syntax, d)
      | Some c \<Rightarrow>
          (Inr (map (g d) (filter (live_row c) (d_files d))),
           d\<lparr>d_files := map (\<lambda>f. if live_row c f then g d f else f) (d_files d)\<rparr>))"

definition pg_Delete :: "(string \<Rightarrow> string option) \<Rightarrow> string \<Rightarrow> db \<Rightarrow> unit res \<times> db" where
  "pg_Delete canon i d =
     (case send (sql_update_live canon (\<lambda>d f. f\<lparr>f_DeletedAt := Some (d_now d)\<rparr>) i) d of
        (Inl e, d') \<Rightarrow> (Inl (Wrapped ''postgres: soft-delete file'' e), d')
      | (Inr fs, d') \<Rightarrow> if length fs = 0 then (Inl MetadataNotFound, d') else (Inr (), d'))"



definition pg_UpdateMetadata ::
  "(string \<Rightarrow> string option) \<Rightarrow> string \<Rightarrow> tags \<Rightarrow> bool \<Rightarrow> db \<Rightarrow> File res \<times> db" where
  "pg_UpdateMetadata canon i tags merge d =
     (let assign = (\<lambda>d f. f\<lparr>f_Metadata := Some (edited_tags f tags merge),
                              f_UpdatedAt := Some (d_now d)\<rparr>)
      in case send (sql_update_live canon assign i) d of
           (Inl e, d') \<Rightarrow> (Inl (Wrapped ''postgres: update metadata'' e), d')
         | (Inr [], d') \<Rightarrow> (Inl MetadataNotFound, d')
         | (Inr (f # fs), d') \<Rightarrow> (Inr f, d'))"

section \<open>Listing\<close>

text \<open>
  The \<open>@>\<close> operator of \<open>jsonb\<close>: an object contains another when every key of the other is
  there with a value that contains the other's; an array when every element is contained in
  one of its own.
\<close>

fun jsonb_contains :: "json \<Rightarrow> json \<Rightarrow> bool" where
  "jsonb_contains (JObj xs) (JObj ys) \<longleftrightarrow>
     (\<forall>(k, v) \<in> set ys. case map_of xs k of None \<Rightarrow> False | Some u \<Rightarrow> jsonb_contains u v)"
| "jsonb_contains (JArr xs) (JArr ys) \<longleftrightarrow> (\<forall>v \<in> set ys. \<exists>u \<in> set xs. jsonb_contains u v)"
| "jsonb_contains a b \<longleftrightarrow> a = b"

definition listDefaultLimit :: int64 where
  "listDefaultLimit = 50"

definition listMaxLimit :: int64 where
  "listMaxLimit = 500"

text \<open>The conditions that \<open>List\<close> joins with \<open>and\<close>; \<open>cur\<close> is the parsed cursor.\<close>

definition list_cond :: "listFilter \<Rightarrow> string option \<Rightarrow> File \<Rightarrow> bool" where
  "list_cond flt cur f \<longleftrightarrow>
     f_DeletedAt f = None \<and>
     (lf_ContentType flt \<noteq> '''' \<longrightarrow> f_ContentType f = lf_ContentType flt) \<and>
     (case cur of None \<Rightarrow> True | Some c \<Rightarrow> f_ID f < c) \<and>
     (0 < length (lf_Tags flt) \<longrightarrow>
        jsonb_contains (JObj (case f_Metadata f of None \<Rightarrow> [] | Some t \<Rightarrow> t)) (JObj (lf_Tags flt)))"

definition page_limit :: "int64 \<Rightarrow> int64" where
  "page_limit limit =
     (let limit = (if limit <=s 0 then listDefaultLimit else limit)
      in if listMaxLimit <s limit then listMaxLimit else limit)"

definition newest_first :: "File list \<Rightarrow> File list" where
  "newest_first fs = rev (sort_key f_ID fs)"

definition sql_list :: "(string \<Rightarrow> string option) \<Rightarrow> listFilter \<Rightarrow> db \<Rightarrow> File list res \<times> db" where
  "sql_list canon flt d =
     (let page = (\<lambda>cur. take (nat (sint (page_limit (lf_Limit flt))))
                          (newest_first (filter (list_cond flt cur) (d_files d))))
      in if lf_Cursor flt = '''' then (Inr (page None), d)
         else case canon (lf_Cursor flt) of
                None \<Rightarrow> (Inl uuid_syntax, d)
              | Some c \<Rightarrow> (Inr (page (Some c)), d))"

definition pg_List :: "(string \<Rightarrow> string option) \<Rightarrow> listFilter \<Rightarrow> db \<Rightarrow> File list res \<times> db" where
  "pg_List canon flt d =
     (case send (sql_list canon flt) d of
        (Inl e, d') \<Rightarrow> (Inl (Wrapped ''postgres: list files'' e), d')
      | (Inr fs, d') \<Rightarrow> (Inr fs, d'))"

section \<open>Garbage collection\<close>

text \<open>\<open>order by deleted_at asc limit $1\<close>, over the soft-deleted rows.\<close>

definition sql_list_deleted :: "int64 \<Rightarrow> db \<Rightarrow> File list" where
  "sql_list_deleted limit d =
     take (nat (sint limit))
       (sort_key (\<lambda>f. case f_DeletedAt f of None \<Rightarrow> 0 | Some t \<Rightarrow> t)
         (filter (\<lambda>f. f_DeletedAt f \<noteq> None) (d_files d)))"

definition pg_ListDeleted :: "int64 \<Rightarrow> db \<Rightarrow> File list res \<times> db" where
  "pg_ListDeleted limit d =
     (let limit = (if limit <=s 0 then 500 else limit)
      in case send (sql_rows (sql_list_deleted limit)) d of
           (Inl e, d') \<Rightarrow> (Inl (Wrapped ''postgres: list deleted'' e), d')
         | (Inr fs, d') \<Rightarrow> (Inr fs, d'))"

definition sql_purge :: "(string \<Rightarrow> string option) \<Rightarrow> string \<Rightarrow> db \<Rightarrow> unit res \<times> db" where
  "sql_purge canon i d =
     (case canon i of
        None \<Rightarrow> (Inl uuid_syntax, d)
      | Some c \<Rightarrow>
          (Inr (), d\<lparr>d_files := filter (\<lambda>f. \<not> (f_ID f = c \<and> f_DeletedAt f \<noteq> None)) (d_files d)\<rparr>))"

definition pg_Purge :: "(string \<Rightarrow> string option) \<Rightarrow> string \<Rightarrow> db \<Rightarrow> unit res \<times> db" where
  "pg_Purge canon i d =
     (case send (sql_purge canon i) d of
        (Inl e, d') \<Rightarrow> (Inl (Wrapped ''postgres: purge file'' e), d')
      | (Inr _, d') \<Rightarrow> (Inr (), d'))"

definition pg_StorageKeys :: "db \<Rightarrow> string set res \<times> db" where
  "pg_StorageKeys d =
     (case send (sql_rows (\<lambda>d. set (map f_StorageKey (d_files d)))) d of
        (Inl e, d') \<Rightarrow> (Inl (Wrapped ''postgres: list storage keys'' e), d')
      | (Inr ks, d') \<Rightarrow> (Inr ks, d'))"

section \<open>Idempotency keys\<close>

text \<open>\<open>insert ... on conflict (key) do nothing returning key\<close>.\<close>

definition sql_claim :: "string \<Rightarrow> db \<Rightarrow> unit res \<times> db" where
  "sql_claim k d =
     (if k \<in> set (map k_Key (d_idem d)) then (Inl NoRows, d)
      else (Inr (), d\<lparr>d_idem := d_idem d @
              [\<lparr>k_Key = k, k_FileID = None, k_Status = IdempotencyPending, k_CreatedAt = d_now d\<rparr>]\<rparr>))"

definition sql_read_idem :: "string \<Rightarrow> db \<Rightarrow> idemRecord res \<times> db" where
  "sql_read_idem k d =
     (case find (\<lambda>r. k_Key r = k) (d_idem d) of
        None \<Rightarrow> (Inl NoRows, d)
      | Some r \<Rightarrow> (Inr \<lparr>ir_Status = k_Status r, ir_FileID = k_FileID r\<rparr>, d))"

definition pg_ClaimIdempotencyKey :: "string \<Rightarrow> db \<Rightarrow> (bool \<times> idemRecord option) res \<times> db" where
  "pg_ClaimIdempotencyKey k d =
     (case send (sql_claim k) d of
        (Inr _, d') \<Rightarrow> (Inr (True, None), d')
      | (Inl e, d') \<Rightarrow>
          if \<not> errors_is e NoRows then (Inl (Wrapped ''postgres: claim idempotency key'' e), d')
          else case send (sql_read_idem k) d' of
                 (Inr rec, d'') \<Rightarrow> (Inr (False, Some rec), d'')
               | (Inl e, d'') \<Rightarrow>
                   if errors_is e NoRows then (Inr (False, None), d'')
                   else (Inl (Wrapped ''postgres: read idempotency key'' e), d''))"

text \<open>\<open>update idempotency_keys set status = $2, file_id = $3 where key = $1\<close>, with its count.\<close>

definition sql_complete :: "string \<Rightarrow> string \<Rightarrow> db \<Rightarrow> nat res \<times> db" where
  "sql_complete k i d =
     (Inr (length (filter (\<lambda>r. k_Key r = k) (d_idem d))),
      d\<lparr>d_idem := map (\<lambda>r. if k_Key r = k
                then r\<lparr>k_Status := IdempotencyCompleted, k_FileID := Some i\<rparr> else r) (d_idem d)\<rparr>)"

text \<open>The tables as they were at \<open>begin\<close>, and the commit of what the transaction did.\<close>

definition rollback :: "db \<Rightarrow> db \<Rightarrow> db" where
  "rollback d0 d = d\<lparr>d_files := d_files d0, d_idem := d_idem d0\<rparr>"

definition commit :: "db \<Rightarrow> db \<Rightarrow> unit res \<times> db" where
  "commit d0 d =
     send (\<lambda>b. (Inr (), b\<lparr>d_files := d_files d, d_idem := d_idem d\<rparr>)) (rollback d0 d)"

definition pg_CreateForKey ::
  "(string \<Rightarrow> string option) \<Rightarrow> File \<Rightarrow> string \<Rightarrow> db \<Rightarrow> File res \<times> db" where
  "pg_CreateForKey canon f k d =
     (case send (sql_rows (\<lambda>_. ())) d of
        (Inl e, d0) \<Rightarrow> (Inl (Wrapped ''postgres: begin tx'' e), d0)
      | (Inr _, d0) \<Rightarrow>
          (case insertFile canon f d0 of
             (Inl e, d1) \<Rightarrow> (Inl e, rollback d0 d1)
           | (Inr g, d1) \<Rightarrow>
               (case send (sql_complete k (f_ID f)) d1 of
                  (Inl e, d2) \<Rightarrow>
                    (Inl (Wrapped ''postgres: complete idempotency key'' e), rollback d0 d2)
                | (Inr n, d2) \<Rightarrow>
                    if n = 0 then
                      (Inl (Opaque (''postgres: complete idempotency key '' @ quote k @
                              '': claim no longer exists'')), rollback d0 d2)
                    else (case commit d0 d2 of
                            (Inl e, d3) \<Rightarrow> (Inl e, d3)
                          | (Inr _, d3) \<Rightarrow> (Inr g, d3)))))"

definition sql_release :: "string \<Rightarrow> db \<Rightarrow> unit res \<times> db" where
  "sql_release k d =
     (Inr (), d\<lparr>d_idem := filter (\<lambda>r. \<not> (k_Key r = k \<and> k_Status r = IdempotencyPending)) (d_idem d)\<rparr>)"

definition pg_ReleaseIdempotencyKey :: "string \<Rightarrow> db \<Rightarrow> unit res \<times> db" where
  "pg_ReleaseIdempotencyKey k d =
     (case send (sql_release k) d of
        (Inl e, d') \<Rightarrow> (Inl (Wrapped ''postgres: release idempotency key'' e), d')
      | (Inr _, d') \<Rightarrow> (Inr (), d'))"

definition sql_purge_keys :: "int \<Rightarrow> db \<Rightarrow> nat res \<times> db" where
  "sql_purge_keys before d =
     (Inr (length (filter (\<lambda>r. k_CreatedAt r < before) (d_idem d))),
      d\<lparr>d_idem := filter (\<lambda>r. \<not> k_CreatedAt r < before) (d_idem d)\<rparr>)"

definition pg_PurgeIdempotencyKeys :: "int \<Rightarrow> db \<Rightarrow> nat res \<times> db" where
  "pg_PurgeIdempotencyKeys before d =
     (case send (sql_purge_keys before) d of
        (Inl e, d') \<Rightarrow> (Inl (Wrapped ''postgres: purge idempotency keys'' e), d')
      | (Inr n, d') \<Rightarrow> (Inr n, d'))"

definition pg_repo :: "(string \<Rightarrow> string option) \<Rightarrow> db repository" where
  "pg_repo canon =
     \<lparr>r_Create = pg_Create canon, r_Get = pg_Get canon, r_List = pg_List canon,
      r_UpdateMetadata = pg_UpdateMetadata canon, r_Delete = pg_Delete canon,
      r_ListDeleted = pg_ListDeleted, r_Purge = pg_Purge canon, r_StorageKeys = pg_StorageKeys,
      r_ClaimIdempotencyKey = pg_ClaimIdempotencyKey, r_CreateForKey = pg_CreateForKey canon,
      r_ReleaseIdempotencyKey = pg_ReleaseIdempotencyKey,
      r_PurgeIdempotencyKeys = pg_PurgeIdempotencyKeys\<rparr>"

lemma pg_repo_sel [simp]:
  "r_Create (pg_repo canon) = pg_Create canon" "r_Get (pg_repo canon) = pg_Get canon"
  "r_List (pg_repo canon) = pg_List canon"
  "r_UpdateMetadata (pg_repo canon) = pg_UpdateMetadata canon"
  "r_Delete (pg_repo canon) = pg_Delete canon" "r_ListDeleted (pg_repo canon) = pg_ListDeleted"
  "r_Purge (pg_repo canon) = pg_Purge canon" "r_StorageKeys (pg_repo canon) = pg_StorageKeys"
  "r_ClaimIdempotencyKey (pg_repo canon) = pg_ClaimIdempotencyKey"
  "r_CreateForKey (pg_repo canon) = pg_CreateForKey canon"
  "r_ReleaseIdempotencyKey (pg_repo canon) = pg_ReleaseIdempotencyKey"
  "r_PurgeIdempotencyKeys (pg_repo canon) = pg_PurgeIdempotencyKeys"
  by (simp_all add: pg_repo_def)

section \<open>The contract\<close>

definition pg_rows :: "db \<Rightarrow> string \<rightharpoonup> File" where
  "pg_rows d c = find (\<lambda>f. f_ID f = c) (d_files d)"

definition pg_claims :: "db \<Rightarrow> string \<rightharpoonup> idemRecord" where
  "pg_claims d k =
     map_option (\<lambda>r. \<lparr>ir_Status = k_Status r, ir_FileID = k_FileID r\<rparr>)
       (find (\<lambda>r. k_Key r = k) (d_idem d))"

text \<open>The constraints of the schema: primary keys, the unique storage key, no null metadata.\<close>

definition tables_ok :: "db \<Rightarrow> bool" where
  "tables_ok d \<longleftrightarrow>
     distinct (map f_ID (d_files d)) \<and> distinct (map f_StorageKey (d_files d)) \<and>
     distinct (map k_Key (d_idem d)) \<and> (\<forall>f \<in> set (d_files d). f_Metadata f \<noteq> None)"

text \<open>No acknowledgement is going to be lost.\<close>

definition acked :: "db \<Rightarrow> bool" where
  "acked d \<longleftrightarrow> (\<forall>e. Unacked e \<notin> set (d_faults d))"

definition pg_good :: "db \<Rightarrow> bool" where
  "pg_good d \<longleftrightarrow> tables_ok d \<and> acked d"

definition pop :: "db \<Rightarrow> db" where
  "pop d = d\<lparr>d_faults := tl (d_faults d)\<rparr>"

lemma pop_simps [simp]:
  "d_files (pop d) = d_files d" "d_idem (pop d) = d_idem d" "d_now (pop d) = d_now d"
  "pg_rows (pop d) = pg_rows d" "pg_claims (pop d) = pg_claims d"
  "tables_ok (pop d) = tables_ok d" "acked d \<Longrightarrow> acked (pop d)" "pg_good d \<Longrightarrow> pg_good (pop d)"
  by (auto simp: pop_def pg_rows_def pg_claims_def tables_ok_def acked_def pg_good_def fun_eq_iff
      dest: list.set_sel(2) split: option.splits) (metis list.set_sel(2) tl_Nil)+

lemma pop_Nil: "d_faults d = [] \<Longrightarrow> d\<lparr>d_faults := []\<rparr> = d"
  by (cases d) simp

lemma send_acked:
  assumes "acked d" and "send f d = (x, d')"
  shows "f (pop d) = (x, d') \<or> (\<exists>e. x = Inl (Opaque e) \<and> d' = pop d)"
  using assms
  by (cases "d_faults d") (auto simp: send_def acked_def pop_def pop_Nil Let_def split: fault.splits)

lemma send_Inr:
  assumes "send f d = (Inr x, d')"
  shows "f (pop d) = (Inr x, d')"
  using assms
  by (cases "d_faults d") (auto simp: send_def pop_def pop_Nil Let_def split: fault.splits)

lemma pg_rows_SomeD: "pg_rows d c = Some f \<Longrightarrow> f \<in> set (d_files d) \<and> f_ID f = c"
  by (auto simp: pg_rows_def dest: find_SomeD)

lemma pg_rows_None_iff: "pg_rows d c = None \<longleftrightarrow> c \<notin> set (map f_ID (d_files d))"
  by (auto simp: pg_rows_def find_None_iff)

lemma ran_pg_rows: "tables_ok d \<Longrightarrow> ran (pg_rows d) = set (d_files d)"
  by (auto simp: ran_def tables_ok_def dest: pg_rows_SomeD)
    (auto simp: pg_rows_def intro: find_key_unique)

lemma pg_rows_mem: "tables_ok d \<Longrightarrow> f \<in> set (d_files d) \<Longrightarrow> pg_rows d (f_ID f) = Some f"
  by (simp add: pg_rows_def tables_ok_def find_key_unique)

lemma pg_claims_None_iff: "pg_claims d k = None \<longleftrightarrow> k \<notin> set (map k_Key (d_idem d))"
  by (auto simp: pg_claims_def find_None_iff)

subsection \<open>What each statement does to the tables\<close>

lemma sql_insert_file_error:
  "sql_insert_file canon f d = (Inl e, d') \<Longrightarrow> d' = d"
  by (auto simp: sql_insert_file_def split: option.splits if_splits)

lemma sql_insert_file_ok:
  assumes "tables_ok d" and "f_Metadata f \<noteq> None"
    and "sql_insert_file canon f d = (Inr (created, updated), d')"
  shows "\<exists>c. canon (f_ID f) = Some c \<and> pg_rows d c = None \<and>
      (\<forall>r \<in> ran (pg_rows d). f_StorageKey r \<noteq> f_StorageKey f) \<and> updated = None \<and>
      pg_rows d' = (pg_rows d)(c \<mapsto>
        f\<lparr>f_ID := c, f_CreatedAt := created, f_UpdatedAt := None, f_DeletedAt := None\<rparr>) \<and>
      pg_claims d' = pg_claims d \<and> tables_ok d' \<and> d_faults d' = d_faults d"
proof -
  obtain c where c: "canon (f_ID f) = Some c" "c \<notin> set (map f_ID (d_files d))"
    "f_StorageKey f \<notin> set (map f_StorageKey (d_files d))" "created = d_now d" "updated = None"
    "d' = d\<lparr>d_files := d_files d @
        [f\<lparr>f_ID := c, f_CreatedAt := d_now d, f_UpdatedAt := None, f_DeletedAt := None\<rparr>]\<rparr>"
    using assms(3) by (auto simp: sql_insert_file_def split: option.splits if_splits)
  then have none: "pg_rows d c = None"
    by (auto simp: pg_rows_None_iff)
  have "pg_rows d' = (pg_rows d)(c \<mapsto>
      f\<lparr>f_ID := c, f_CreatedAt := created, f_UpdatedAt := None, f_DeletedAt := None\<rparr>)"
    using c none by (auto simp: pg_rows_def fun_eq_iff find_append split: option.splits)
  moreover have "\<forall>r \<in> ran (pg_rows d). f_StorageKey r \<noteq> f_StorageKey f"
    using c(3) assms(1) by (auto simp: ran_pg_rows image_iff)
  moreover have "tables_ok d'"
    using c assms by (auto simp: tables_ok_def)
  ultimately show ?thesis
    using c none by (auto simp: pg_claims_def fun_eq_iff)
qed

text \<open>A row update that keeps the keys, at one live row.\<close>

lemma map_rows_facts:
  fixes d d' :: db
  assumes keep: "\<And>f. f_ID (h f) = f_ID f \<and> f_StorageKey (h f) = f_StorageKey f"
    and meta: "\<And>f. f_Metadata f \<noteq> None \<Longrightarrow> f_Metadata (h f) \<noteq> None"
  defines "d' \<equiv> d\<lparr>d_files := map h (d_files d)\<rparr>"
  shows "pg_rows d' c = map_option h (pg_rows d c)" "tables_ok d \<Longrightarrow> tables_ok d'"
    "pg_claims d' = pg_claims d" "d_faults d' = d_faults d"
proof -
  show "pg_rows d' c = map_option h (pg_rows d c)"
    using keep by (simp add: d'_def pg_rows_def find_map_key)
  have "map f_ID (d_files d') = map f_ID (d_files d)"
    "map f_StorageKey (d_files d') = map f_StorageKey (d_files d)" "d_idem d' = d_idem d"
    using keep by (simp_all add: d'_def comp_def)
  moreover assume "tables_ok d"
  moreover from this have "\<forall>f \<in> set (d_files d'). f_Metadata f \<noteq> None"
    using meta by (auto simp: tables_ok_def d'_def)
  ultimately show "tables_ok d'"
    by (simp add: tables_ok_def)
qed (simp_all add: d'_def pg_claims_def fun_eq_iff)

lemma sql_update_live_ok:
  assumes "tables_ok d" and "sql_update_live canon g i d = (Inr fs, d')"
    and keep: "\<And>f. f_ID (g d f) = f_ID f \<and> f_StorageKey (g d f) = f_StorageKey f"
    and meta: "\<And>f. f_Metadata f \<noteq> None \<Longrightarrow> f_Metadata (g d f) \<noteq> None"
  shows "(\<exists>c. canon i = Some c \<and>
      (case fs of
         [] \<Rightarrow> d' = d \<and> (\<forall>f. pg_rows d c = Some f \<longrightarrow> \<not> live f)
       | x # xs \<Rightarrow> \<exists>f. pg_rows d c = Some f \<and> live f \<and> x = g d f \<and>
           pg_rows d' = (pg_rows d)(c \<mapsto> g d f))) \<and>
    pg_claims d' = pg_claims d \<and> tables_ok d' \<and> d_faults d' = d_faults d"
proof -
  obtain c where c: "canon i = Some c" "fs = map (g d) (filter (live_row c) (d_files d))"
    "d' = d\<lparr>d_files := map (\<lambda>f. if live_row c f then g d f else f) (d_files d)\<rparr>"
    using assms(2) by (auto simp: sql_update_live_def split: option.splits)
  note facts = map_rows_facts [of "\<lambda>f. if live_row c f then g d f else f" d, folded c(3)]
  have rows: "pg_rows d' c' = map_option (\<lambda>f. if live_row c f then g d f else f) (pg_rows d c')" for c'
    using facts(1) keep meta by auto
  have "case fs of
      [] \<Rightarrow> d' = d \<and> (\<forall>f. pg_rows d c = Some f \<longrightarrow> \<not> live f)
    | x # xs \<Rightarrow> \<exists>f. pg_rows d c = Some f \<and> live f \<and> x = g d f \<and>
        pg_rows d' = (pg_rows d)(c \<mapsto> g d f)"
  proof (cases "filter (live_row c) (d_files d)")
    case Nil
    then have no: "\<forall>f \<in> set (d_files d). \<not> live_row c f"
      by (simp add: filter_empty_conv)
    then have "map (\<lambda>f. if live_row c f then g d f else f) (d_files d) = d_files d"
      by (intro map_idI) auto
    then show ?thesis
      using no Nil c(2,3) by (auto simp: live_row_def dest: pg_rows_SomeD)
  next
    case (Cons f fs')
    then have "f \<in> set (filter (live_row c) (d_files d))"
      by simp
    then have f: "f \<in> set (d_files d)" "live_row c f"
      by simp_all
    then have "pg_rows d c = Some f"
      using pg_rows_mem [OF assms(1) f(1)] by (simp add: live_row_def)
    moreover have "pg_rows d' = (pg_rows d)(c \<mapsto> g d f)"
      using f calculation
      by (auto simp: fun_eq_iff rows live_row_def split: option.splits dest: pg_rows_SomeD)
        (auto simp: map_option_case live_row_def split: option.splits dest: pg_rows_SomeD)
    ultimately show ?thesis
      using f(2) Cons c(2) by (simp add: live_row_def)
  qed
  then show ?thesis
    using c(1) facts(2-4) assms(1) keep meta by auto
qed

subsection \<open>What each method does\<close>

lemma acked_cong: "d_faults d' = d_faults d \<Longrightarrow> acked d' = acked d"
  by (simp add: acked_def)

lemma insertFile_error: "acked d \<Longrightarrow> insertFile canon f d = (Inl e, d') \<Longrightarrow> d' = pop d"
  by (auto simp: insertFile_def Let_def split: sum.splits prod.splits
      dest!: send_acked sql_insert_file_error)

lemma insertFile_ok:
  assumes "tables_ok d" and "insertFile canon f d = (Inr g, d')"
  shows "(\<exists>c. canon (f_ID f) = Some c \<and> added (pg_rows d) c f g (pg_rows d')) \<and>
    pg_claims d' = pg_claims d \<and> tables_ok d' \<and> d_faults d' = d_faults (pop d)"
proof -
  define f' where "f' = (if f_Metadata f = None then f\<lparr>f_Metadata := Some []\<rparr> else f)"
  obtain created updated where ins: "sql_insert_file canon f' (pop d) = (Inr (created, updated), d')"
    and g: "g = f'\<lparr>f_CreatedAt := created, f_UpdatedAt := updated\<rparr>"
    using assms(2)
    by (auto simp: insertFile_def Let_def f'_def split: sum.splits prod.splits if_splits dest!: send_Inr)
  have "f_Metadata f' \<noteq> None"
    by (simp add: f'_def)
  from sql_insert_file_ok [OF _ this ins] assms(1) show ?thesis
    by (cases f) (auto simp: g added_def filled_in_def f'_def)
qed

lemma pg_Create_ok:
  "pg_good d \<Longrightarrow> pg_Create canon f d = (Inr g, d') \<Longrightarrow>
    (\<exists>c. canon (f_ID f) = Some c \<and> added (pg_rows d) c f g (pg_rows d')) \<and>
    pg_claims d' = pg_claims d \<and> pg_good d'"
  using insertFile_ok [of d canon f g d'] acked_cong [of d' "pop d"]
  by (auto simp: pg_Create_def pg_good_def)

lemma pg_Get_cases:
  assumes "pg_Get canon i d = (x, d')" and "acked d"
  shows "d' = pop d \<and>
    (case x of
       Inr g \<Rightarrow> \<exists>c. canon i = Some c \<and> find (live_row c) (d_files d) = Some g
     | Inl e \<Rightarrow> e = MetadataNotFound \<longrightarrow> (\<exists>c. canon i = Some c \<and> find (live_row c) (d_files d) = None))"
proof -
  obtain y d'' where s: "send (sql_get canon i) d = (y, d'')"
    by (metis surj_pair)
  from send_acked [OF assms(2) this] show ?thesis
    using assms(1) s
    by (auto simp: pg_Get_def sql_get_def uuid_syntax_def split: option.splits if_splits)
qed

lemma find_live_row_Some: "find (live_row c) (d_files d) = Some g \<Longrightarrow> tables_ok d \<Longrightarrow> pg_rows d c = Some g \<and> live g"
  by (auto simp: live_row_def dest!: find_SomeD dest: pg_rows_mem)

lemma find_live_row_None: "find (live_row c) (d_files d) = None \<Longrightarrow> pg_rows d c = Some g \<Longrightarrow> \<not> live g"
  by (auto simp: live_row_def find_None_iff dest: pg_rows_SomeD)

lemma pg_Delete_cases:
  assumes "pg_Delete canon i d = (x, d')" and "pg_good d"
  shows "pg_claims d' = pg_claims d \<and> pg_good d' \<and>
    (case x of
       Inr _ \<Rightarrow> \<exists>c g t. canon i = Some c \<and> pg_rows d c = Some g \<and> live g \<and>
         pg_rows d' = (pg_rows d)(c \<mapsto> g\<lparr>f_DeletedAt := Some t\<rparr>)
     | Inl e \<Rightarrow> pg_rows d' = pg_rows d)"
proof -
  let ?g = "\<lambda>d f. f\<lparr>f_DeletedAt := Some (d_now d)\<rparr>"
  have good: "acked d" "tables_ok d" "pg_good (pop d)"
    using assms(2) by (simp_all add: pg_good_def)
  obtain y d'' where s: "send (sql_update_live canon ?g i) d = (y, d'')"
    by (metis surj_pair)
  show ?thesis
  proof (cases "d'' = pop d \<and> (\<exists>e. y = Inl e)")
    case True
    then show ?thesis
      using assms(1) s good by (auto simp: pg_Delete_def)
  next
    case False
    then have run: "sql_update_live canon ?g i (pop d) = (y, d'')"
      using send_acked [OF good(1) s] by auto
    with False obtain fs where fs: "y = Inr fs"
      by (auto simp: sql_update_live_def split: option.splits)
    from sql_update_live_ok [OF _ run [unfolded fs]] good(2) show ?thesis
      using assms(1) s fs good acked_cong [of d'' "pop d"]
      by (cases fs) (auto simp: pg_Delete_def pg_good_def split: list.splits)
  qed
qed

subsection \<open>Idempotency keys\<close>

lemma sql_claim_ok:
  assumes "sql_claim k d = (Inr u, d')" and "tables_ok d"
  shows "pg_claims d k = None \<and> pg_rows d' = pg_rows d \<and> tables_ok d' \<and> d_faults d' = d_faults d \<and>
    pg_claims d' = (pg_claims d)(k \<mapsto> \<lparr>ir_Status = IdempotencyPending, ir_FileID = None\<rparr>)"
proof -
  have c: "k \<notin> set (map k_Key (d_idem d))" "d' = d\<lparr>d_idem := d_idem d @
      [\<lparr>k_Key = k, k_FileID = None, k_Status = IdempotencyPending, k_CreatedAt = d_now d\<rparr>]\<rparr>"
    using assms(1) by (auto simp: sql_claim_def split: if_splits)
  then have "find (\<lambda>r. k_Key r = k) (d_idem d) = None"
    by (auto simp: find_None_iff)
  then show ?thesis
    using c assms(2)
    by (auto simp: pg_claims_def pg_rows_def tables_ok_def fun_eq_iff find_append split: option.splits)
qed

lemma pg_Claim_cases:
  assumes "pg_ClaimIdempotencyKey k d = (x, d')" and "pg_good d"
  shows "pg_good d' \<and> pg_rows d' = pg_rows d \<and>
    (case x of
       Inr (True, _) \<Rightarrow> pg_claims d k = None \<and>
         pg_claims d' = (pg_claims d)(k \<mapsto> \<lparr>ir_Status = IdempotencyPending, ir_FileID = None\<rparr>)
     | Inr (False, Some rec) \<Rightarrow> pg_claims d k = Some rec \<and> pg_claims d' = pg_claims d
     | _ \<Rightarrow> pg_claims d' = pg_claims d)"
proof -
  have good: "acked d" "tables_ok d" "pg_good (pop d)"
    using assms(2) by (simp_all add: pg_good_def)
  obtain y d1 where s: "send (sql_claim k) d = (y, d1)"
    by (metis surj_pair)
  show ?thesis
  proof (cases y)
    case (Inr u)
    then show ?thesis
      using assms(1) s sql_claim_ok [of k "pop d" u d1] send_Inr [of "sql_claim k" d u d1] good
        acked_cong [of d1 "pop d"]
      by (auto simp: pg_ClaimIdempotencyKey_def pg_good_def)
  next
    case (Inl e)
    then have d1: "d1 = pop d"
      using send_acked [OF good(1) s] by (auto simp: sql_claim_def split: if_splits)
    obtain z d2 where r: "send (sql_read_idem k) d1 = (z, d2)"
      by (metis surj_pair)
    have d2: "d2 = pop d1"
      using send_acked [OF _ r] d1 good by (auto simp: sql_read_idem_def split: option.splits)
    have "z = Inr rec \<Longrightarrow> pg_claims d k = Some rec" for rec
      using send_Inr [of "sql_read_idem k" d1 rec d2] r d1
      by (auto simp: sql_read_idem_def pg_claims_def split: option.splits)
    then show ?thesis
      using assms(1) s Inl r d1 d2 good
      by (auto simp: pg_ClaimIdempotencyKey_def split: sum.splits if_splits)
  qed
qed

lemma view_cong:
  "d_files d' = d_files d \<Longrightarrow> pg_rows d' = pg_rows d"
  "d_idem d' = d_idem d \<Longrightarrow> pg_claims d' = pg_claims d"
  "d_files d' = d_files d \<Longrightarrow> d_idem d' = d_idem d \<Longrightarrow> tables_ok d' = tables_ok d"
  by (simp_all add: pg_rows_def pg_claims_def tables_ok_def fun_eq_iff)

lemma sql_complete_ok:
  assumes "sql_complete k i d = (Inr n, d')" and "tables_ok d" and "n \<noteq> 0"
  shows "pg_claims d k \<noteq> None \<and> pg_rows d' = pg_rows d \<and> tables_ok d' \<and> d_faults d' = d_faults d \<and>
    pg_claims d' = (pg_claims d)(k \<mapsto> \<lparr>ir_Status = IdempotencyCompleted, ir_FileID = Some i\<rparr>)"
proof -
  let ?h = "\<lambda>r. if k_Key r = k then r\<lparr>k_Status := IdempotencyCompleted, k_FileID := Some i\<rparr> else r"
  have d': "d' = d\<lparr>d_idem := map ?h (d_idem d)\<rparr>" and "n = length (filter (\<lambda>r. k_Key r = k) (d_idem d))"
    using assms(1) by (auto simp: sql_complete_def)
  then have "filter (\<lambda>r. k_Key r = k) (d_idem d) \<noteq> []"
    using assms(3) by auto
  then obtain r where r: "find (\<lambda>r. k_Key r = k) (d_idem d) = Some r"
    by (cases "find (\<lambda>r. k_Key r = k) (d_idem d)") (auto simp: find_None_iff filter_empty_conv)
  have "find (\<lambda>r. k_Key r = j) (map ?h (d_idem d)) = map_option ?h (find (\<lambda>r. k_Key r = j) (d_idem d))" for j
    by (rule find_map_key) simp
  note found = this
  have "pg_claims d' j = ((pg_claims d)(k \<mapsto>
      \<lparr>ir_Status = IdempotencyCompleted, ir_FileID = Some i\<rparr>)) j" for j
  proof (cases "find (\<lambda>r. k_Key r = j) (d_idem d)")
    case None
    then have "j \<noteq> k"
      using r by auto
    with None show ?thesis
      by (simp add: pg_claims_def d' found)
  next
    case (Some x)
    then have "k_Key x = j"
      by (auto dest: find_SomeD)
    with Some show ?thesis
      by (simp add: pg_claims_def d' found)
  qed
  then have "pg_claims d' = (pg_claims d)(k \<mapsto>
      \<lparr>ir_Status = IdempotencyCompleted, ir_FileID = Some i\<rparr>)"
    by (rule ext)
  moreover have "map k_Key (d_idem d') = map k_Key (d_idem d)"
    by (auto simp: d')
  then have "tables_ok d' = tables_ok d"
    by (simp add: tables_ok_def d' del: map_map)
  moreover have "pg_claims d k \<noteq> None"
    using r by (simp add: pg_claims_def)
  moreover have "pg_rows d' = pg_rows d" "d_faults d' = d_faults d"
    by (simp_all add: d' pg_rows_def fun_eq_iff)
  ultimately show ?thesis
    using assms(2) by simp
qed

lemma rollback_simps [simp]:
  "pg_rows (rollback d0 d) = pg_rows d0" "pg_claims (rollback d0 d) = pg_claims d0"
  "tables_ok (rollback d0 d) = tables_ok d0" "d_faults (rollback d0 d) = d_faults d"
  by (simp_all add: rollback_def pg_rows_def pg_claims_def tables_ok_def fun_eq_iff)

lemma commit_ok:
  "commit d0 d = (Inr u, d') \<Longrightarrow>
    pg_rows d' = pg_rows d \<and> pg_claims d' = pg_claims d \<and> tables_ok d' = tables_ok d \<and>
    d_faults d' = d_faults (pop d)"
  by (auto simp: commit_def pop_def pg_rows_def pg_claims_def tables_ok_def rollback_def fun_eq_iff
      dest!: send_Inr)

lemma commit_error: "acked d \<Longrightarrow> commit d0 d = (Inl e, d') \<Longrightarrow> d' = pop (rollback d0 d)"
  by (auto simp: commit_def acked_def dest!: send_acked [rotated])

lemma acked_pop_faults: "acked d \<Longrightarrow> d_faults d' = d_faults (pop d) \<Longrightarrow> acked d'"
  using acked_cong [of d' "pop d"] by simp

lemma pg_CreateForKey_error:
  assumes "pg_CreateForKey canon f k d = (Inl e, d')" and "pg_good d"
  shows "pg_rows d' = pg_rows d \<and> pg_claims d' = pg_claims d \<and> pg_good d'"
proof -
  have good: "acked d" "tables_ok d"
    using assms(2) by (simp_all add: pg_good_def)
  obtain x0 d0 where s0: "send (sql_rows (\<lambda>_. ())) d = (x0, d0)"
    by (metis surj_pair)
  have d0: "d0 = pop d" "acked d0"
    using send_acked [OF good(1) s0] good(1) by (auto simp: sql_rows_def)
  obtain x1 d1 where s1: "insertFile canon f d0 = (x1, d1)"
    by (metis surj_pair)
  obtain x2 d2 where s2: "send (sql_complete k (f_ID f)) d1 = (x2, d2)"
    by (metis surj_pair)
  have d1: "acked d1"
    using s1 insertFile_error [OF d0(2)] insertFile_ok [of d0 canon f] good(2) d0
      acked_pop_faults [OF d0(2)]
    by (cases x1) auto
  have d2: "acked d2"
    using send_acked [OF d1 s2] acked_pop_faults [OF d1, of d2] d1 by (auto simp: sql_complete_def)
  then have "acked (rollback d0 d1)" "acked (rollback d0 d2)"
    using d1 by (simp_all add: acked_def)
  then show ?thesis
    using assms(1) s0 s1 s2 d0(1) good
    by (auto simp: pg_CreateForKey_def pg_good_def split: sum.splits prod.splits if_splits
        dest!: commit_error [OF d2])
qed

lemma pg_CreateForKey_ok:
  assumes "pg_CreateForKey canon f k d = (Inr g, d')" and "tables_ok d"
  shows "(\<exists>c. canon (f_ID f) = Some c \<and> added (pg_rows d) c f g (pg_rows d')) \<and> pg_claims d k \<noteq> None \<and>
    pg_claims d' = (pg_claims d)(k \<mapsto> \<lparr>ir_Status = IdempotencyCompleted, ir_FileID = Some (f_ID f)\<rparr>) \<and>
    tables_ok d' \<and> (acked d \<longrightarrow> acked d')"
proof -
  obtain d0 d1 d2 n u where s: "send (sql_rows (\<lambda>_. ())) d = (Inr (), d0)"
    "insertFile canon f d0 = (Inr g, d1)" "send (sql_complete k (f_ID f)) d1 = (Inr n, d2)" "n \<noteq> 0"
    "commit d0 d2 = (Inr u, d')"
    using assms(1)
    by (auto simp: pg_CreateForKey_def split: sum.splits prod.splits if_splits)
  have d0: "d0 = pop d"
    using send_Inr [OF s(1)] by (simp add: sql_rows_def)
  have ins: "(\<exists>c. canon (f_ID f) = Some c \<and> added (pg_rows d) c f g (pg_rows d1)) \<and>
      pg_claims d1 = pg_claims d \<and> tables_ok d1 \<and> d_faults d1 = d_faults (pop d0)"
    using insertFile_ok [OF _ s(2)] assms(2) d0 by simp
  then have "pg_claims d1 k \<noteq> None \<and> pg_rows d2 = pg_rows d1 \<and> tables_ok d2 \<and>
      d_faults d2 = d_faults (pop d1) \<and>
      pg_claims d2 = (pg_claims d1)(k \<mapsto> \<lparr>ir_Status = IdempotencyCompleted, ir_FileID = Some (f_ID f)\<rparr>)"
    using sql_complete_ok [OF send_Inr [OF s(3)] _ s(4)] by simp
  note complete = this
  have "acked d'" if "acked d"
  proof -
    have "acked d0" using that d0 by simp
    then have "acked d1" using ins acked_pop_faults by blast
    then have "acked d2" using complete acked_pop_faults by blast
    then show ?thesis using commit_ok [OF s(5)] acked_pop_faults by blast
  qed
  moreover have "pg_claims d' = (pg_claims d)(k \<mapsto>
      \<lparr>ir_Status = IdempotencyCompleted, ir_FileID = Some (f_ID f)\<rparr>)"
    "pg_rows d' = pg_rows d1" "pg_claims d k \<noteq> None" "tables_ok d'"
    using ins complete commit_ok [OF s(5)] by simp_all
  ultimately show ?thesis
    using ins by simp
qed

lemma sql_release_ok:
  assumes "tables_ok d"
  shows "pg_claims (snd (sql_release k d)) =
    (if map_option ir_Status (pg_claims d k) = Some IdempotencyPending
     then (pg_claims d)(k := None) else pg_claims d)"
proof -
  have dist: "distinct (map k_Key (d_idem d))"
    using assms by (simp add: tables_ok_def)
  have "pg_claims (snd (sql_release k d)) j =
    (if map_option ir_Status (pg_claims d k) = Some IdempotencyPending
     then (pg_claims d)(k := None) else pg_claims d) j" for j
  proof (cases "find (\<lambda>r. k_Key r = j) (d_idem d)")
    case None
    then show ?thesis
      by (simp add: sql_release_def pg_claims_def find_filter_key [OF dist])
  next
    case (Some r)
    then have "k_Key r = j"
      by (auto dest: find_SomeD)
    with Some show ?thesis
      by (cases "j = k") (auto simp: sql_release_def pg_claims_def find_filter_key [OF dist])
  qed
  then show ?thesis
    by (rule ext)
qed

lemma pg_Release_cases:
  assumes "pg_ReleaseIdempotencyKey k d = (x, d')" and "pg_good d"
  shows "pg_rows d' = pg_rows d \<and> pg_good d' \<and>
    pg_claims d' =
      (case x of
         Inl _ \<Rightarrow> pg_claims d
       | Inr _ \<Rightarrow> if map_option ir_Status (pg_claims d k) = Some IdempotencyPending
                  then (pg_claims d)(k := None) else pg_claims d)"
proof -
  have good: "acked d" "tables_ok d" "pg_good (pop d)"
    using assms(2) by (simp_all add: pg_good_def)
  obtain y d1 where s: "send (sql_release k) d = (y, d1)"
    by (metis surj_pair)
  show ?thesis
  proof (cases "\<exists>e. y = Inl e \<and> d1 = pop d")
    case True
    then show ?thesis
      using assms(1) s good by (auto simp: pg_ReleaseIdempotencyKey_def)
  next
    case False
    then have run: "sql_release k (pop d) = (y, d1)"
      using send_acked [OF good(1) s] by auto
    then have d1: "d_files d1 = d_files d" "d_faults d1 = d_faults (pop d)" "\<exists>u. y = Inr u"
      by (auto simp: sql_release_def)
    have "tables_ok d1"
      using good(2) run by (auto simp: sql_release_def tables_ok_def distinct_map_filter)
    moreover have "acked d1"
      using d1(2) acked_cong [of d1 "pop d"] good by simp
    moreover have "d' = d1" "\<exists>u. x = Inr u"
      using assms(1) s d1(3) by (auto simp: pg_ReleaseIdempotencyKey_def)
    ultimately show ?thesis
      using sql_release_ok [of "pop d" k] run good view_cong(1) [OF d1(1)]
      by (auto simp: pg_good_def)
  qed
qed

lemma pg_Update_cases:
  assumes "pg_UpdateMetadata canon i tags merge d = (x, d')" and "pg_good d"
  shows "pg_claims d' = pg_claims d \<and> pg_good d' \<and>
    (case x of
       Inr g \<Rightarrow> \<exists>c f t. canon i = Some c \<and> pg_rows d c = Some f \<and> live f \<and>
         g = f\<lparr>f_Metadata := Some (edited_tags f tags merge), f_UpdatedAt := Some t\<rparr> \<and>
         pg_rows d' = (pg_rows d)(c \<mapsto> g)
     | Inl e \<Rightarrow> pg_rows d' = pg_rows d)"
proof -
  let ?g = "\<lambda>d f. f\<lparr>f_Metadata := Some (edited_tags f tags merge), f_UpdatedAt := Some (d_now d)\<rparr>"
  have good: "acked d" "tables_ok d" "pg_good (pop d)"
    using assms(2) by (simp_all add: pg_good_def)
  obtain y d'' where s: "send (sql_update_live canon ?g i) d = (y, d'')"
    by (cases "send (sql_update_live canon ?g i) d") auto
  show ?thesis
  proof (cases "d'' = pop d \<and> (\<exists>e. y = Inl e)")
    case True
    then show ?thesis
      using assms(1) s good by (auto simp: pg_UpdateMetadata_def)
  next
    case False
    then have run: "sql_update_live canon ?g i (pop d) = (y, d'')"
      using send_acked [OF good(1) s] by auto
    with False obtain fs where fs: "y = Inr fs"
      by (auto simp: sql_update_live_def split: option.splits)
    from sql_update_live_ok [OF _ run [unfolded fs]] good(2) show ?thesis
      using assms(1) s fs good acked_cong [of d'' "pop d"]
      by (cases fs) (auto simp: pg_UpdateMetadata_def pg_good_def split: list.splits)
  qed
qed

lemma pg_List_frame:
  assumes "pg_List canon flt d = (x, d')" and "pg_good d"
  shows "pg_rows d' = pg_rows d \<and> pg_claims d' = pg_claims d \<and> pg_good d'"
proof -
  have good: "acked d" "pg_good (pop d)"
    using assms(2) by (simp_all add: pg_good_def)
  obtain y d1 where s: "send (sql_list canon flt) d = (y, d1)"
    by (metis surj_pair)
  then have "d1 = pop d"
    using send_acked [OF good(1) s]
    by (auto simp: sql_list_def Let_def split: if_splits option.splits)
  then show ?thesis
    using assms(1) s good by (auto simp: pg_List_def split: sum.splits)
qed

interpretation pg: file_repository "pg_repo canon" canon pg_rows pg_claims pg_good
  for canon :: "string \<Rightarrow> string option"
proof
  fix d f e d'
  assume "pg_good d" and "r_Create (pg_repo canon) f d = (Inl e, d')"
  then show "pg_rows d' = pg_rows d \<and> pg_claims d' = pg_claims d \<and> pg_good d'"
    using insertFile_error [of d canon f e d'] by (simp add: pg_Create_def pg_good_def)
next
  fix d i g d'
  assume "pg_good d" and "r_Get (pg_repo canon) i d = (Inr g, d')"
  then show "(\<exists>c. canon i = Some c \<and> pg_rows d c = Some g) \<and> live g"
    using pg_Get_cases [of canon i d "Inr g" d'] by (auto simp: pg_good_def dest!: find_live_row_Some)
next
  fix d i d'
  assume "pg_good d" and "r_Get (pg_repo canon) i d = (Inl MetadataNotFound, d')"
  then show "\<exists>c. canon i = Some c \<and> (\<forall>g. pg_rows d c = Some g \<longrightarrow> \<not> live g)"
    using pg_Get_cases [of canon i d "Inl MetadataNotFound" d'] find_live_row_None [of _ d]
    by (simp add: pg_good_def) blast
next
  fix d i x d'
  assume "pg_good d" and "r_Get (pg_repo canon) i d = (x, d')"
  then show "pg_rows d' = pg_rows d \<and> pg_claims d' = pg_claims d \<and> pg_good d'"
    using pg_Get_cases [of canon i d x d'] by (auto simp: pg_good_def)
next
  fix d k x d'
  assume "pg_good d" and "r_ClaimIdempotencyKey (pg_repo canon) k d = (x, d')"
    and "\<forall>p. x \<noteq> Inr (True, p)"
  then show "pg_rows d' = pg_rows d \<and> pg_claims d' = pg_claims d \<and> pg_good d'"
    using pg_Claim_cases [of k d x d'] by (auto split: sum.splits prod.splits bool.splits option.splits)
next
  fix d f g d'
  assume "pg_good d" and "r_Create (pg_repo canon) f d = (Inr g, d')"
  then show "(\<exists>c. canon (f_ID f) = Some c \<and> added (pg_rows d) c f g (pg_rows d')) \<and>
      pg_claims d' = pg_claims d \<and> pg_good d'"
    using pg_Create_ok [of d canon f g d'] by simp
next
  fix d i d'
  assume "pg_good d" and "r_Delete (pg_repo canon) i d = (Inr (), d')"
  then show "(\<exists>c g t. canon i = Some c \<and> pg_rows d c = Some g \<and> live g \<and>
      pg_rows d' = (pg_rows d)(c \<mapsto> g\<lparr>f_DeletedAt := Some t\<rparr>)) \<and>
      pg_claims d' = pg_claims d \<and> pg_good d'"
    using pg_Delete_cases [of canon i d "Inr ()" d'] by simp
next
  fix d i e d'
  assume "pg_good d" and "r_Delete (pg_repo canon) i d = (Inl e, d')"
  then show "pg_rows d' = pg_rows d \<and> pg_claims d' = pg_claims d \<and> pg_good d'"
    using pg_Delete_cases [of canon i d "Inl e" d'] by simp
next
  fix d i tags mrg g d'
  assume "pg_good d" and "r_UpdateMetadata (pg_repo canon) i tags mrg d = (Inr g, d')"
  then show "(\<exists>c f t. canon i = Some c \<and> pg_rows d c = Some f \<and> live f \<and>
      g = f\<lparr>f_Metadata := Some (edited_tags f tags mrg), f_UpdatedAt := Some t\<rparr> \<and>
      pg_rows d' = (pg_rows d)(c \<mapsto> g)) \<and> pg_claims d' = pg_claims d \<and> pg_good d'"
    using pg_Update_cases [of canon i tags mrg d "Inr g" d'] by simp
next
  fix d i tags mrg e d'
  assume "pg_good d" and "r_UpdateMetadata (pg_repo canon) i tags mrg d = (Inl e, d')"
  then show "pg_rows d' = pg_rows d \<and> pg_claims d' = pg_claims d \<and> pg_good d'"
    using pg_Update_cases [of canon i tags mrg d "Inl e" d'] by simp
next
  fix d flt xs d'
  assume "pg_good d" and "r_List (pg_repo canon) flt d = (xs, d')"
  then show "pg_rows d' = pg_rows d \<and> pg_claims d' = pg_claims d \<and> pg_good d'"
    using pg_List_frame [of canon flt d xs d'] by simp
next
  fix d k p d'
  assume "pg_good d" and "r_ClaimIdempotencyKey (pg_repo canon) k d = (Inr (True, p), d')"
  then show "pg_claims d k = None \<and>
      pg_claims d' = (pg_claims d)(k \<mapsto> \<lparr>ir_Status = IdempotencyPending, ir_FileID = None\<rparr>) \<and>
      pg_rows d' = pg_rows d \<and> pg_good d'"
    using pg_Claim_cases [of k d "Inr (True, p)" d'] by simp
next
  fix d k rec d'
  assume "pg_good d" and "r_ClaimIdempotencyKey (pg_repo canon) k d = (Inr (False, Some rec), d')"
  then show "pg_claims d k = Some rec"
    using pg_Claim_cases [of k d "Inr (False, Some rec)" d'] by simp
next
  fix d f k g d'
  assume "pg_good d" and "r_CreateForKey (pg_repo canon) f k d = (Inr g, d')"
  then show "(\<exists>c. canon (f_ID f) = Some c \<and> added (pg_rows d) c f g (pg_rows d')) \<and>
      pg_claims d k \<noteq> None \<and> pg_claims d' = (pg_claims d)(k \<mapsto>
        \<lparr>ir_Status = IdempotencyCompleted, ir_FileID = Some (f_ID f)\<rparr>) \<and> pg_good d'"
    using pg_CreateForKey_ok [of canon f k d g d'] by (simp add: pg_good_def)
next
  fix d f k e d'
  assume "pg_good d" and "r_CreateForKey (pg_repo canon) f k d = (Inl e, d')"
  then show "pg_rows d' = pg_rows d \<and> pg_claims d' = pg_claims d \<and> pg_good d'"
    using pg_CreateForKey_error [of canon f k d e d'] by simp
next
  fix d k d'
  assume "pg_good d" and "r_ReleaseIdempotencyKey (pg_repo canon) k d = (Inr (), d')"
  then show "pg_rows d' = pg_rows d \<and> pg_good d' \<and>
      pg_claims d' = (if map_option ir_Status (pg_claims d k) = Some IdempotencyPending
                      then (pg_claims d)(k := None) else pg_claims d)"
    using pg_Release_cases [of k d "Inr ()" d'] by simp
next
  fix d k e d'
  assume "pg_good d" and "r_ReleaseIdempotencyKey (pg_repo canon) k d = (Inl e, d')"
  then show "pg_rows d' = pg_rows d \<and> pg_claims d' = pg_claims d \<and> pg_good d'"
    using pg_Release_cases [of k d "Inl e" d'] by simp
qed

end
