(* ===== verification/IoReader.thy ===== *)
theory IoReader
  imports Prelude
begin

text \<open>
  Go's \<open>io.Reader\<close> as the program uses it.  A reader is a state and a function \<open>read n\<close>
  that returns at most \<open>n\<close> bytes, an error (\<open>None\<close> for \<open>nil\<close>) and the next state.  The
  interface is the locale \<open>io_reader\<close>: \<open>rest\<close> is what a reader still has to deliver,
  \<open>fin\<close> the error that ends it (\<open>EOF\<close> or a failure), \<open>ok\<close> the invariant under which it
  tells the truth about its end.  The base reader \<open>source\<close> stands for a request body or an
  object's bytes: it hands them out in chunks of whatever sizes the network chooses, with
  the error together with the last bytes or in a read of its own, as \<open>io.Reader\<close> allows.
\<close>

section \<open>The interface\<close>

type_synonym 'r read = "nat \<Rightarrow> 'r \<Rightarrow> (bytes \<times> goerr option) \<times> 'r"

text \<open>What any number of reads can turn a reader into.\<close>

inductive reads :: "'r read \<Rightarrow> 'r \<Rightarrow> 'r \<Rightarrow> bool" for rd :: "'r read" where
  reads_refl: "reads rd r r"
| reads_step: "reads rd r r' \<Longrightarrow> rd n r' = ((d, e), r'') \<Longrightarrow> reads rd r r''"

lemma reads_trans: "reads rd r' r'' \<Longrightarrow> reads rd r r' \<Longrightarrow> reads rd r r''"
  by (induction rule: reads.induct) (auto intro: reads_step)

lemma reads_one: "rd n r = ((d, e), r') \<Longrightarrow> reads rd r r'"
  by (rule reads_step [OF reads_refl])

lemma reads_invariant:
  assumes "reads rd r r'" and "P r" and "\<And>n r d e r'. P r \<Longrightarrow> rd n r = ((d, e), r') \<Longrightarrow> P r'"
  shows "P r'"
  using assms(1,2) by (induction rule: reads.induct) (auto intro: assms(3))

text \<open>
  The loop of \<open>io.ReadAll\<close> and \<open>io.Copy\<close>: read into a buffer of \<open>b\<close> bytes until an error.
  Each concrete reader type has its own instance, defined by recursion; \<open>read_loop\<close> is the
  equation they all satisfy.
\<close>

definition read_loop :: "nat \<Rightarrow> 'r read \<Rightarrow> ('r \<Rightarrow> (bytes \<times> goerr) \<times> 'r) \<Rightarrow> bool" where
  "read_loop b rd f \<longleftrightarrow>
     (\<forall>r. f r =
       (case rd b r of
          ((d, Some e), r') \<Rightarrow> ((d, e), r')
        | ((d, None), r') \<Rightarrow> (case f r' of ((ds, e), r'') \<Rightarrow> ((d @ ds, e), r''))))"

text \<open>Both report a clean end as no error.\<close>

definition eof_nil :: "goerr \<Rightarrow> goerr option" where
  "eof_nil e = (if e = EOF then None else Some e)"

locale io_reader =
  fixes rd :: "'r read" and rest :: "'r \<Rightarrow> bytes" and fin :: "'r \<Rightarrow> goerr" and ok :: "'r \<Rightarrow> bool"
  assumes read_len: "rd n r = ((d, e), r') \<Longrightarrow> length d \<le> n"
    and read_progress: "0 < n \<Longrightarrow> rd n r = ((d, None), r') \<Longrightarrow> d \<noteq> []"
    and read_more: "rd n r = ((d, None), r') \<Longrightarrow> rest r = d @ rest r' \<and> fin r' = fin r"
    and read_end: "ok r \<Longrightarrow> rd n r = ((d, Some x), r') \<Longrightarrow> rest r = d \<and> x = fin r \<and> rest r' = []"
    and read_ok: "ok r \<Longrightarrow> rd n r = ((d, e), r') \<Longrightarrow> ok r'"
begin

lemma read_shrinks: "0 < n \<Longrightarrow> rd n r = ((d, None), r') \<Longrightarrow> length (rest r') < length (rest r)"
  using read_more [of n r d r'] read_progress [of n r d r'] by auto

lemma reads_ok: "reads rd r r' \<Longrightarrow> ok r \<Longrightarrow> ok r'"
  by (erule reads_invariant) (auto intro: read_ok)

lemma read_loop_result:
  assumes loop: "read_loop b rd f" and "0 < b" and "ok r"
  shows "\<exists>r0 d r'. f r = ((rest r, fin r), r') \<and> reads rd r r0 \<and>
    rd b r0 = ((d, Some (fin r)), r') \<and> rest r' = []"
  using \<open>ok r\<close>
proof (induction "length (rest r)" arbitrary: r rule: less_induct)
  case less
  obtain d e r' where eq: "rd b r = ((d, e), r')"
    by (metis surj_pair)
  then have step: "reads rd r r'"
    by (blast intro: reads_one)
  have f: "f r = (case rd b r of
      ((d, Some e), r') \<Rightarrow> ((d, e), r')
    | ((d, None), r') \<Rightarrow> (case f r' of ((ds, e), r'') \<Rightarrow> ((d @ ds, e), r'')))"
    using loop unfolding read_loop_def by blast
  show ?case
  proof (cases e)
    case None
    then have more: "rest r = d @ rest r'" "fin r' = fin r" "length (rest r') < length (rest r)"
      using eq read_more read_shrinks \<open>0 < b\<close> by blast+
    then obtain r0 d' r'' where "f r' = ((rest r', fin r'), r'')" "reads rd r' r0"
      "rd b r0 = ((d', Some (fin r')), r'')" "rest r'' = []"
      using less eq read_ok by blast
    then have "f r = ((rest r, fin r), r'') \<and> reads rd r r0 \<and>
        rd b r0 = ((d', Some (fin r)), r'') \<and> rest r'' = []"
      using f eq None more step by (auto intro: reads_trans)
    then show ?thesis by blast
  next
    case (Some x)
    then have "f r = ((rest r, fin r), r') \<and> reads rd r r \<and>
        rd b r = ((d, Some (fin r)), r') \<and> rest r' = []"
      using f eq read_end [of r b d x r'] less.prems by (auto intro: reads_refl)
    then show ?thesis by blast
  qed
qed

end

text \<open>A reader whose end is final: reading again gives the same error.\<close>

locale sticky_reader = io_reader +
  assumes read_sticky: "ok r \<Longrightarrow> rd n r = ((d, Some x), r') \<Longrightarrow> fin r' = fin r"
begin

lemma read_fin: "ok r \<Longrightarrow> rd n r = ((d, e), r') \<Longrightarrow> fin r' = fin r"
  using read_more read_sticky by (cases e) blast+

lemma read_rest: "ok r \<Longrightarrow> rd n r = ((d, e), r') \<Longrightarrow> rest r = d @ rest r'"
  using read_more read_end by (cases e) fastforce+

end

section \<open>The base reader\<close>

record source =
  src_data :: bytes
  src_final :: goerr
  src_sizes :: "nat list"
  src_eager :: bool

definition source_read :: "source read" where
  "source_read n s =
     (if n = 0 then (([], None), s)
      else if src_data s = [] then (([], Some (src_final s)), s)
      else let k = min n (case src_sizes s of [] \<Rightarrow> n | m # _ \<Rightarrow> max 1 m);
               left = drop k (src_data s)
           in ((take k (src_data s), if src_eager s \<and> left = [] then Some (src_final s) else None),
               s\<lparr>src_data := left, src_sizes := tl (src_sizes s)\<rparr>))"

interpretation src: sticky_reader source_read src_data src_final "\<lambda>_. True"
  by unfold_locales (auto simp: source_read_def Let_def split: if_splits list.splits)

text \<open>A handle on the bytes \<open>d\<close>: it ends cleanly after all of them, or breaks off with an error.\<close>

definition delivers :: "source \<Rightarrow> bytes \<Rightarrow> bool" where
  "delivers s d \<longleftrightarrow> (\<exists>more. d = src_data s @ more) \<and> (src_final s = EOF \<longrightarrow> src_data s = d)"

lemma delivers_all: "delivers s d \<Longrightarrow> src_final s = EOF \<Longrightarrow> src_data s = d"
  by (simp add: delivers_def)

end
