(* ===== verification/Http.thy ===== *)
theory Http
  imports GoStd Metadata IoReader
begin

text \<open>
  What the handlers use of \<open>net/http\<close>, \<open>net/url\<close> and \<open>encoding/json\<close>.  A \<open>request\<close> holds
  the parsed URL query (\<open>url.Values\<close>), the headers under their canonical names and the
  path segments; an \<open>exchange\<close> is the \<open>http.ResponseWriter\<close> with what the server sends: the
  first \<open>WriteHeader\<close> freezes status and headers, later ones only reach the status that
  \<open>statusWriter\<close> in \<open>internal/api/api.go\<close> records, and a write without one sends 200.
  A panic of a handler is recorded too; the server then drops the connection.

  The syntax of JSON and of media types is a parameter, \<open>weblibs\<close>.
\<close>

section \<open>Requests\<close>

record request =
  rq_Method :: string
  rq_Path :: "string list"
  rq_Query :: "(string \<times> string list) list"
  rq_Header :: "(string \<times> string) list"
  rq_ContentLength :: int64
  rq_Body :: source

text \<open>\<open>url.Values.Get\<close> and \<open>http.Header.Get\<close>.\<close>

definition values_Get :: "(string \<times> string list) list \<Rightarrow> string \<Rightarrow> string" where
  "values_Get q k = (case map_of q k of Some (v # _) \<Rightarrow> v | _ \<Rightarrow> [])"

definition header_Get :: "(string \<times> string) list \<Rightarrow> string \<Rightarrow> string" where
  "header_Get h k = (case map_of h k of Some v \<Rightarrow> v | None \<Rightarrow> [])"

section \<open>Responses\<close>

datatype payload = Json json | Text string | Raw_bytes bytes

datatype logged = LogError string goerr | LogWarn string goerr

record exchange =
  x_Header :: "(string \<times> string) list"
  x_Sent :: "(nat \<times> (string \<times> string) list) option"
  x_Body :: "payload list"
  x_Log :: "logged list"
  x_status :: nat
  x_Panic :: "string option"

definition fresh :: exchange where
  "fresh = \<lparr>x_Header = [], x_Sent = None, x_Body = [], x_Log = [], x_status = 200, x_Panic = None\<rparr>"

definition header_Set :: "string \<Rightarrow> string \<Rightarrow> exchange \<Rightarrow> exchange" where
  "header_Set k v x = x\<lparr>x_Header := AList.update k v (x_Header x)\<rparr>"

definition http_WriteHeader :: "nat \<Rightarrow> exchange \<Rightarrow> exchange" where
  "http_WriteHeader code x =
     x\<lparr>x_Sent := (case x_Sent x of None \<Rightarrow> Some (code, x_Header x) | Some s \<Rightarrow> Some s)\<rparr>"

definition statusWriter_WriteHeader :: "nat \<Rightarrow> exchange \<Rightarrow> exchange" where
  "statusWriter_WriteHeader code x = http_WriteHeader code (x\<lparr>x_status := code\<rparr>)"

definition http_Write :: "payload \<Rightarrow> exchange \<Rightarrow> exchange" where
  "http_Write p x = (let x = http_WriteHeader 200 x in x\<lparr>x_Body := x_Body x @ [p]\<rparr>)"

definition log_entry :: "logged \<Rightarrow> exchange \<Rightarrow> exchange" where
  "log_entry l x = x\<lparr>x_Log := x_Log x @ [l]\<rparr>"

definition panic :: "string \<Rightarrow> exchange \<Rightarrow> exchange" where
  "panic msg x = x\<lparr>x_Panic := Some msg\<rparr>"

text \<open>
  \<open>http.Redirect\<close> to a URL with a scheme, as the presigned ones are: the location is the URL
  itself.  A response to \<open>GET\<close> has a short body, to \<open>HEAD\<close> only its content type.
\<close>

definition http_Redirect :: "request \<Rightarrow> string \<Rightarrow> nat \<Rightarrow> exchange \<Rightarrow> exchange" where
  "http_Redirect rq url code x =
     (let had = map_of (x_Header x) ''Content-Type'' \<noteq> None;
          x = header_Set ''Location'' url x;
          x = (if \<not> had \<and> rq_Method rq \<in> {''GET'', ''HEAD''}
               then header_Set ''Content-Type'' ''text/html; charset=utf-8'' x else x);
          x = statusWriter_WriteHeader code x
      in if \<not> had \<and> rq_Method rq = ''GET''
         then http_Write (Text (''<a href='' @ url @ ''>Found</a>.'')) x else x)"

text \<open>What the client sees.\<close>

definition sent_status :: "exchange \<Rightarrow> nat option" where
  "sent_status x = map_option fst (x_Sent x)"

definition sent_header :: "exchange \<Rightarrow> string \<Rightarrow> string option" where
  "sent_header x k = (case x_Sent x of None \<Rightarrow> None | Some (_, h) \<Rightarrow> map_of h k)"

section \<open>JSON into a Go map\<close>

text \<open>
  What a decoder has found at the start of its input: a complete value, a value that is
  complete if the input ends here (a number, a string or a literal), an error, the beginning
  of a value, or white space only.
\<close>

datatype scan = Value json | Till_end json | Malformed goerr | Open_value | Blank

record weblibs =
  wl_Valid :: "string \<Rightarrow> json res"
  wl_Scan :: "bytes \<Rightarrow> scan"
  wl_ParseMediaType :: "string \<Rightarrow> (string \<times> (string \<times> string) list) res"
  wl_FormatMediaType :: "string \<Rightarrow> (string \<times> string) list \<Rightarrow> string"
  wl_RFC3339 :: "int \<Rightarrow> string"

fun json_kind :: "json \<Rightarrow> string" where
  "json_kind JNull = ''null''"
| "json_kind (JBool _) = ''bool''"
| "json_kind (JNum _) = ''number''"
| "json_kind (JStr _) = ''string''"
| "json_kind (JArr _) = ''array''"
| "json_kind (JObj _) = ''object''"

text \<open>
  Storing a decoded value in a \<open>map[string]any\<close>: the members of an object are added to it,
  a later duplicate wins, and \<open>null\<close> makes it the nil map.
\<close>

definition into_map :: "tags option \<Rightarrow> json \<Rightarrow> tags option res" where
  "into_map m v =
     (case v of
        JObj ms \<Rightarrow> Inr (Some (fold (\<lambda>(k, x). AList.update k x) ms (case m of None \<Rightarrow> [] | Some t \<Rightarrow> t)))
      | JNull \<Rightarrow> Inr None
      | _ \<Rightarrow> Inl (Opaque (''json: cannot unmarshal '' @ json_kind v @
               '' into Go value of type map[string]interface {}'')))"

definition json_Unmarshal :: "weblibs \<Rightarrow> string \<Rightarrow> tags option \<Rightarrow> tags option res" where
  "json_Unmarshal W s m = (case wl_Valid W s of Inl e \<Rightarrow> Inl e | Inr v \<Rightarrow> into_map m v)"

text \<open>
  \<open>json.NewDecoder(http.MaxBytesReader(w, body, limit)).Decode\<close>: the decoder reads until the
  first value is complete, and the reader fails after \<open>limit\<close> bytes.  \<open>None\<close> is the
  reader's \<open>*http.MaxBytesError\<close>.
\<close>

definition decode_capped :: "weblibs \<Rightarrow> nat \<Rightarrow> source \<Rightarrow> tags option \<Rightarrow> goerr option + tags option" where
  "decode_capped W limit b m =
     (let stored = (\<lambda>v. case into_map m v of Inl e \<Rightarrow> Inl (Some e) | Inr t \<Rightarrow> Inr t);
          ended = (\<lambda>r. if limit < length (src_data b) then Inl None
                       else if src_final b \<noteq> EOF then Inl (Some (src_final b)) else r)
      in case wl_Scan W (take limit (src_data b)) of
           Malformed e \<Rightarrow> Inl (Some e)
         | Value v \<Rightarrow> stored v
         | Till_end v \<Rightarrow> ended (stored v)
         | Blank \<Rightarrow> ended (Inl (Some EOF))
         | Open_value \<Rightarrow> ended (Inl (Some UnexpectedEOF)))"

text \<open>\<open>maps.Copy\<close>: a nil destination takes no entry.\<close>

definition maps_Copy :: "tags option \<Rightarrow> tags \<Rightarrow> tags option res" where
  "maps_Copy dst src =
     (case dst of
        None \<Rightarrow> if src = [] then Inr None else Inl (Panicked ''assignment to entry in nil map'')
      | Some t \<Rightarrow> Inr (Some (fold (\<lambda>(k, x). AList.update k x) src t)))"

end
