(* ===== verification/SqlText.thy ===== *)
theory SqlText
  imports PostgresRepo Http
begin

text \<open>
  The server's side of the SQL that the repository sends, from its text on: a lexer, a parser into
  statements with numbered placeholders, and their meaning over the two tables.  Values that
  travel, arguments and columns, are \<open>sqlval\<close>; the text that \<open>json.Marshal\<close> makes of a map is kept
  as the object it encodes.
\<close>

section \<open>Tokens\<close>

fun lex_sql :: "string \<Rightarrow> string \<Rightarrow> string list" where
  "lex_sql w [] = (if w = '''' then [] else [rev w])"
| "lex_sql w (c # cs) =
     (if c = CHR '' '' \<or> c = CHR 0x09 \<or> c = CHR 0x0A then (if w = '''' then [] else [rev w]) @ lex_sql '''' cs
      else if c = CHR '','' \<or> c = CHR ''('' \<or> c = CHR '')''
      then (if w = '''' then [] else [rev w]) @ [c] # lex_sql '''' cs
      else lex_sql (c # w) cs)"

fun split_tokens :: "string \<Rightarrow> string list \<Rightarrow> string list list" where
  "split_tokens s [] = [[]]"
| "split_tokens s (t # ts) =
     (if t = s then [] # split_tokens s ts
      else case split_tokens s ts of [] \<Rightarrow> [[t]] | x # xs \<Rightarrow> (t # x) # xs)"

definition sql_clauses :: "string list" where
  "sql_clauses = [''select'', ''from'', ''where'', ''order'', ''limit'', ''insert'', ''into'', ''values'', ''on'',
     ''update'', ''set'', ''returning'', ''delete'']"

text \<open>What follows a clause's keyword, up to the next clause.\<close>

definition clause :: "string \<Rightarrow> string list \<Rightarrow> string list" where
  "clause k ts = takeWhile (\<lambda>t. t \<notin> set sql_clauses) (drop 1 (dropWhile (\<lambda>t. t \<noteq> k) ts))"

section \<open>Statements\<close>

text \<open>A column, or \<open>coalesce(column, '')\<close>; a placeholder is its number and its cast.\<close>

datatype column = Col string | OrEmpty string

type_synonym placeholder = "nat \<times> string"

datatype condition = Null string bool | Cmp string string placeholder

datatype assignment = SetNow string | SetTo string placeholder | Concat string placeholder

text \<open>An insertion may do nothing when a row is there already.\<close>

datatype statement =
    Select "column list" "condition list" "string list" "placeholder option"
  | Insert "string list" "placeholder list" bool "column list"
  | Update "assignment list" "condition list" "column list"
  | Delete "condition list"

fun columns :: "string list \<Rightarrow> column list option" where
  "columns [] = Some []"
| "columns (t # ts) =
     (if t = '','' then columns ts
      else if t = ''coalesce'' then
        (if take 1 ts = [''(''] \<and> take 3 (drop 2 ts) = ['','', [CHR 0x27, CHR 0x27], '')'']
         then map_option (Cons (OrEmpty (ts ! 1))) (columns (drop 5 ts)) else None)
      else map_option (Cons (Col t)) (columns ts))"

definition placeholder :: "string \<Rightarrow> placeholder option" where
  "placeholder s =
     (case s of
        [] \<Rightarrow> None
      | c # cs \<Rightarrow>
          if c = CHR ''$'' then
            Some (foldl (\<lambda>n x. 10 * n + digit_value x) 0 (takeWhile is_digit cs), dropWhile is_digit cs)
          else None)"

definition condition :: "string list \<Rightarrow> condition option" where
  "condition ts =
     (case ts of
        [c, a, b] \<Rightarrow> if a = ''is'' \<and> b = ''null'' then Some (Null c True) else map_option (Cmp c a) (placeholder b)
      | [c, a, b, e] \<Rightarrow> if a = ''is'' \<and> b = ''not'' \<and> e = ''null'' then Some (Null c False) else None
      | _ \<Rightarrow> None)"

definition conditions :: "string list \<Rightarrow> condition list option" where
  "conditions ts = (if ts = [] then Some [] else those (map condition (split_tokens ''and'' ts)))"

definition assignment :: "string list \<Rightarrow> assignment option" where
  "assignment ts =
     (case ts of
        [c, a, b] \<Rightarrow> if a = ''='' then map_option (SetTo c) (placeholder b) else None
      | [c, a, b, l, r] \<Rightarrow>
          if a = ''='' \<and> b = ''now'' \<and> l = ''('' \<and> r = '')'' then Some (SetNow c)
          else if a = ''='' \<and> b = c \<and> l = ''||'' then map_option (Concat c) (placeholder r)
          else None
      | _ \<Rightarrow> None)"

text \<open>The members of a parenthesised list.\<close>

definition members :: "string list \<Rightarrow> string list" where
  "members ts = filter (\<lambda>t. t \<noteq> ''('' \<and> t \<noteq> '')'' \<and> t \<noteq> '','') ts"

text \<open>A statement and the table it is about.\<close>

definition parse_statement :: "string list \<Rightarrow> (string \<times> statement) option" where
  "parse_statement ts =
     (case (conditions (clause ''where'' ts), columns (clause ''returning'' ts)) of
        (Some cs, Some ks) \<Rightarrow>
          (case ts of
             [] \<Rightarrow> None
           | k # _ \<Rightarrow>
               if k = ''select'' then
                 (case (columns (clause ''select'' ts), clause ''from'' ts, clause ''limit'' ts) of
                    (Some sel, [t], []) \<Rightarrow> Some (t, Select sel cs (clause ''order'' ts) None)
                  | (Some sel, [t], [p]) \<Rightarrow>
                      map_option (\<lambda>n. (t, Select sel cs (clause ''order'' ts) (Some n))) (placeholder p)
                  | _ \<Rightarrow> None)
               else if k = ''insert'' then
                 (case (clause ''into'' ts, those (map placeholder (members (clause ''values'' ts)))) of
                    (t # into, Some ps) \<Rightarrow>
                      if clause ''on'' ts \<in> {[], [''conflict'', ''('', ''key'', '')'', ''do'', ''nothing'']}
                      then Some (t, Insert (members into) ps (clause ''on'' ts \<noteq> []) ks)
                      else None
                  | _ \<Rightarrow> None)
               else if k = ''update'' then
                 (case (clause ''update'' ts, those (map assignment (split_tokens '','' (clause ''set'' ts)))) of
                    ([t], Some as) \<Rightarrow> Some (t, Update as cs ks)
                  | _ \<Rightarrow> None)
               else if k = ''delete'' then (case clause ''from'' ts of [t] \<Rightarrow> Some (t, Delete cs) | _ \<Rightarrow> None)
               else None)
      | _ \<Rightarrow> None)"

section \<open>Tables\<close>

datatype sqlval = VNull | VText string | VBig int64 | VJson json | VTime int

text \<open>
  A table: its rows in the database, the value of a column, the values a column accepts and a row
  with another value in it, the columns of type \<open>uuid\<close>, the unique columns, and the defaults.
\<close>

record 'r table =
  t_rows :: "db \<Rightarrow> 'r list"
  t_put :: "'r list \<Rightarrow> db \<Rightarrow> db"
  t_value :: "'r \<Rightarrow> string \<Rightarrow> sqlval"
  t_accepts :: "string \<Rightarrow> sqlval \<Rightarrow> bool"
  t_set :: "string \<Rightarrow> sqlval \<Rightarrow> 'r \<Rightarrow> 'r"
  t_uuid :: "string \<Rightarrow> bool"
  t_unique :: "string list"
  t_default :: "db \<Rightarrow> 'r"

definition value_or_null :: "('a \<Rightarrow> sqlval) \<Rightarrow> 'a option \<Rightarrow> sqlval" where
  "value_or_null v x = (case x of None \<Rightarrow> VNull | Some y \<Rightarrow> v y)"

definition column_value :: "File \<Rightarrow> string \<Rightarrow> sqlval" where
  "column_value f c =
     (if c = ''id'' then VText (f_ID f)
      else if c = ''storage_key'' then VText (f_StorageKey f)
      else if c = ''filename'' then VText (f_Filename f)
      else if c = ''content_type'' then VText (f_ContentType f)
      else if c = ''size_bytes'' then VBig (f_SizeBytes f)
      else if c = ''checksum_sha256'' then (if f_Checksum f = '''' then VNull else VText (f_Checksum f))
      else if c = ''metadata'' then value_or_null (\<lambda>t. VJson (JObj t)) (f_Metadata f)
      else if c = ''created_at'' then VTime (f_CreatedAt f)
      else if c = ''updated_at'' then value_or_null VTime (f_UpdatedAt f)
      else if c = ''deleted_at'' then value_or_null VTime (f_DeletedAt f)
      else VNull)"

fun text_of :: "sqlval \<Rightarrow> string" where
  "text_of (VText s) = s" | "text_of _ = ''''"

fun time_of :: "sqlval \<Rightarrow> int" where
  "time_of (VTime t) = t" | "time_of _ = 0"

fun big_of :: "sqlval \<Rightarrow> int64" where
  "big_of (VBig n) = n" | "big_of _ = 0"

fun tags_in :: "sqlval \<Rightarrow> tags" where
  "tags_in (VJson (JObj t)) = t" | "tags_in _ = []"

definition file_accepts :: "string \<Rightarrow> sqlval \<Rightarrow> bool" where
  "file_accepts c v =
     (if c \<in> set [''id'', ''storage_key'', ''filename'', ''content_type''] then v = VText (text_of v)
      else if c = ''size_bytes'' then v = VBig (big_of v)
      else if c = ''checksum_sha256'' then v = VNull \<or> v = VText (text_of v)
      else if c = ''metadata'' then v = VJson (JObj (tags_in v))
      else if c = ''created_at'' then v = VTime (time_of v)
      else if c = ''updated_at'' \<or> c = ''deleted_at'' then v = VNull \<or> v = VTime (time_of v)
      else False)"

definition file_set :: "string \<Rightarrow> sqlval \<Rightarrow> File \<Rightarrow> File" where
  "file_set c v f =
     (if c = ''id'' then f\<lparr>f_ID := text_of v\<rparr>
      else if c = ''storage_key'' then f\<lparr>f_StorageKey := text_of v\<rparr>
      else if c = ''filename'' then f\<lparr>f_Filename := text_of v\<rparr>
      else if c = ''content_type'' then f\<lparr>f_ContentType := text_of v\<rparr>
      else if c = ''size_bytes'' then f\<lparr>f_SizeBytes := big_of v\<rparr>
      else if c = ''checksum_sha256'' then f\<lparr>f_Checksum := text_of v\<rparr>
      else if c = ''metadata'' then f\<lparr>f_Metadata := Some (tags_in v)\<rparr>
      else if c = ''created_at'' then f\<lparr>f_CreatedAt := time_of v\<rparr>
      else if c = ''updated_at'' then f\<lparr>f_UpdatedAt := (if v = VNull then None else Some (time_of v))\<rparr>
      else if c = ''deleted_at'' then f\<lparr>f_DeletedAt := (if v = VNull then None else Some (time_of v))\<rparr>
      else f)"

definition file_default :: "db \<Rightarrow> File" where
  "file_default d = \<lparr>f_ID = '''', f_StorageKey = '''', f_Filename = '''', f_ContentType = '''', f_SizeBytes = 0,
     f_Checksum = '''', f_Metadata = Some [], f_CreatedAt = d_now d, f_UpdatedAt = None, f_DeletedAt = None\<rparr>"

definition file_table :: "File table" where
  "file_table = \<lparr>t_rows = d_files, t_put = (\<lambda>fs d. d\<lparr>d_files := fs\<rparr>), t_value = column_value,
     t_accepts = file_accepts, t_set = file_set, t_uuid = (\<lambda>c. c = ''id''),
     t_unique = [''id'', ''storage_key''], t_default = file_default\<rparr>"

definition key_value :: "idemRow \<Rightarrow> string \<Rightarrow> sqlval" where
  "key_value r c =
     (if c = ''key'' then VText (k_Key r)
      else if c = ''file_id'' then value_or_null VText (k_FileID r)
      else if c = ''status'' then VText (k_Status r)
      else if c = ''created_at'' then VTime (k_CreatedAt r)
      else VNull)"

definition key_accepts :: "string \<Rightarrow> sqlval \<Rightarrow> bool" where
  "key_accepts c v =
     (if c = ''key'' \<or> c = ''status'' then v = VText (text_of v)
      else if c = ''file_id'' then v = VNull \<or> v = VText (text_of v)
      else if c = ''created_at'' then v = VTime (time_of v)
      else False)"

definition key_set :: "string \<Rightarrow> sqlval \<Rightarrow> idemRow \<Rightarrow> idemRow" where
  "key_set c v r =
     (if c = ''key'' then r\<lparr>k_Key := text_of v\<rparr>
      else if c = ''file_id'' then r\<lparr>k_FileID := (if v = VNull then None else Some (text_of v))\<rparr>
      else if c = ''status'' then r\<lparr>k_Status := text_of v\<rparr>
      else if c = ''created_at'' then r\<lparr>k_CreatedAt := time_of v\<rparr>
      else r)"

definition key_table :: "idemRow table" where
  "key_table = \<lparr>t_rows = d_idem, t_put = (\<lambda>rs d. d\<lparr>d_idem := rs\<rparr>), t_value = key_value,
     t_accepts = key_accepts, t_set = key_set, t_uuid = (\<lambda>c. False), t_unique = [''key''],
     t_default = (\<lambda>d. \<lparr>k_Key = '''', k_FileID = None, k_Status = '''', k_CreatedAt = d_now d\<rparr>)\<rparr>"

section \<open>The meaning of statements\<close>

definition bad_statement :: goerr where
  "bad_statement = Opaque ''syntax error''"

fun selected :: "'r table \<Rightarrow> 'r \<Rightarrow> column \<Rightarrow> sqlval" where
  "selected T r (Col c) = t_value T r c"
| "selected T r (OrEmpty c) = (case t_value T r c of VNull \<Rightarrow> VText '''' | v \<Rightarrow> v)"

text \<open>The argument of a placeholder, read as a \<open>uuid\<close> where the column is one.\<close>

definition argument :: "sqlval list \<Rightarrow> nat \<Rightarrow> sqlval res" where
  "argument args n = (if 1 \<le> n \<and> n \<le> length args then Inr (args ! (n - 1)) else Inl bad_statement)"

definition operand ::
  "(string \<Rightarrow> string option) \<Rightarrow> sqlval list \<Rightarrow> 'r table \<Rightarrow> string \<Rightarrow> placeholder \<Rightarrow> sqlval res" where
  "operand canon args T c p =
     (case argument args (fst p) of
        Inl e \<Rightarrow> Inl e
      | Inr v \<Rightarrow>
          if t_uuid T c then
            (case v of
               VText s \<Rightarrow> (case canon s of None \<Rightarrow> Inl uuid_syntax | Some u \<Rightarrow> Inr (VText u))
             | _ \<Rightarrow> Inl bad_statement)
          else Inr v)"

fun compare_values :: "string \<Rightarrow> sqlval \<Rightarrow> sqlval \<Rightarrow> bool" where
  "compare_values op (VText x) (VText y) = (if op = ''<'' then x < y else op = ''='' \<and> x = y)"
| "compare_values op (VTime x) (VTime y) = (if op = ''<'' then x < y else op = ''='' \<and> x = y)"
| "compare_values op (VJson x) (VJson y) = (op = ''@>'' \<and> jsonb_contains x y)"
| "compare_values op _ _ = False"

fun holds :: "(string \<Rightarrow> string option) \<Rightarrow> sqlval list \<Rightarrow> 'r table \<Rightarrow> condition \<Rightarrow> ('r \<Rightarrow> bool) res" where
  "holds canon args T (Null c b) = Inr (\<lambda>r. (t_value T r c = VNull) = b)"
| "holds canon args T (Cmp c op p) =
     (if op \<in> set [''='', ''<'', ''@>''] then
        (case operand canon args T c p of
           Inl e \<Rightarrow> Inl e
         | Inr v \<Rightarrow> Inr (\<lambda>r. compare_values op (t_value T r c) v))
      else Inl bad_statement)"

fun all_hold :: "(string \<Rightarrow> string option) \<Rightarrow> sqlval list \<Rightarrow> 'r table \<Rightarrow> condition list \<Rightarrow> ('r \<Rightarrow> bool) res" where
  "all_hold canon args T [] = Inr (\<lambda>r. True)"
| "all_hold canon args T (c # cs) =
     (case holds canon args T c of
        Inl e \<Rightarrow> Inl e
      | Inr p \<Rightarrow> (case all_hold canon args T cs of Inl e \<Rightarrow> Inl e | Inr q \<Rightarrow> Inr (\<lambda>r. p r \<and> q r)))"

text \<open>The two orders in use: the newest identifier first, the oldest deletion first.\<close>

definition ordered :: "'r table \<Rightarrow> string list \<Rightarrow> 'r list \<Rightarrow> 'r list" where
  "ordered T os rs =
     (case os of
        [b, c, x] \<Rightarrow>
          if x = ''desc'' then rev (sort_key (\<lambda>r. text_of (t_value T r c)) rs)
          else sort_key (\<lambda>r. time_of (t_value T r c)) rs
      | _ \<Rightarrow> rs)"

definition limited :: "sqlval list \<Rightarrow> placeholder option \<Rightarrow> 'a list \<Rightarrow> 'a list res" where
  "limited args l xs =
     (case l of
        None \<Rightarrow> Inr xs
      | Some p \<Rightarrow>
          (case argument args (fst p) of
             Inr (VBig m) \<Rightarrow> Inr (take (nat (sint m)) xs)
           | Inr _ \<Rightarrow> Inl bad_statement
           | Inl e \<Rightarrow> Inl e))"

fun assign ::
  "(string \<Rightarrow> string option) \<Rightarrow> sqlval list \<Rightarrow> 'r table \<Rightarrow> assignment \<Rightarrow> (db \<Rightarrow> 'r \<Rightarrow> 'r) res" where
  "assign canon args T (SetNow c) =
     (if t_accepts T c (VTime 0) then Inr (\<lambda>d. t_set T c (VTime (d_now d))) else Inl bad_statement)"
| "assign canon args T (SetTo c p) =
     (case operand canon args T c p of
        Inl e \<Rightarrow> Inl e
      | Inr v \<Rightarrow> if t_accepts T c v then Inr (\<lambda>d. t_set T c v) else Inl bad_statement)"
| "assign canon args T (Concat c p) =
     (case operand canon args T c p of
        Inr (VJson (JObj t)) \<Rightarrow>
          if t_accepts T c (VJson (JObj t))
          then Inr (\<lambda>d r. t_set T c (VJson (JObj (jsonb_concat (tags_in (t_value T r c)) t))) r)
          else Inl bad_statement
      | Inr _ \<Rightarrow> Inl bad_statement
      | Inl e \<Rightarrow> Inl e)"

fun assign_all ::
  "(string \<Rightarrow> string option) \<Rightarrow> sqlval list \<Rightarrow> 'r table \<Rightarrow> assignment list \<Rightarrow> (db \<Rightarrow> 'r \<Rightarrow> 'r) res" where
  "assign_all canon args T [] = Inr (\<lambda>d r. r)"
| "assign_all canon args T (a # as) =
     (case assign canon args T a of
        Inl e \<Rightarrow> Inl e
      | Inr g \<Rightarrow>
          (case assign_all canon args T as of Inl e \<Rightarrow> Inl e | Inr h \<Rightarrow> Inr (\<lambda>d r. h d (g d r))))"

text \<open>The rows a statement returns; their number is the number of rows affected.\<close>

fun run_statement ::
  "(string \<Rightarrow> string option) \<Rightarrow> sqlval list \<Rightarrow> 'r table \<Rightarrow> statement \<Rightarrow> db \<Rightarrow> sqlval list list res \<times> db" where
  "run_statement canon args T (Select ks cs os l) d =
     (case all_hold canon args T cs of
        Inl e \<Rightarrow> (Inl e, d)
      | Inr p \<Rightarrow>
          (case limited args l (ordered T os (filter p (t_rows T d))) of
             Inl e \<Rightarrow> (Inl e, d)
           | Inr rs \<Rightarrow> (Inr (map (\<lambda>r. map (selected T r) ks) rs), d)))"
| "run_statement canon args T (Insert cs ps quiet ks) d =
     (case assign_all canon args T (map (\<lambda>(c, p). SetTo c p) (zip cs ps)) of
        Inl e \<Rightarrow> (Inl e, d)
      | Inr g \<Rightarrow>
          let new = g d (t_default T d)
          in if \<exists>u\<in>set (t_unique T). \<exists>r\<in>set (t_rows T d). t_value T r u = t_value T new u
             then (if quiet then Inr [] else Inl unique_violation, d)
             else (Inr [map (selected T new) ks], t_put T (t_rows T d @ [new]) d))"
| "run_statement canon args T (Update as cs ks) d =
     (case all_hold canon args T cs of
        Inl e \<Rightarrow> (Inl e, d)
      | Inr p \<Rightarrow>
          (case assign_all canon args T as of
             Inl e \<Rightarrow> (Inl e, d)
           | Inr g \<Rightarrow>
               (Inr (map (\<lambda>r. map (selected T (g d r)) ks) (filter p (t_rows T d))),
                t_put T (map (\<lambda>r. if p r then g d r else r) (t_rows T d)) d)))"
| "run_statement canon args T (Delete cs) d =
     (case all_hold canon args T cs of
        Inl e \<Rightarrow> (Inl e, d)
      | Inr p \<Rightarrow>
          (Inr (map (\<lambda>_. []) (filter p (t_rows T d))), t_put T (filter (\<lambda>r. \<not> p r) (t_rows T d)) d))"

definition run_sql ::
  "(string \<Rightarrow> string option) \<Rightarrow> string \<Rightarrow> sqlval list \<Rightarrow> db \<Rightarrow> sqlval list list res \<times> db" where
  "run_sql canon q args d =
     (case parse_statement (lex_sql '''' q) of
        None \<Rightarrow> (Inl bad_statement, d)
      | Some (t, st) \<Rightarrow>
          if t = ''files'' then run_statement canon args file_table st d
          else if t = ''idempotency_keys'' then run_statement canon args key_table st d
          else (Inl bad_statement, d))"

end
