(* ===== verification/RepoSql.thy ===== *)
theory RepoSql
  imports SqlText
begin

text \<open>
  \<open>internal/metadata/postgres\<close> with its statements as the texts that are sent (\<open>query.go\<close>,
  \<open>postgres.go\<close>, \<open>gc.go\<close>, \<open>idempotency.go\<close>): \<open>fileColumns\<close>, the scanning of rows, the query that
  \<open>List\<close> assembles, and the methods around them.  The lemmas say what each text parses to; that the
  methods do what \<open>PostgresRepo\<close> says is proved in \<open>RepoExact\<close>.
\<close>

section \<open>Rows\<close>

definition fileColumns :: string where
  "fileColumns = ''id, storage_key, filename, content_type, size_bytes,'' @ [CHR 0x0A, CHR 0x09] @
     ''coalesce(checksum_sha256, '' @ [CHR 0x27, CHR 0x27] @ ''), metadata, created_at, updated_at, deleted_at''"

definition selectColumns :: string where
  "selectColumns = ''select '' @ fileColumns"

text \<open>
  Scanning a row: the destinations in order.  \<open>*time.Time\<close> takes a null, and so do the bytes of the
  metadata, here the value that they encode.
\<close>

definition scan_error :: goerr where
  "scan_error = Opaque ''cannot scan into dest''"

definition scan_time :: "sqlval \<Rightarrow> int option res" where
  "scan_time v = (case v of VNull \<Rightarrow> Inr None | VTime t \<Rightarrow> Inr (Some t) | _ \<Rightarrow> Inl scan_error)"

definition scan_bytes :: "sqlval \<Rightarrow> json option res" where
  "scan_bytes v = (case v of VNull \<Rightarrow> Inr None | VJson j \<Rightarrow> Inr (Some j) | _ \<Rightarrow> Inl scan_error)"

definition unmarshal_column :: "json option \<Rightarrow> tags option res" where
  "unmarshal_column meta =
     (case meta of None \<Rightarrow> Inl (Opaque ''unexpected end of JSON input'') | Some j \<Rightarrow> into_map None j)"

definition scanFile :: "sqlval list \<Rightarrow> File res" where
  "scanFile row =
     (case row of
        [VText i, VText k, VText n, VText ct, VBig sz, VText ck, meta, VTime created, updated, deleted] \<Rightarrow>
          (case (scan_bytes meta, scan_time updated, scan_time deleted) of
             (Inr b, Inr u, Inr x) \<Rightarrow>
               (case unmarshal_column b of
                  Inl e \<Rightarrow> Inl (Wrapped ''postgres: unmarshal metadata'' e)
                | Inr m \<Rightarrow> Inr \<lparr>f_ID = i, f_StorageKey = k, f_Filename = n, f_ContentType = ct, f_SizeBytes = sz,
                    f_Checksum = ck, f_Metadata = m, f_CreatedAt = created, f_UpdatedAt = u, f_DeletedAt = x\<rparr>)
           | _ \<Rightarrow> Inl scan_error)
      | _ \<Rightarrow> Inl scan_error)"

text \<open>\<open>QueryRow\<close> with its scan, and a loop over \<open>rows.Next\<close>.\<close>

definition scan_one :: "('r \<Rightarrow> 'a res) \<Rightarrow> 'r list res \<Rightarrow> 'a res" where
  "scan_one scan x = (case x of Inl e \<Rightarrow> Inl e | Inr [] \<Rightarrow> Inl NoRows | Inr (r # _) \<Rightarrow> scan r)"

fun scan_rows :: "('r \<Rightarrow> 'a res) \<Rightarrow> string \<Rightarrow> 'r list \<Rightarrow> 'a list res" where
  "scan_rows scan what [] = Inr []"
| "scan_rows scan what (r # rs) =
     (case scan r of
        Inl e \<Rightarrow> Inl (Wrapped what e)
      | Inr f \<Rightarrow> (case scan_rows scan what rs of Inl e \<Rightarrow> Inl e | Inr fs \<Rightarrow> Inr (f # fs)))"

section \<open>The methods\<close>

definition scan_stamps :: "sqlval list \<Rightarrow> (int \<times> int option) res" where
  "scan_stamps row =
     (case row of
        [VTime created, updated] \<Rightarrow> map_sum id (Pair created) (scan_time updated)
      | _ \<Rightarrow> Inl scan_error)"

definition scan_key :: "sqlval list \<Rightarrow> string res" where
  "scan_key row = (case row of [VText k] \<Rightarrow> Inr k | _ \<Rightarrow> Inl scan_error)"

definition scan_record :: "sqlval list \<Rightarrow> idemRecord res" where
  "scan_record row =
     (case row of
        [VText s, VNull] \<Rightarrow> Inr \<lparr>ir_Status = s, ir_FileID = None\<rparr>
      | [VText s, VText i] \<Rightarrow> Inr \<lparr>ir_Status = s, ir_FileID = Some i\<rparr>
      | _ \<Rightarrow> Inl scan_error)"

text \<open>\<open>insertFile\<close>: the row is inserted and its timestamps are read back.\<close>

definition Repo_insertFile :: "(string \<Rightarrow> string option) \<Rightarrow> File \<Rightarrow> db \<Rightarrow> File res \<times> db" where
  "Repo_insertFile canon f d =
     (let f = (if f_Metadata f = None then f\<lparr>f_Metadata := Some []\<rparr> else f);
          meta = JObj (the (f_Metadata f));
          checksum = (if f_Checksum f \<noteq> '''' then VText (f_Checksum f) else VNull);
          q2 = [CHR 0x0A] @ ''insert into files (id, storage_key, filename, content_type, size_bytes, checksum_sha256, metadata)'' @
            [CHR 0x0A] @ ''values ($1, $2, $3, $4, $5, $6, $7::jsonb)'' @ [CHR 0x0A] @ ''returning created_at, updated_at''
      in case send (run_sql canon q2 [VText (f_ID f), VText (f_StorageKey f), VText (f_Filename f),
                VText (f_ContentType f), VBig (f_SizeBytes f), checksum, VJson meta]) d of
           (x, d') \<Rightarrow>
             (case scan_one scan_stamps x of
                Inl e \<Rightarrow> (Inl (Wrapped ''postgres: insert file'' e), d')
              | Inr (created, updated) \<Rightarrow> (Inr (f\<lparr>f_CreatedAt := created, f_UpdatedAt := updated\<rparr>), d')))"

definition Repo_Create :: "(string \<Rightarrow> string option) \<Rightarrow> File \<Rightarrow> db \<Rightarrow> File res \<times> db" where
  "Repo_Create canon f d = Repo_insertFile canon f d"

definition Repo_Get :: "(string \<Rightarrow> string option) \<Rightarrow> string \<Rightarrow> db \<Rightarrow> File res \<times> db" where
  "Repo_Get canon i d =
     (let q = selectColumns @ '' from files where id = $1 and deleted_at is null''
      in case send (run_sql canon q [VText i]) d of
           (x, d') \<Rightarrow>
             (case scan_one scanFile x of
                Inr f \<Rightarrow> (Inr f, d')
              | Inl e \<Rightarrow>
                  if errors_is e NoRows then (Inl MetadataNotFound, d')
                  else (Inl (Wrapped ''postgres: get file'' e), d')))"

definition Repo_Delete :: "(string \<Rightarrow> string option) \<Rightarrow> string \<Rightarrow> db \<Rightarrow> unit res \<times> db" where
  "Repo_Delete canon i d =
     (case send (run_sql canon ''update files set deleted_at = now() where id = $1 and deleted_at is null''
              [VText i]) d of
        (Inl e, d') \<Rightarrow> (Inl (Wrapped ''postgres: soft-delete file'' e), d')
      | (Inr tag, d') \<Rightarrow> if length tag = 0 then (Inl MetadataNotFound, d') else (Inr (), d'))"

text \<open>The query that \<open>List\<close> assembles, with its arguments.\<close>

definition list_query :: "listFilter \<Rightarrow> string \<times> sqlval list" where
  "list_query flt =
     (let args = []; conds = [''deleted_at is null''];
          (args, conds) =
            (if lf_ContentType flt \<noteq> '''' then
               let args = args @ [VText (lf_ContentType flt)]
               in (args, conds @ [''content_type = $'' @ show_nat (length args)])
             else (args, conds));
          (args, conds) =
            (if lf_Cursor flt \<noteq> '''' then
               let args = args @ [VText (lf_Cursor flt)]
               in (args, conds @ [''id < $'' @ show_nat (length args) @ ''::uuid''])
             else (args, conds));
          (args, conds) =
            (if 0 < length (lf_Tags flt) then
               let args = args @ [VJson (JObj (lf_Tags flt))]
               in (args, conds @ [''metadata @> $'' @ show_nat (length args) @ ''::jsonb''])
             else (args, conds));
          args = args @ [VBig (page_limit (lf_Limit flt))];
          limitClause = '' limit $'' @ show_nat (length args)
      in (selectColumns @ '' from files where '' @ join conds '' and '' @ '' order by id desc'' @ limitClause, args))"

definition Repo_List :: "(string \<Rightarrow> string option) \<Rightarrow> listFilter \<Rightarrow> db \<Rightarrow> File list res \<times> db" where
  "Repo_List canon flt d =
     (let (q, args) = list_query flt
      in case send (run_sql canon q args) d of
           (Inl e, d') \<Rightarrow> (Inl (Wrapped ''postgres: list files'' e), d')
         | (Inr rows, d') \<Rightarrow> (scan_rows scanFile ''postgres: scan list row'' rows, d'))"

definition Repo_UpdateMetadata ::
  "(string \<Rightarrow> string option) \<Rightarrow> string \<Rightarrow> tags \<Rightarrow> bool \<Rightarrow> db \<Rightarrow> File res \<times> db" where
  "Repo_UpdateMetadata canon i tags merge d =
     (let patch = VJson (JObj tags);
          assignment = (if merge then ''metadata = metadata || $2::jsonb'' else ''metadata = $2::jsonb'');
          q = ''update files set '' @ assignment @ '', updated_at = now()'' @ [CHR 0x0A, CHR 0x09, CHR 0x09] @
                ''where id = $1 and deleted_at is null returning '' @ fileColumns
      in case send (run_sql canon q [VText i, patch]) d of
           (x, d') \<Rightarrow>
             (case scan_one scanFile x of
                Inr f \<Rightarrow> (Inr f, d')
              | Inl e \<Rightarrow>
                  if errors_is e NoRows then (Inl MetadataNotFound, d')
                  else (Inl (Wrapped ''postgres: update metadata'' e), d')))"

definition Repo_ListDeleted :: "(string \<Rightarrow> string option) \<Rightarrow> int64 \<Rightarrow> db \<Rightarrow> File list res \<times> db" where
  "Repo_ListDeleted canon limit d =
     (let limit = (if limit <=s 0 then 500 else limit);
          q = selectColumns @ '' from files where deleted_at is not null order by deleted_at asc limit $1''
      in case send (run_sql canon q [VBig limit]) d of
           (Inl e, d') \<Rightarrow> (Inl (Wrapped ''postgres: list deleted'' e), d')
         | (Inr rows, d') \<Rightarrow> (scan_rows scanFile ''postgres: scan deleted row'' rows, d'))"

definition Repo_Purge :: "(string \<Rightarrow> string option) \<Rightarrow> string \<Rightarrow> db \<Rightarrow> unit res \<times> db" where
  "Repo_Purge canon i d =
     (case send (run_sql canon ''delete from files where id = $1 and deleted_at is not null'' [VText i]) d of
        (Inl e, d') \<Rightarrow> (Inl (Wrapped ''postgres: purge file'' e), d')
      | (Inr _, d') \<Rightarrow> (Inr (), d'))"

definition Repo_StorageKeys :: "(string \<Rightarrow> string option) \<Rightarrow> db \<Rightarrow> string set res \<times> db" where
  "Repo_StorageKeys canon d =
     (case send (run_sql canon ''select storage_key from files'' []) d of
        (Inl e, d') \<Rightarrow> (Inl (Wrapped ''postgres: list storage keys'' e), d')
      | (Inr rows, d') \<Rightarrow> (map_sum id set (scan_rows scan_key ''postgres: scan storage key'' rows), d'))"

definition Repo_ClaimIdempotencyKey ::
  "(string \<Rightarrow> string option) \<Rightarrow> string \<Rightarrow> db \<Rightarrow> (bool \<times> idemRecord option) res \<times> db" where
  "Repo_ClaimIdempotencyKey canon key d =
     (let ins = ''insert into idempotency_keys (key, status) values ($1, $2)'' @ [CHR 0x0A, CHR 0x09, CHR 0x09] @
            ''on conflict (key) do nothing returning key''
      in case send (run_sql canon ins [VText key, VText IdempotencyPending]) d of
           (x, d') \<Rightarrow>
             (case scan_one scan_key x of
                Inr claimedKey \<Rightarrow> (Inr (True, None), d')
              | Inl e \<Rightarrow>
                  if \<not> errors_is e NoRows then (Inl (Wrapped ''postgres: claim idempotency key'' e), d')
                  else
                  (case send (run_sql canon ''select status, file_id from idempotency_keys where key = $1'' [VText key]) d' of
                     (y, d'') \<Rightarrow>
                       (case scan_one scan_record y of
                          Inr rec \<Rightarrow> (Inr (False, Some rec), d'')
                        | Inl e \<Rightarrow>
                            if errors_is e NoRows then (Inr (False, None), d'')
                            else (Inl (Wrapped ''postgres: read idempotency key'' e), d'')))))"

text \<open>The deferred \<open>Rollback\<close> undoes what was not committed.\<close>

definition Repo_CreateForKey :: "(string \<Rightarrow> string option) \<Rightarrow> File \<Rightarrow> string \<Rightarrow> db \<Rightarrow> File res \<times> db" where
  "Repo_CreateForKey canon f key d =
     (case send (sql_rows (\<lambda>_. ())) d of
        (Inl e, d0) \<Rightarrow> (Inl (Wrapped ''postgres: begin tx'' e), d0)
      | (Inr _, d0) \<Rightarrow>
          (case Repo_insertFile canon f d0 of
             (Inl e, d1) \<Rightarrow> (Inl e, rollback d0 d1)
           | (Inr g, d1) \<Rightarrow>
               (case send (run_sql canon ''update idempotency_keys set status = $2, file_id = $3 where key = $1''
                        [VText key, VText IdempotencyCompleted, VText (f_ID f)]) d1 of
                  (Inl e, d2) \<Rightarrow> (Inl (Wrapped ''postgres: complete idempotency key'' e), rollback d0 d2)
                | (Inr tag, d2) \<Rightarrow>
                    if length tag = 0 then
                      (Inl (Opaque (''postgres: complete idempotency key '' @ quote key @ '': claim no longer exists'')),
                       rollback d0 d2)
                    else case commit d0 d2 of (Inl e, d3) \<Rightarrow> (Inl e, d3) | (Inr _, d3) \<Rightarrow> (Inr g, d3))))"

definition Repo_ReleaseIdempotencyKey :: "(string \<Rightarrow> string option) \<Rightarrow> string \<Rightarrow> db \<Rightarrow> unit res \<times> db" where
  "Repo_ReleaseIdempotencyKey canon key d =
     (case send (run_sql canon ''delete from idempotency_keys where key = $1 and status = $2''
              [VText key, VText IdempotencyPending]) d of
        (Inl e, d') \<Rightarrow> (Inl (Wrapped ''postgres: release idempotency key'' e), d')
      | (Inr _, d') \<Rightarrow> (Inr (), d'))"

definition Repo_PurgeIdempotencyKeys :: "(string \<Rightarrow> string option) \<Rightarrow> int \<Rightarrow> db \<Rightarrow> nat res \<times> db" where
  "Repo_PurgeIdempotencyKeys canon before d =
     (case send (run_sql canon ''delete from idempotency_keys where created_at < $1'' [VTime before]) d of
        (Inl e, d') \<Rightarrow> (Inl (Wrapped ''postgres: purge idempotency keys'' e), d')
      | (Inr tag, d') \<Rightarrow> (Inr (length tag), d'))"

text \<open>The repository of these methods.\<close>

definition sql_repo :: "(string \<Rightarrow> string option) \<Rightarrow> db repository" where
  "sql_repo canon =
     \<lparr>r_Create = Repo_Create canon, r_Get = Repo_Get canon, r_List = Repo_List canon,
      r_UpdateMetadata = Repo_UpdateMetadata canon, r_Delete = Repo_Delete canon,
      r_ListDeleted = Repo_ListDeleted canon, r_Purge = Repo_Purge canon, r_StorageKeys = Repo_StorageKeys canon,
      r_ClaimIdempotencyKey = Repo_ClaimIdempotencyKey canon, r_CreateForKey = Repo_CreateForKey canon,
      r_ReleaseIdempotencyKey = Repo_ReleaseIdempotencyKey canon,
      r_PurgeIdempotencyKeys = Repo_PurgeIdempotencyKeys canon\<rparr>"

section \<open>What the texts say\<close>

definition file_columns :: "column list" where
  "file_columns = [Col ''id'', Col ''storage_key'', Col ''filename'', Col ''content_type'', Col ''size_bytes'',
     OrEmpty ''checksum_sha256'', Col ''metadata'', Col ''created_at'', Col ''updated_at'', Col ''deleted_at'']"

abbreviation parses :: "string \<Rightarrow> (string \<times> statement) option" where
  "parses q \<equiv> parse_statement (lex_sql '''' q)"

abbreviation get_text :: string where
  "get_text \<equiv> selectColumns @ '' from files where id = $1 and deleted_at is null''"

abbreviation delete_text :: string where
  "delete_text \<equiv> ''update files set deleted_at = now() where id = $1 and deleted_at is null''"

abbreviation update_text :: "string \<Rightarrow> string" where
  "update_text a \<equiv> ''update files set '' @ a @ '', updated_at = now()'' @ [CHR 0x0A, CHR 0x09, CHR 0x09] @
     ''where id = $1 and deleted_at is null returning '' @ fileColumns"

abbreviation insert_text :: string where
  "insert_text \<equiv>
     [CHR 0x0A] @ ''insert into files (id, storage_key, filename, content_type, size_bytes, checksum_sha256, metadata)'' @
     [CHR 0x0A] @ ''values ($1, $2, $3, $4, $5, $6, $7::jsonb)'' @ [CHR 0x0A] @ ''returning created_at, updated_at''"

abbreviation claim_text :: string where
  "claim_text \<equiv> ''insert into idempotency_keys (key, status) values ($1, $2)'' @ [CHR 0x0A, CHR 0x09, CHR 0x09] @
     ''on conflict (key) do nothing returning key''"

abbreviation dead_text :: string where
  "dead_text \<equiv> selectColumns @ '' from files where deleted_at is not null order by deleted_at asc limit $1''"

text \<open>Both conditions on a live row.\<close>

abbreviation live_conds :: "condition list" where
  "live_conds \<equiv> [Cmp ''id'' ''='' (1, ''''), Null ''deleted_at'' True]"

lemma parse_get: "parses get_text = Some (''files'', Select file_columns live_conds [] None)"
  by code_simp

lemma parse_insert:
  "parses insert_text = Some (''files'', Insert
     [''id'', ''storage_key'', ''filename'', ''content_type'', ''size_bytes'', ''checksum_sha256'', ''metadata'']
     [(1, ''''), (2, ''''), (3, ''''), (4, ''''), (5, ''''), (6, ''''), (7, ''::jsonb'')] False
     [Col ''created_at'', Col ''updated_at''])"
  by code_simp

lemma parse_delete: "parses delete_text = Some (''files'', Update [SetNow ''deleted_at''] live_conds [])"
  by code_simp

lemma parse_replace:
  "parses (update_text ''metadata = $2::jsonb'') =
     Some (''files'', Update [SetTo ''metadata'' (2, ''::jsonb''), SetNow ''updated_at''] live_conds file_columns)"
  by code_simp

lemma parse_merge:
  "parses (update_text ''metadata = metadata || $2::jsonb'') =
     Some (''files'', Update [Concat ''metadata'' (2, ''::jsonb''), SetNow ''updated_at''] live_conds file_columns)"
  by code_simp

lemma parse_list_deleted:
  "parses dead_text =
     Some (''files'', Select file_columns [Null ''deleted_at'' False] [''by'', ''deleted_at'', ''asc''] (Some (1, '''')))"
  by code_simp

lemma parse_purge:
  "parses ''delete from files where id = $1 and deleted_at is not null'' =
     Some (''files'', Delete [Cmp ''id'' ''='' (1, ''''), Null ''deleted_at'' False])"
  by code_simp

lemma parse_keys:
  "parses ''select storage_key from files'' = Some (''files'', Select [Col ''storage_key''] [] [] None)"
  by code_simp

lemma parse_claim:
  "parses claim_text =
     Some (''idempotency_keys'', Insert [''key'', ''status''] [(1, ''''), (2, '''')] True [Col ''key''])"
  by code_simp

lemma parse_read_key:
  "parses ''select status, file_id from idempotency_keys where key = $1'' =
     Some (''idempotency_keys'', Select [Col ''status'', Col ''file_id''] [Cmp ''key'' ''='' (1, '''')] [] None)"
  by code_simp

lemma parse_complete:
  "parses ''update idempotency_keys set status = $2, file_id = $3 where key = $1'' =
     Some (''idempotency_keys'', Update [SetTo ''status'' (2, ''''), SetTo ''file_id'' (3, '''')]
       [Cmp ''key'' ''='' (1, '''')] [])"
  by code_simp

lemma parse_release:
  "parses ''delete from idempotency_keys where key = $1 and status = $2'' =
     Some (''idempotency_keys'', Delete [Cmp ''key'' ''='' (1, ''''), Cmp ''status'' ''='' (2, '''')])"
  by code_simp

lemma parse_purge_keys:
  "parses ''delete from idempotency_keys where created_at < $1'' =
     Some (''idempotency_keys'', Delete [Cmp ''created_at'' ''<'' (1, '''')])"
  by code_simp

text \<open>The query of \<open>List\<close>: its text depends on which constraints the filter has.\<close>

definition list_args :: "listFilter \<Rightarrow> sqlval list" where
  "list_args flt =
     (if lf_ContentType flt = '''' then [] else [VText (lf_ContentType flt)]) @
     (if lf_Cursor flt = '''' then [] else [VText (lf_Cursor flt)]) @
     (if lf_Tags flt = [] then [] else [VJson (JObj (lf_Tags flt))]) @ [VBig (page_limit (lf_Limit flt))]"

definition list_text :: "bool \<Rightarrow> bool \<Rightarrow> bool \<Rightarrow> string" where
  "list_text a b c = fst (list_query \<lparr>lf_ContentType = (if a then ''x'' else ''''),
     lf_Tags = (if c then [(''x'', JNull)] else []), lf_Limit = 0, lf_Cursor = (if b then ''x'' else '''')\<rparr>)"

lemma list_query_text:
  "list_query flt = (list_text (lf_ContentType flt \<noteq> '''') (lf_Cursor flt \<noteq> '''') (lf_Tags flt \<noteq> []), list_args flt)"
  by (simp add: list_query_def list_text_def list_args_def Let_def)

lemma parse_list_text:
  "parses (list_text a b c) =
     Some (''files'', Select file_columns
       ([Null ''deleted_at'' True] @ (if a then [Cmp ''content_type'' ''='' (1, '''')] else []) @
        (if b then [Cmp ''id'' ''<'' (if a then 2 else 1, ''::uuid'')] else []) @
        (if c then [Cmp ''metadata'' ''@>'' ((if a then 1 else 0) + (if b then 1 else 0) + 1, ''::jsonb'')] else []))
       [''by'', ''id'', ''desc'']
       (Some ((if a then 1 else 0) + (if b then 1 else 0) + (if c then 1 else 0) + 1, '''')))"
  by (induct a rule: bool.induct; induct b rule: bool.induct; induct c rule: bool.induct; code_simp)

end
