(* ===== verification/RepoExact.thy ===== *)
theory RepoExact
  imports RepoSql
begin

text \<open>
  The methods over the statements as text (\<open>RepoSql\<close>) return exactly what the methods over the
  statements as functions (\<open>PostgresRepo\<close>) do, and leave the same database, whatever faults it has.
\<close>

section \<open>What they do\<close>

text \<open>The rows of the table have distinct tags: a \<open>jsonb\<close> object has each key once.\<close>

definition row_ok :: "File \<Rightarrow> bool" where
  "row_ok f \<longleftrightarrow> (\<exists>t. f_Metadata f = Some t \<and> distinct (map fst t))"

definition rows_ok :: "db \<Rightarrow> bool" where
  "rows_ok d \<longleftrightarrow> (\<forall>f\<in>set (d_files d). row_ok f)"

lemma rows_filter: "rows_ok d \<Longrightarrow> f \<in> set (filter P (d_files d)) \<Longrightarrow> row_ok f"
  by (simp add: rows_ok_def)

definition file_row :: "File \<Rightarrow> sqlval list" where
  "file_row f = map (selected file_table f) file_columns"

lemma into_map_distinct: "distinct (map fst t) \<Longrightarrow> into_map None (JObj t) = Inr (Some t)"
proof -
  have "fold (\<lambda>(k, x). AList.update k x) ms acc = acc @ ms" if "distinct (map fst (acc @ ms))" for ms acc :: tags
    using that
  proof (induction ms arbitrary: acc)
    case (Cons m ms)
    have "AList.update (fst m) (snd m) acc = acc @ [m]"
      using Cons.prems by (induction acc) auto
    then show ?case
      using Cons.IH [of "acc @ [m]"] Cons.prems by (cases m) simp
  qed simp
  from this [of "[]" t] show "distinct (map fst t) \<Longrightarrow> into_map None (JObj t) = Inr (Some t)"
    by (simp add: into_map_def)
qed

lemma scan_file_row: "row_ok f \<Longrightarrow> scanFile (file_row f) = Inr f"
  by (cases "f_UpdatedAt f"; cases "f_DeletedAt f"; cases f)
    (auto simp: row_ok_def file_row_def file_columns_def file_table_def column_value_def value_or_null_def
      scanFile_def scan_bytes_def scan_time_def
      unmarshal_column_def into_map_distinct)

lemma scan_file_rows: "(\<And>f. f \<in> set fs \<Longrightarrow> row_ok f) \<Longrightarrow> scan_rows scanFile what (map file_row fs) = Inr fs"
  by (induction fs) (simp_all add: scan_file_row)

text \<open>The tables, column by column.\<close>

lemma file_sel [simp]:
  "t_rows file_table = d_files" "t_put file_table fs d = d\<lparr>d_files := fs\<rparr>" "t_value file_table = column_value"
  "t_accepts file_table = file_accepts" "t_set file_table = file_set" "t_uuid file_table c = (c = ''id'')"
  "t_unique file_table = [''id'', ''storage_key'']" "t_default file_table = file_default"
  by (simp_all add: file_table_def)

lemma key_sel [simp]:
  "t_rows key_table = d_idem" "t_put key_table rs d = d\<lparr>d_idem := rs\<rparr>" "t_value key_table = key_value"
  "t_accepts key_table = key_accepts" "t_set key_table = key_set" "t_uuid key_table c = False"
  "t_unique key_table = [''key'']"
  "t_default key_table d = \<lparr>k_Key = '''', k_FileID = None, k_Status = '''', k_CreatedAt = d_now d\<rparr>"
  by (simp_all add: key_table_def)

lemma value_null [simp]: "(value_or_null v x = VNull) = (x = None)" if "\<And>y. v y \<noteq> VNull"
  using that by (simp add: value_or_null_def split: option.splits)

lemma file_columns_value [simp]:
  "column_value f ''id'' = VText (f_ID f)" "column_value f ''storage_key'' = VText (f_StorageKey f)"
  "column_value f ''content_type'' = VText (f_ContentType f)"
  "column_value f ''metadata'' = value_or_null (\<lambda>t. VJson (JObj t)) (f_Metadata f)"
  "column_value f ''created_at'' = VTime (f_CreatedAt f)"
  "column_value f ''updated_at'' = value_or_null VTime (f_UpdatedAt f)"
  "column_value f ''deleted_at'' = value_or_null VTime (f_DeletedAt f)"
  by (simp_all add: column_value_def)

lemma key_columns_value [simp]:
  "key_value r ''key'' = VText (k_Key r)" "key_value r ''status'' = VText (k_Status r)"
  "key_value r ''file_id'' = value_or_null VText (k_FileID r)" "key_value r ''created_at'' = VTime (k_CreatedAt r)"
  by (simp_all add: key_value_def)

lemmas run_simps = argument_def operand_def limited_def ordered_def

text \<open>Two readings of a statement meet the same fault.\<close>

lemma send_both:
  assumes "\<And>d0. d_files d0 = d_files d \<Longrightarrow> snd (f d0) = snd (g d0)"
  obtains (lost) e d' where "send f d = (Inl (Opaque e), d')" "send g d = (Inl (Opaque e), d')"
  | (run) d0 where "d_files d0 = d_files d" "send f d = f d0" "send g d = g d0"
proof (cases "d_faults d")
  case Nil
  then show thesis
    using run [of d] by (simp add: send_def)
next
  case (Cons x xs)
  let ?d = "d\<lparr>d_faults := xs\<rparr>"
  have "snd (f ?d) = snd (g ?d)"
    by (rule assms) simp
  then show thesis
    using Cons run [of ?d] lost by (cases x) (simp_all add: send_def Let_def)
qed

lemma find_filter: "find P xs = (case filter P xs of [] \<Rightarrow> None | x # _ \<Rightarrow> Some x)"
  by (induction xs) simp_all

lemma run_get:
  "run_sql canon get_text [VText i] d =
    (case canon i of
       None \<Rightarrow> (Inl uuid_syntax, d)
     | Some c \<Rightarrow> (Inr (map file_row (filter (live_row c) (d_files d))), d))"
  unfolding run_sql_def parse_get
  by (simp add: run_simps live_row_def [abs_def] file_row_def [abs_def] split: option.splits)

lemma get_exact:
  assumes "rows_ok d"
  shows "Repo_Get canon i d = pg_Get canon i d"
proof -
  let ?f = "run_sql canon get_text [VText i]"
  have "snd (?f d0) = snd (sql_get canon i d0)" for d0
    by (simp add: run_get sql_get_def split: option.splits)
  then show ?thesis
  proof (cases rule: send_both [of d ?f "sql_get canon i"])
    case (lost e d')
    then show ?thesis
      by (simp add: Repo_Get_def pg_Get_def scan_one_def)
  next
    case (run d0)
    have "scan_one scanFile (fst (?f d0)) = fst (sql_get canon i d0)"
    proof (cases "canon i")
      case (Some c)
      have "row_ok f" if "filter (live_row c) (d_files d0) = f # fs" for f fs
        by (rule rows_filter [OF assms, of f "live_row c"]) (simp add: that run(1) [symmetric])
      then show ?thesis
        using Some by (auto simp: run_get sql_get_def find_filter scan_one_def scan_file_row split: list.splits)
    qed (simp add: run_get sql_get_def scan_one_def)
    moreover have "snd (?f d0) = d0" "snd (sql_get canon i d0) = d0"
      by (simp_all add: run_get sql_get_def split: option.splits)
    ultimately show ?thesis
      using run(2,3) by (cases "?f d0"; cases "sql_get canon i d0"; cases "fst (sql_get canon i d0)")
        (simp_all add: Repo_Get_def pg_Get_def)
  qed
qed

text \<open>The other methods go the same way.\<close>

lemma run_delete:
  "run_sql canon delete_text [VText i] d =
    map_prod (map_sum id (map (\<lambda>_. []))) id
      (sql_update_live canon (\<lambda>d f. f\<lparr>f_DeletedAt := Some (d_now d)\<rparr>) i d)"
  unfolding run_sql_def parse_delete
  by (simp add: run_simps live_row_def [abs_def] file_accepts_def file_set_def sql_update_live_def comp_def split: option.splits
     )

lemma delete_exact: "Repo_Delete canon i d = pg_Delete canon i d"
proof -
  let ?f = "run_sql canon delete_text [VText i]"
  let ?g = "sql_update_live canon (\<lambda>d f. f\<lparr>f_DeletedAt := Some (d_now d)\<rparr>) i"
  have "snd (?f d0) = snd (?g d0)" for d0
    by (simp add: run_delete)
  then show ?thesis
  proof (cases rule: send_both [of d ?f ?g])
    case (run d0)
    then show ?thesis
      by (cases "?g d0"; cases "fst (?g d0)") (simp_all add: Repo_Delete_def pg_Delete_def run_delete)
  qed (simp add: Repo_Delete_def pg_Delete_def)
qed

lemma run_update:
  assumes "rows_ok d"
  shows "run_sql canon (update_text (if merge then ''metadata = metadata || $2::jsonb'' else ''metadata = $2::jsonb'')) [VText i, VJson (JObj tags)] d =
    map_prod (map_sum id (map file_row)) id
      (sql_update_live canon (\<lambda>d f. f\<lparr>f_Metadata := Some (edited_tags f tags merge), f_UpdatedAt := Some (d_now d)\<rparr>) i d)"
proof -
  have some: "f_Metadata f \<noteq> None" if "f \<in> set (d_files d)" for f
    using assms that by (auto simp: rows_ok_def row_ok_def)
  have e: "jsonb_concat (tags_in (value_or_null (\<lambda>t. VJson (JObj t)) (f_Metadata f))) tags = edited_tags f tags True"
    if "f \<in> set (d_files d)" for f
    using some [OF that] by (auto simp: edited_tags_def value_or_null_def)
  show ?thesis
  proof (cases merge)
    case True
    then have m: "merge = True"
      by simp
    show ?thesis
      unfolding run_sql_def m if_True parse_merge
      by (simp add: run_simps live_row_def [abs_def] file_accepts_def file_set_def sql_update_live_def file_row_def e
          cong: map_cong split: option.splits)
  next
    case False
    then have m: "merge = False"
      by simp
    show ?thesis
      unfolding run_sql_def m if_False parse_replace
      by (simp add: run_simps live_row_def [abs_def] file_accepts_def file_set_def sql_update_live_def file_row_def
          edited_tags_def split: option.splits)
  qed
qed

lemma edited_row_ok: "row_ok f \<Longrightarrow> distinct (map fst tags) \<Longrightarrow>
    row_ok (f\<lparr>f_Metadata := Some (edited_tags f tags merge), f_UpdatedAt := t\<rparr>)"
  by (auto simp: row_ok_def edited_tags_def jsonb_concat_def intro: distinct_merge)

lemma update_exact:
  assumes "rows_ok d" and "distinct (map fst tags)"
  shows "Repo_UpdateMetadata canon i tags merge d = pg_UpdateMetadata canon i tags merge d"
proof -
  let ?f = "run_sql canon (update_text (if merge then ''metadata = metadata || $2::jsonb'' else ''metadata = $2::jsonb''))
      [VText i, VJson (JObj tags)]"
  let ?g = "sql_update_live canon
      (\<lambda>d f. f\<lparr>f_Metadata := Some (edited_tags f tags merge), f_UpdatedAt := Some (d_now d)\<rparr>) i"
  have same: "?f d0 = map_prod (map_sum id (map file_row)) id (?g d0)" if "d_files d0 = d_files d" for d0
    by (rule run_update) (use assms(1) that in \<open>simp add: rows_ok_def\<close>)
  then have snd: "snd (?f d0) = snd (?g d0)" if "d_files d0 = d_files d" for d0
    using that by (simp only: snd_map_prod id_apply)
  show ?thesis
  proof (rule send_both [of d ?f ?g, OF snd])
    fix e d'
    assume "send ?f d = (Inl (Opaque e), d')" "send ?g d = (Inl (Opaque e), d')"
    then show ?thesis
      by (simp add: Repo_UpdateMetadata_def pg_UpdateMetadata_def Let_def scan_one_def)
  next
    fix d0
    assume run: "d_files d0 = d_files d" "send ?f d = ?f d0" "send ?g d = ?g d0"
    show ?thesis
    proof (cases "fst (?g d0)")
      case (Inl e)
      then have "e = uuid_syntax"
        by (auto simp: sql_update_live_def split: option.splits)
      then show ?thesis
        using Inl run same [OF run(1)]
        by (cases "?g d0") (simp add: Repo_UpdateMetadata_def pg_UpdateMetadata_def Let_def scan_one_def uuid_syntax_def)
    next
      case (Inr fs)
      then have "row_ok f" if "f \<in> set fs" for f
        using that assms run(1) edited_row_ok by (auto simp: sql_update_live_def rows_ok_def split: option.splits)
      then show ?thesis
        using Inr run same [OF run(1)]
        by (cases "?g d0"; cases fs)
          (simp_all add: Repo_UpdateMetadata_def pg_UpdateMetadata_def Let_def scan_one_def scan_file_row)
    qed
  qed
qed

lemma time_of_null: "time_of (value_or_null VTime x) = (case x of None \<Rightarrow> 0 | Some t \<Rightarrow> t)"
  by (simp add: value_or_null_def split: option.splits)

lemma run_list_deleted:
  "run_sql canon dead_text
      [VBig n] d = (Inr (map file_row (sql_list_deleted n d)), d)"
  unfolding run_sql_def parse_list_deleted
  by (simp add: run_simps file_row_def [abs_def] sql_list_deleted_def time_of_null)

lemma list_deleted_exact:
  assumes "rows_ok d"
  shows "Repo_ListDeleted canon n d = pg_ListDeleted n d"
proof -
  define m where "m = (if n <=s 0 then 500 else n)"
  let ?f = "run_sql canon dead_text
      [VBig m]"
  let ?g = "sql_rows (sql_list_deleted m)"
  have snd: "snd (?f d0) = snd (?g d0)" for d0
    by (simp only: run_list_deleted sql_rows_def snd_conv)
  have defs: "Repo_ListDeleted canon n d = (case send ?f d of
        (Inl e, d') \<Rightarrow> (Inl (Wrapped ''postgres: list deleted'' e), d')
      | (Inr rows, d') \<Rightarrow> (scan_rows scanFile ''postgres: scan deleted row'' rows, d'))"
    "pg_ListDeleted n d = (case send ?g d of
        (Inl e, d') \<Rightarrow> (Inl (Wrapped ''postgres: list deleted'' e), d')
      | (Inr fs, d') \<Rightarrow> (Inr fs, d'))"
    by (simp_all add: Repo_ListDeleted_def pg_ListDeleted_def m_def Let_def)
  show ?thesis
  proof (rule send_both [of d ?f ?g, OF snd])
    fix d0
    assume run: "d_files d0 = d_files d" "send ?f d = ?f d0" "send ?g d = ?g d0"
    have "set (sql_list_deleted m d0) \<subseteq> set (d_files d)"
      using run(1) by (auto simp: sql_list_deleted_def dest: in_set_takeD)
    then have "scan_rows scanFile what (map file_row (sql_list_deleted m d0)) = Inr (sql_list_deleted m d0)" for what
      using assms by (intro scan_file_rows) (auto simp: rows_ok_def)
    then show ?thesis
      unfolding defs run(2,3) by (simp add: run_list_deleted sql_rows_def)
  qed (simp add: defs)
qed

lemma run_purge:
  "run_sql canon ''delete from files where id = $1 and deleted_at is not null'' [VText i] d =
    (case sql_purge canon i d of
       (Inl e, d') \<Rightarrow> (Inl e, d')
     | (Inr _, d') \<Rightarrow> (Inr (map (\<lambda>_. [])
         (filter (\<lambda>f. Some (f_ID f) = canon i \<and> f_DeletedAt f \<noteq> None) (d_files d))), d'))"
  unfolding run_sql_def parse_purge
  by (auto simp: run_simps sql_purge_def split: option.splits intro!: arg_cong [where f = "map _"] filter_cong)

lemma purge_exact: "Repo_Purge canon i d = pg_Purge canon i d"
proof -
  let ?f = "run_sql canon ''delete from files where id = $1 and deleted_at is not null'' [VText i]"
  have "snd (?f d0) = snd (sql_purge canon i d0)" for d0
    by (simp add: run_purge split: prod.splits sum.splits)
  then show ?thesis
  proof (cases rule: send_both [of d ?f "sql_purge canon i"])
    case (run d0)
    then show ?thesis
      by (cases "sql_purge canon i d0"; cases "fst (sql_purge canon i d0)")
        (simp_all add: Repo_Purge_def pg_Purge_def run_purge)
  qed (simp add: Repo_Purge_def pg_Purge_def)
qed

lemma run_keys:
  "run_sql canon ''select storage_key from files'' [] d = (Inr (map (\<lambda>f. [VText (f_StorageKey f)]) (d_files d)), d)"
  unfolding run_sql_def parse_keys by (simp add: run_simps)

lemma scan_keys: "scan_rows scan_key what (map (\<lambda>f. [VText (f_StorageKey f)]) fs) = Inr (map f_StorageKey fs)"
  by (induction fs) (simp_all add: scan_key_def)

lemma keys_exact: "Repo_StorageKeys canon d = pg_StorageKeys d"
proof -
  let ?f = "run_sql canon ''select storage_key from files'' []"
  let ?g = "sql_rows (\<lambda>d. set (map f_StorageKey (d_files d)))"
  have "snd (?f d0) = snd (?g d0)" for d0
    by (simp only: run_keys sql_rows_def snd_conv)
  then show ?thesis
  proof (cases rule: send_both [of d ?f ?g])
    case (lost e d')
    then show ?thesis
      by (simp add: Repo_StorageKeys_def pg_StorageKeys_def)
  next
    case (run d0)
    show ?thesis
      unfolding Repo_StorageKeys_def pg_StorageKeys_def run(2,3) by (simp add: run_keys sql_rows_def scan_keys)
  qed
qed

text \<open>The query of \<open>List\<close>: each condition finds its own argument.\<close>

definition sql_cond :: "listFilter \<Rightarrow> string option \<Rightarrow> File \<Rightarrow> bool" where
  "sql_cond flt cur f \<longleftrightarrow>
     f_DeletedAt f = None \<and>
     (lf_ContentType flt \<noteq> '''' \<longrightarrow> f_ContentType f = lf_ContentType flt) \<and>
     (case cur of None \<Rightarrow> True | Some c \<Rightarrow> f_ID f < c) \<and>
     (lf_Tags flt \<noteq> [] \<longrightarrow>
        compare_values ''@>'' (column_value f ''metadata'') (VJson (JObj (lf_Tags flt))))"

lemma sql_cond_ok: "row_ok f \<Longrightarrow> sql_cond flt cur f = list_cond flt cur f"
  by (auto simp: sql_cond_def list_cond_def row_ok_def value_or_null_def simp del: jsonb_contains.simps)

lemma list_holds:
  "all_hold canon (list_args flt) file_table
      ([Null ''deleted_at'' True] @ (if lf_ContentType flt \<noteq> '''' then [Cmp ''content_type'' ''='' (1, '''')] else []) @
        (if lf_Cursor flt \<noteq> '''' then [Cmp ''id'' ''<'' (if lf_ContentType flt \<noteq> '''' then 2 else 1, ''::uuid'')] else []) @
        (if lf_Tags flt \<noteq> [] then [Cmp ''metadata'' ''@>''
          ((if lf_ContentType flt \<noteq> '''' then 1 else 0) + (if lf_Cursor flt \<noteq> '''' then 1 else 0) + 1, ''::jsonb'')]
         else [])) =
    (if lf_Cursor flt = '''' then Inr (sql_cond flt None)
     else case canon (lf_Cursor flt) of None \<Rightarrow> Inl uuid_syntax | Some u \<Rightarrow> Inr (sql_cond flt (Some u)))"
  by (cases "lf_ContentType flt = ''''"; cases "lf_Cursor flt = ''''"; cases "lf_Tags flt = []")
    (auto simp: fun_eq_iff sql_cond_def list_args_def run_simps simp del: jsonb_contains.simps split: option.splits)

lemma list_limit:
  "limited (list_args flt) (Some ((if lf_ContentType flt \<noteq> '''' then 1 else 0) +
      (if lf_Cursor flt \<noteq> '''' then 1 else 0) + (if lf_Tags flt \<noteq> [] then 1 else 0) + 1, '''')) fs =
    Inr (take (nat (sint (page_limit (lf_Limit flt)))) fs)"
  by (simp add: limited_def list_args_def argument_def)

lemma run_list:
  assumes "rows_ok d"
  shows "(case list_query flt of (q, args) \<Rightarrow> run_sql canon q args d) =
    map_prod (map_sum id (map file_row)) id (sql_list canon flt d)"
proof -
  have "filter (sql_cond flt cur) (d_files d) = filter (list_cond flt cur) (d_files d)" for cur
    using assms sql_cond_ok by (auto simp: rows_ok_def intro!: filter_cong)
  then show ?thesis
    unfolding list_query_text prod.case run_sql_def parse_list_text option.case run_statement.simps list_holds list_limit
    by (simp add: ordered_def newest_first_def file_row_def [abs_def] sql_list_def Let_def split: option.splits)
qed

lemma list_exact:
  assumes "rows_ok d"
  shows "Repo_List canon flt d = pg_List canon flt d"
proof -
  obtain q args where q: "list_query flt = (q, args)"
    by (metis surj_pair)
  let ?f = "run_sql canon q args"
  have same: "?f d0 = map_prod (map_sum id (map file_row)) id (sql_list canon flt d0)" if "d_files d0 = d_files d" for d0
    using run_list [of d0 canon flt] assms that q by (simp add: rows_ok_def)
  then have snd: "snd (?f d0) = snd (sql_list canon flt d0)" if "d_files d0 = d_files d" for d0
    using that by (simp only: snd_map_prod id_apply)
  show ?thesis
  proof (rule send_both [of d ?f "sql_list canon flt", OF snd])
    fix d0
    assume run: "d_files d0 = d_files d" "send ?f d = ?f d0" "send (sql_list canon flt) d = sql_list canon flt d0"
    have "scan_rows scanFile what (map file_row fs) = Inr fs" if "sql_list canon flt d0 = (Inr fs, d')" for what fs d'
    proof (rule scan_file_rows)
      fix f assume "f \<in> set fs"
      then have "f \<in> set (d_files d)"
        using that run(1) by (auto simp: sql_list_def Let_def newest_first_def split: if_splits option.splits dest!: in_set_takeD)
      then show "row_ok f"
        using assms by (simp add: rows_ok_def)
    qed
    then show ?thesis
      using run(2,3) same [OF run(1)] q
      by (cases "sql_list canon flt d0"; cases "fst (sql_list canon flt d0)") (simp_all add: Repo_List_def pg_List_def)
  next
    fix e d'
    assume "send ?f d = (Inl (Opaque e), d')" "send (sql_list canon flt) d = (Inl (Opaque e), d')"
    then show ?thesis
      using q by (simp add: Repo_List_def pg_List_def)
  qed
qed

section \<open>Insertion and the keys\<close>

lemma run_insert:
  assumes "f_Metadata f = Some t"
  shows "run_sql canon insert_text [VText (f_ID f), VText (f_StorageKey f), VText (f_Filename f), VText (f_ContentType f),
      VBig (f_SizeBytes f), if f_Checksum f \<noteq> '''' then VText (f_Checksum f) else VNull, VJson (JObj t)] d =
    (case sql_insert_file canon f d of
       (Inl e, d') \<Rightarrow> (Inl e, d')
     | (Inr (created, updated), d') \<Rightarrow> (Inr [[VTime created, value_or_null VTime updated]], d'))"
proof (cases "canon (f_ID f)")
  case None
  then show ?thesis
    unfolding run_sql_def parse_insert by (simp add: run_simps sql_insert_file_def)
next
  case (Some c)
  let ?new = "f\<lparr>f_ID := c, f_CreatedAt := d_now d, f_UpdatedAt := None, f_DeletedAt := None\<rparr>"
  have new: "file_set ''metadata'' (VJson (JObj t)) (file_set ''checksum_sha256''
        (if f_Checksum f \<noteq> '''' then VText (f_Checksum f) else VNull) (file_set ''size_bytes'' (VBig (f_SizeBytes f))
        (file_set ''content_type'' (VText (f_ContentType f)) (file_set ''filename'' (VText (f_Filename f))
        (file_set ''storage_key'' (VText (f_StorageKey f)) (file_set ''id'' (VText c) (file_default d))))))) = ?new"
    using assms by (cases f) (simp add: file_set_def file_default_def)
  have "(\<exists>u\<in>set (t_unique file_table). \<exists>r\<in>set (t_rows file_table d). column_value r u = column_value ?new u) \<longleftrightarrow>
      c \<in> set (map f_ID (d_files d)) \<or> f_StorageKey f \<in> set (map f_StorageKey (d_files d))"
    by (simp add: image_iff eq_commute [of _ c] eq_commute [of _ "f_StorageKey f"])
  then show ?thesis
    unfolding run_sql_def parse_insert using Some new
    by (simp add: run_simps file_accepts_def sql_insert_file_def Let_def value_or_null_def)
qed

lemma insert_exact: "Repo_insertFile canon f d = insertFile canon f d"
proof -
  define g where "g = (if f_Metadata f = None then f\<lparr>f_Metadata := Some []\<rparr> else f)"
  have g: "f_Metadata g = Some (the (f_Metadata g))"
    by (simp add: g_def)
  let ?f = "run_sql canon insert_text [VText (f_ID g), VText (f_StorageKey g), VText (f_Filename g),
      VText (f_ContentType g), VBig (f_SizeBytes g), if f_Checksum g \<noteq> '''' then VText (f_Checksum g) else VNull,
      VJson (JObj (the (f_Metadata g)))]"
  let ?g = "sql_insert_file canon g"
  have snd: "snd (?f d0) = snd (?g d0)" for d0
    unfolding run_insert [OF g] by (simp split: prod.splits sum.splits)
  have defs: "Repo_insertFile canon f d = (case send ?f d of (x, d') \<Rightarrow>
        (case scan_one scan_stamps x of
           Inl e \<Rightarrow> (Inl (Wrapped ''postgres: insert file'' e), d')
         | Inr (created, updated) \<Rightarrow> (Inr (g\<lparr>f_CreatedAt := created, f_UpdatedAt := updated\<rparr>), d')))"
    "insertFile canon f d = (case send ?g d of
        (Inl e, d') \<Rightarrow> (Inl (Wrapped ''postgres: insert file'' e), d')
      | (Inr (created, updated), d') \<Rightarrow> (Inr (g\<lparr>f_CreatedAt := created, f_UpdatedAt := updated\<rparr>), d'))"
    unfolding Repo_insertFile_def insertFile_def Let_def g_def [symmetric] by simp_all
  show ?thesis
  proof (rule send_both [of d ?f ?g, OF snd])
    fix d0
    assume run: "send ?f d = ?f d0" "send ?g d = ?g d0"
    show ?thesis
      unfolding defs run unfolding run_insert [OF g]
      by (auto simp: scan_one_def scan_stamps_def scan_time_def value_or_null_def split: prod.splits sum.splits option.splits)
  next
    fix e d'
    assume "send ?f d = (Inl (Opaque e), d')" "send ?g d = (Inl (Opaque e), d')"
    then show ?thesis
      unfolding defs by (simp add: scan_one_def)
  qed
qed

lemma run_claim_key:
  "run_sql canon claim_text [VText k, VText s] d =
    (if k \<in> set (map k_Key (d_idem d)) then (Inr [], d)
     else (Inr [[VText k]], d\<lparr>d_idem := d_idem d @
       [\<lparr>k_Key = k, k_FileID = None, k_Status = s, k_CreatedAt = d_now d\<rparr>]\<rparr>))"
  unfolding run_sql_def parse_claim by (auto simp: run_simps key_accepts_def key_set_def Let_def)

lemma run_read_key:
  "run_sql canon ''select status, file_id from idempotency_keys where key = $1'' [VText k] d =
    (Inr (map (\<lambda>r. [VText (k_Status r), value_or_null VText (k_FileID r)]) (filter (\<lambda>r. k_Key r = k) (d_idem d))), d)"
  unfolding run_sql_def parse_read_key by (simp add: run_simps)

lemma run_complete:
  "run_sql canon ''update idempotency_keys set status = $2, file_id = $3 where key = $1'' [VText k, VText s, VText i] d =
    (Inr (map (\<lambda>_. []) (filter (\<lambda>r. k_Key r = k) (d_idem d))),
     d\<lparr>d_idem := map (\<lambda>r. if k_Key r = k then r\<lparr>k_Status := s, k_FileID := Some i\<rparr> else r) (d_idem d)\<rparr>)"
  unfolding run_sql_def parse_complete by (simp add: run_simps key_accepts_def key_set_def cong: if_cong)

lemma run_release_key:
  "run_sql canon ''delete from idempotency_keys where key = $1 and status = $2'' [VText k, VText s] d =
    (Inr (map (\<lambda>_. []) (filter (\<lambda>r. k_Key r = k \<and> k_Status r = s) (d_idem d))),
     d\<lparr>d_idem := filter (\<lambda>r. \<not> (k_Key r = k \<and> k_Status r = s)) (d_idem d)\<rparr>)"
  unfolding run_sql_def parse_release by (simp add: run_simps)

lemma run_purge_keys:
  "run_sql canon ''delete from idempotency_keys where created_at < $1'' [VTime t] d =
    (Inr (map (\<lambda>_. []) (filter (\<lambda>r. k_CreatedAt r < t) (d_idem d))),
     d\<lparr>d_idem := filter (\<lambda>r. \<not> k_CreatedAt r < t) (d_idem d)\<rparr>)"
  unfolding run_sql_def parse_purge_keys by (simp add: run_simps)

lemma release_exact: "Repo_ReleaseIdempotencyKey canon k d = pg_ReleaseIdempotencyKey k d"
proof -
  let ?f = "run_sql canon ''delete from idempotency_keys where key = $1 and status = $2''
      [VText k, VText IdempotencyPending]"
  have snd: "snd (?f d0) = snd (sql_release k d0)" for d0
    by (simp add: run_release_key sql_release_def)
  show ?thesis
  proof (rule send_both [of d ?f "sql_release k", OF snd])
    fix d0 assume run: "send ?f d = ?f d0" "send (sql_release k) d = sql_release k d0"
    show ?thesis
      unfolding Repo_ReleaseIdempotencyKey_def pg_ReleaseIdempotencyKey_def run
      by (simp add: run_release_key sql_release_def)
  qed (simp add: Repo_ReleaseIdempotencyKey_def pg_ReleaseIdempotencyKey_def)
qed

lemma purge_keys_exact: "Repo_PurgeIdempotencyKeys canon t d = pg_PurgeIdempotencyKeys t d"
proof -
  let ?f = "run_sql canon ''delete from idempotency_keys where created_at < $1'' [VTime t]"
  have snd: "snd (?f d0) = snd (sql_purge_keys t d0)" for d0
    by (simp add: run_purge_keys sql_purge_keys_def)
  show ?thesis
  proof (rule send_both [of d ?f "sql_purge_keys t", OF snd])
    fix d0 assume run: "send ?f d = ?f d0" "send (sql_purge_keys t) d = sql_purge_keys t d0"
    show ?thesis
      unfolding Repo_PurgeIdempotencyKeys_def pg_PurgeIdempotencyKeys_def run
      by (simp add: run_purge_keys sql_purge_keys_def)
  qed (simp add: Repo_PurgeIdempotencyKeys_def pg_PurgeIdempotencyKeys_def)
qed

lemma read_exact:
  obtains (lost) e d' where "send (run_sql canon ''select status, file_id from idempotency_keys where key = $1'' [VText k]) d =
      (Inl (Opaque e), d')" "send (sql_read_idem k) d = (Inl (Opaque e), d')"
  | (run) x d' where "send (run_sql canon ''select status, file_id from idempotency_keys where key = $1'' [VText k]) d = (x, d')"
      "send (sql_read_idem k) d = (scan_one scan_record x, d')"
proof -
  let ?f = "run_sql canon ''select status, file_id from idempotency_keys where key = $1'' [VText k]"
  have snd: "snd (?f d0) = snd (sql_read_idem k d0)" for d0
    by (simp add: run_read_key sql_read_idem_def split: option.splits)
  have read: "sql_read_idem k d0 = (scan_one scan_record (fst (?f d0)), snd (?f d0))" for d0
    unfolding run_read_key sql_read_idem_def find_filter
    by (auto simp: scan_one_def scan_record_def value_or_null_def split: list.splits option.splits)
  show thesis
  proof (rule send_both [of d ?f "sql_read_idem k", OF snd])
    fix d0 assume "send ?f d = ?f d0" "send (sql_read_idem k) d = sql_read_idem k d0"
    then show thesis
      by (intro run [of "fst (?f d0)" "snd (?f d0)"]) (simp_all only: read prod.collapse)
  qed (rule lost)
qed

lemma claim_exact: "Repo_ClaimIdempotencyKey canon k d = pg_ClaimIdempotencyKey k d"
proof -
  let ?f = "run_sql canon claim_text [VText k, VText IdempotencyPending]"
  have snd: "snd (?f d0) = snd (sql_claim k d0)" for d0
    unfolding run_claim_key by (simp add: sql_claim_def)
  show ?thesis
  proof (rule send_both [of d ?f "sql_claim k", OF snd])
    fix d0 assume run: "send ?f d = ?f d0" "send (sql_claim k) d = sql_claim k d0"
    show ?thesis
    proof (cases "k \<in> set (map k_Key (d_idem d0))")
      case True
      then have here: "?f d0 = (Inr [], d0)" "sql_claim k d0 = (Inl NoRows, d0)"
        unfolding run_claim_key by (simp_all add: sql_claim_def)
      show ?thesis
        unfolding Repo_ClaimIdempotencyKey_def pg_ClaimIdempotencyKey_def Let_def run here
        by (rule read_exact [of canon k d0]) (simp_all add: scan_one_def)
    next
      case False
      then show ?thesis
        unfolding Repo_ClaimIdempotencyKey_def pg_ClaimIdempotencyKey_def Let_def run run_claim_key
        by (simp add: sql_claim_def scan_one_def scan_key_def)
    qed
  next
    fix e d'
    assume lost: "send ?f d = (Inl (Opaque e), d')" "send (sql_claim k) d = (Inl (Opaque e), d')"
    show ?thesis
      unfolding Repo_ClaimIdempotencyKey_def pg_ClaimIdempotencyKey_def Let_def lost by (simp add: scan_one_def)
  qed
qed

lemma create_for_key_exact: "Repo_CreateForKey canon f k d = pg_CreateForKey canon f k d"
proof -
  have complete: "send (run_sql canon ''update idempotency_keys set status = $2, file_id = $3 where key = $1''
        [VText k, VText IdempotencyCompleted, VText (f_ID f)]) d1 = (x, d2) \<Longrightarrow>
      send (sql_complete k (f_ID f)) d1 = (map_sum id length x, d2)" for d1 d2 x
    by (auto simp: send_def Let_def run_complete sql_complete_def split: list.splits fault.splits)
  show ?thesis
    unfolding Repo_CreateForKey_def pg_CreateForKey_def insert_exact
    by (auto simp: dest!: complete split: prod.splits sum.splits)
qed

section \<open>Properties\<close>

text \<open>C27. The rows that the statements select fit the scan: the columns of \<open>fileColumns\<close> are, in
  number, order and type, what \<open>scanFile\<close> scans into, so that scanning any row of the table
  succeeds up to the decoding of its metadata, and gives back the record that is stored.\<close>

theorem scanFile_fits_columns:
  "\<exists>ks. columns (lex_sql '''' fileColumns) = Some ks \<and> scanFile (map (selected file_table f) ks) \<noteq> Inl scan_error \<and>
    (row_ok f \<longrightarrow> scanFile (map (selected file_table f) ks) = Inr f)"
proof (intro exI conjI impI)
  show "columns (lex_sql '''' fileColumns) = Some file_columns"
    by code_simp
  show "row_ok f \<Longrightarrow> scanFile (map (selected file_table f) file_columns) = Inr f"
    using scan_file_row [of f] by (simp add: file_row_def)
  show "scanFile (map (selected file_table f) file_columns) \<noteq> Inl scan_error"
    by (cases "f_Metadata f"; cases "f_UpdatedAt f"; cases "f_DeletedAt f")
      (auto simp: file_columns_def column_value_def value_or_null_def scanFile_def scan_bytes_def scan_time_def
        unmarshal_column_def into_map_def scan_error_def)
qed

definition stored_file :: File where
  "stored_file = \<lparr>f_ID = ''a'', f_StorageKey = ''k'', f_Filename = ''a.txt'', f_ContentType = ''text/plain'',
     f_SizeBytes = 3, f_Checksum = '''', f_Metadata = Some [(''x'', JNum 1)], f_CreatedAt = 7, f_UpdatedAt = None,
     f_DeletedAt = None\<rparr>"

lemma stored_row_ok: "row_ok stored_file"
  by (simp add: row_ok_def stored_file_def)

theorem scanFile_fits_columns_witness:
  "\<exists>ks. columns (lex_sql '''' fileColumns) = Some ks \<and> length ks = 10 \<and>
    scanFile (map (selected file_table stored_file) ks) = Inr stored_file"
proof -
  obtain ks where ks: "columns (lex_sql '''' fileColumns) = Some ks"
    "scanFile (map (selected file_table stored_file) ks) = Inr stored_file"
    using scanFile_fits_columns [of stored_file] stored_row_ok by blast
  have "columns (lex_sql '''' fileColumns) = Some file_columns"
    by code_simp
  with ks(1) have "ks = file_columns"
    by simp
  with ks show ?thesis
    by (auto simp: file_columns_def)
qed

text \<open>C18. The statements say what they are taken for.  On every database, whatever faults it has
  in store, each method of the repository, run on the text that the code sends with the arguments
  in the places the text numbers, and scanning the rows it gets, returns the result and leaves the
  database that the specification of the statement prescribes: \<open>List\<close> with any filter, the edit
  in both modes, the insertion, and the four statements on the keys with their transaction.\<close>

theorem statements_exact:
  assumes "rows_ok d" and "distinct (map fst tags)"
  shows "r_Create (sql_repo canon) f d = r_Create (pg_repo canon) f d \<and>
    r_Get (sql_repo canon) i d = r_Get (pg_repo canon) i d \<and>
    r_List (sql_repo canon) flt d = r_List (pg_repo canon) flt d \<and>
    r_UpdateMetadata (sql_repo canon) i tags merge d = r_UpdateMetadata (pg_repo canon) i tags merge d \<and>
    r_Delete (sql_repo canon) i d = r_Delete (pg_repo canon) i d \<and>
    r_ListDeleted (sql_repo canon) n d = r_ListDeleted (pg_repo canon) n d \<and>
    r_Purge (sql_repo canon) i d = r_Purge (pg_repo canon) i d \<and>
    r_StorageKeys (sql_repo canon) d = r_StorageKeys (pg_repo canon) d \<and>
    r_ClaimIdempotencyKey (sql_repo canon) k d = r_ClaimIdempotencyKey (pg_repo canon) k d \<and>
    r_CreateForKey (sql_repo canon) f k d = r_CreateForKey (pg_repo canon) f k d \<and>
    r_ReleaseIdempotencyKey (sql_repo canon) k d = r_ReleaseIdempotencyKey (pg_repo canon) k d \<and>
    r_PurgeIdempotencyKeys (sql_repo canon) t d = r_PurgeIdempotencyKeys (pg_repo canon) t d"
  using get_exact [OF assms(1)] list_exact [OF assms(1)] update_exact [OF assms] list_deleted_exact [OF assms(1)]
  by (simp add: sql_repo_def Repo_Create_def pg_Create_def insert_exact delete_exact purge_exact keys_exact
      claim_exact create_for_key_exact release_exact purge_keys_exact)

theorem statements_exact_witness:
  "\<exists>d. d = \<lparr>d_files = [stored_file], d_idem = [], d_now = 9, d_faults = []\<rparr> \<and>
    r_List (sql_repo Some) \<lparr>lf_ContentType = ''text/plain'', lf_Tags = [(''x'', JNum 1)], lf_Limit = 0, lf_Cursor = ''b''\<rparr> d =
      (Inr [stored_file], d)"
proof -
  let ?d = "\<lparr>d_files = [stored_file], d_idem = [], d_now = 9, d_faults = []\<rparr>"
  let ?flt = "\<lparr>lf_ContentType = ''text/plain'', lf_Tags = [(''x'', JNum 1)], lf_Limit = 0, lf_Cursor = ''b''\<rparr>"
  have "rows_ok ?d"
    using stored_row_ok by (simp add: rows_ok_def)
  from statements_exact [OF this, of "[]" Some _ _ ?flt]
  have "r_List (sql_repo Some) ?flt ?d = r_List (pg_repo Some) ?flt ?d"
    by simp
  also have "\<dots> = (Inr [stored_file], ?d)"
    by (simp add: pg_List_def send_def sql_list_def Let_def newest_first_def list_cond_def stored_file_def
        page_limit_def listDefaultLimit_def listMaxLimit_def less_list_code)
  finally show ?thesis
    by blast
qed

end
