(* ===== verification/Storage.thy ===== *)
theory Storage
  imports IoReader
begin

text \<open>
  \<open>internal/storage/backend.go\<close>: the object-store seam.  \<open>backend\<close> is the Go interface, a
  record of its methods over a store state \<open>'s\<close>; \<open>'r\<close> is the type of the readers \<open>Put\<close> is
  given and \<open>'c\<close> the state that \<open>List\<close>'s callback closes over.  The context is passed
  where a method polls it: \<open>ctx i\<close> is what the \<open>i\<close>-th poll of \<open>ctx.Err()\<close> returns.

  The contract that the comments of the interface state is the locale \<open>object_store\<close>: \<open>objs\<close>
  reads a store state as a map from keys to objects and \<open>sane\<close> is its invariant.
\<close>

section \<open>Data\<close>

record object =
  o_data :: bytes
  o_ctype :: string
  o_mtime :: int

record objectInfo =
  i_size :: int64
  i_ctype :: string
  i_etag :: string

record storedObject =
  so_key :: string
  so_size :: int64
  so_mtime :: int

type_synonym ctx = "nat \<Rightarrow> goerr option"

text \<open>The context that is never cancelled, \<open>context.Background()\<close>.\<close>

definition background :: ctx where
  "background i = None"

text \<open>
  How an enumeration visits what it has found: it polls the context before every object and
  stops at the callback's error.  The callback may change the store.
\<close>

fun list_loop :: "ctx \<Rightarrow> (storedObject \<Rightarrow> 'c \<times> 's \<Rightarrow> unit res \<times> 'c \<times> 's) \<Rightarrow> nat \<Rightarrow>
  storedObject list \<Rightarrow> 'c \<times> 's \<Rightarrow> unit res \<times> 'c \<times> 's" where
  "list_loop ctx fn i [] st = (Inr (), st)"
| "list_loop ctx fn i (ob # obs) st =
     (case ctx i of
        Some e \<Rightarrow> (Inl e, st)
      | None \<Rightarrow>
          (case fn ob st of
             (Inl e, st') \<Rightarrow> (Inl e, st')
           | (Inr _, st') \<Rightarrow> list_loop ctx fn (Suc i) obs st'))"

lemma list_loop_invariant:
  assumes "list_loop ctx fn i obs cs = (x, cs')" and "P cs"
    and "\<And>ob cs y cs'. ob \<in> set obs \<Longrightarrow> P cs \<Longrightarrow> fn ob cs = (y, cs') \<Longrightarrow> P cs'"
  shows "P cs'"
  using assms
proof (induction ctx fn i obs cs arbitrary: x cs' rule: list_loop.induct)
  case (2 ctx fn i ob obs st)
  show ?case
  proof (cases "ctx i")
    case None
    obtain y st1 where f: "fn ob st = (y, st1)"
      by (cases "fn ob st") auto
    then have P: "P st1"
      using "2.prems"(2) "2.prems"(3) [of ob st y st1] by simp
    show ?thesis
    proof (cases y)
      case (Inl e)
      then show ?thesis
        using "2.prems"(1) None f P by simp
    next
      case (Inr u)
      then have "list_loop ctx fn (Suc i) obs st1 = (x, cs')"
        using "2.prems"(1) None f by simp
      from "2.IH" [OF None f [symmetric] Inr this P] "2.prems"(3) show ?thesis
        by (meson list.set_intros(2))
    qed
  next
    case (Some e)
    then show ?thesis
      using "2.prems" by auto
  qed
qed simp

section \<open>The interface\<close>

record ('s, 'r, 'c) backend =
  b_Put :: "string \<Rightarrow> 'r \<Rightarrow> int64 \<Rightarrow> string \<Rightarrow> 's \<Rightarrow> unit res \<times> 'r \<times> 's"
  b_Get :: "string \<Rightarrow> 's \<Rightarrow> source res \<times> 's"
  b_GetRange :: "string \<Rightarrow> int64 \<Rightarrow> int64 \<Rightarrow> 's \<Rightarrow> source res \<times> 's"
  b_Delete :: "string \<Rightarrow> 's \<Rightarrow> unit res \<times> 's"
  b_List :: "ctx \<Rightarrow> (storedObject \<Rightarrow> 'c \<times> 's \<Rightarrow> unit res \<times> 'c \<times> 's) \<Rightarrow> 'c \<times> 's \<Rightarrow>
    unit res \<times> 'c \<times> 's"
  b_Stat :: "string \<Rightarrow> 's \<Rightarrow> objectInfo res \<times> 's"
  b_PresignGet :: "string \<Rightarrow> int64 \<Rightarrow> 's \<Rightarrow> string res \<times> 's"
  b_PresignPut :: "string \<Rightarrow> int64 \<Rightarrow> 's \<Rightarrow> string res \<times> 's"

text \<open>
  The declared size of an upload is honest: unknown, or the length of what the reader
  delivers when it ends cleanly, or more than it delivers when the body breaks off
  (\<open>net/http\<close> gives handlers no other bodies).
\<close>

definition honest_size :: "bytes \<Rightarrow> goerr \<Rightarrow> int64 \<Rightarrow> bool" where
  "honest_size bs e sz \<longleftrightarrow> sint sz < 0 \<or>
     (if e = EOF then sint sz = int (length bs) else int (length bs) < sint sz)"

section \<open>The contract\<close>

locale object_store = io_reader rd rest fin ok
  for rd :: "'r read" and rest :: "'r \<Rightarrow> bytes" and fin :: "'r \<Rightarrow> goerr" and ok :: "'r \<Rightarrow> bool" +
  fixes B :: "('s, 'r, 'c) backend" and objs :: "'s \<Rightarrow> string \<rightharpoonup> object" and sane :: "'s \<Rightarrow> bool"
  assumes Put_ok: "sane s \<Longrightarrow> ok r \<Longrightarrow> honest_size (rest r) (fin r) sz \<Longrightarrow>
      b_Put B k r sz ct s = (Inr (), r', s') \<Longrightarrow>
      fin r = EOF \<and> rest r' = [] \<and>
      (\<exists>ob. objs s' = (objs s)(k \<mapsto> ob) \<and> o_data ob = rest r)"
    and Put_error: "sane s \<Longrightarrow> b_Put B k r sz ct s = (Inl e, r', s') \<Longrightarrow>
      \<forall>k'. k' \<noteq> k \<longrightarrow> objs s' k' = objs s k'"
    and Put_reads: "sane s \<Longrightarrow> ok r \<Longrightarrow> b_Put B k r sz ct s = (x, r', s') \<Longrightarrow> reads rd r r'"
    and Put_sane: "sane s \<Longrightarrow> b_Put B k r sz ct s = (x, r', s') \<Longrightarrow> sane s'"
    and Get_ok: "sane s \<Longrightarrow> b_Get B k s = (Inr src, s') \<Longrightarrow>
      (\<exists>ob. objs s k = Some ob \<and> delivers src (o_data ob))"
    and Get_frame: "sane s \<Longrightarrow> b_Get B k s = (g, s') \<Longrightarrow> objs s' = objs s \<and> sane s'"
    and GetRange_frame: "sane s \<Longrightarrow> b_GetRange B k off len s = (g, s') \<Longrightarrow> objs s' = objs s \<and> sane s'"
    and GetRange_ok: "sane s \<Longrightarrow> b_GetRange B k off len s = (Inr src, s') \<Longrightarrow> objs s k = Some ob \<Longrightarrow>
      0 \<le> sint off \<Longrightarrow> 0 < sint len \<Longrightarrow> sint off + sint len \<le> int (length (o_data ob)) \<Longrightarrow>
      int (length (o_data ob)) < 2 ^ 63 \<Longrightarrow>
      delivers src (take (nat (sint len)) (drop (nat (sint off)) (o_data ob)))"
    and Stat_ok: "sane s \<Longrightarrow> b_Stat B k s = (Inr i, s') \<Longrightarrow>
      (\<exists>ob. objs s k = Some ob \<and> i_size i = len64 (o_data ob))"
    and Stat_frame: "sane s \<Longrightarrow> b_Stat B k s = (g2, s') \<Longrightarrow> objs s' = objs s \<and> sane s'"
    and Delete_ok: "sane s \<Longrightarrow> b_Delete B k s = (Inr (), s') \<Longrightarrow> objs s' = (objs s)(k := None)"
    and Delete_error: "sane s \<Longrightarrow> b_Delete B k s = (Inl e, s') \<Longrightarrow>
      objs s' = objs s \<or> objs s' = (objs s)(k := None)"
    and Delete_sane: "sane s \<Longrightarrow> b_Delete B k s = (x, s') \<Longrightarrow> sane s'"
    and Presign_frame: "sane s \<Longrightarrow> b_PresignGet B k ttl s = (u, s') \<Longrightarrow> objs s' = objs s \<and> sane s'"
    and PresignPut_frame: "sane s \<Longrightarrow> b_PresignPut B k ttl s = (u2, s') \<Longrightarrow> objs s' = objs s \<and> sane s'"
begin

text \<open>Whatever the outcome, a write or a delete touches one key only.\<close>

lemma Put_other:
  assumes "sane s" "ok r" "honest_size (rest r) (fin r) sz" "b_Put B k r sz ct s = (x, r', s')"
    "k' \<noteq> k"
  shows "objs s' k' = objs s k'"
proof (cases x)
  case (Inl e)
  then show ?thesis using Put_error assms by metis
next
  case (Inr u)
  then show ?thesis using Put_ok [of s r sz k ct r' s'] assms by auto
qed

lemma Delete_other: "sane s \<Longrightarrow> b_Delete B k s = (x, s') \<Longrightarrow> k' \<noteq> k \<Longrightarrow> objs s' k' = objs s k'"
  using Delete_ok [of s k s'] Delete_error [of s k _ s'] by (cases x) auto

lemma Delete_shrinks:
  "sane s \<Longrightarrow> b_Delete B k s = (x, s') \<Longrightarrow> objs s' = objs s \<or> objs s' = (objs s)(k := None)"
  using Delete_ok [of s k s'] Delete_error [of s k _ s'] by (cases x) auto

end

end
