(* ===== verification/LimitReader.thy ===== *)
theory LimitReader
  imports IoReader
begin

text \<open>
  \<open>internal/api/limit.go\<close>: the reader that caps an upload body, and \<open>body\<close>, the two
  readers an upload can be given (\<open>upload\<close> in \<open>internal/api/files.go\<close> wraps the request
  body only when a cap is configured).  The cap is characterised through the reader
  interface: a capped reader delivers the first \<open>remaining\<close> bytes, and ends with
  \<open>UploadTooLarge\<close> exactly when there were more.
\<close>

section \<open>The reader\<close>

record 'r limitReader =
  l_r :: 'r
  l_remaining :: int64
  l_exceeded :: bool

text \<open>
  \<open>p\<close> is a slice, so \<open>int64(len(p))\<close> is its length; it is cut to \<open>remaining\<close> bytes when
  longer.
\<close>

definition limitReader_Read :: "'r read \<Rightarrow> 'r limitReader read" where
  "limitReader_Read rd n l =
     (if l_exceeded l then (([], Some UploadTooLarge), l)
      else if l_remaining l <=s 0 then
        (case rd 1 (l_r l) of
           ((b, e), r') \<Rightarrow>
             if b \<noteq> [] then (([], Some UploadTooLarge), l\<lparr>l_r := r', l_exceeded := True\<rparr>)
             else (([], e), l\<lparr>l_r := r'\<rparr>))
      else
        let n = (if sint (l_remaining l) < int n then nat (sint (l_remaining l)) else n)
        in (case rd n (l_r l) of
              ((d, e), r') \<Rightarrow>
                ((d, e), l\<lparr>l_r := r', l_remaining := l_remaining l - len64 d\<rparr>)))"

section \<open>What it delivers\<close>

abbreviation cap :: "'r limitReader \<Rightarrow> nat" where
  "cap l \<equiv> nat (sint (l_remaining l))"

definition lim_rest :: "('r \<Rightarrow> bytes) \<Rightarrow> 'r limitReader \<Rightarrow> bytes" where
  "lim_rest rest l = (if l_exceeded l then [] else take (cap l) (rest (l_r l)))"

definition lim_fin :: "('r \<Rightarrow> bytes) \<Rightarrow> ('r \<Rightarrow> goerr) \<Rightarrow> 'r limitReader \<Rightarrow> goerr" where
  "lim_fin rest fin l =
     (if l_exceeded l \<or> cap l < length (rest (l_r l)) then UploadTooLarge else fin (l_r l))"

definition lim_ok :: "('r \<Rightarrow> bool) \<Rightarrow> 'r limitReader \<Rightarrow> bool" where
  "lim_ok ok l \<longleftrightarrow> ok (l_r l)"

lemmas lim_defs = lim_rest_def lim_fin_def lim_ok_def

lemma cap_minus:
  assumes "0 < sint (l_remaining l)" and "length d \<le> cap l"
  shows "nat (sint (l_remaining l - len64 d)) = cap l - length d"
proof -
  have "sint (len64 d) = int (length d)"
    using assms sint64_upper [of "l_remaining l"] by (intro sint_len64) linarith
  then show ?thesis
    using assms by (subst sint64_sub_nonneg) auto
qed

text \<open>One read: at the cap it probes, below it passes a truncated read on.\<close>

lemma limitReader_Read_cases:
  assumes "limitReader_Read rd n l = ((d, e), l')"
  obtains (over) "l_exceeded l" "d = []" "e = Some UploadTooLarge" "l' = l"
  | (probe_more) b x r' where "\<not> l_exceeded l" "sint (l_remaining l) \<le> 0"
      "rd 1 (l_r l) = ((b, x), r')" "b \<noteq> []" "d = []" "e = Some UploadTooLarge"
      "l' = l\<lparr>l_r := r', l_exceeded := True\<rparr>"
  | (probe_end) r' where "\<not> l_exceeded l" "sint (l_remaining l) \<le> 0"
      "rd 1 (l_r l) = (([], e), r')" "d = []" "l' = l\<lparr>l_r := r'\<rparr>"
  | (below) m r' where "\<not> l_exceeded l" "0 < sint (l_remaining l)" "m = min n (cap l)"
      "rd m (l_r l) = ((d, e), r')" "l' = l\<lparr>l_r := r', l_remaining := l_remaining l - len64 d\<rparr>"
proof -
  have cut: "(if sint (l_remaining l) < int n then cap l else n) = min n (cap l)"
    if "0 < sint (l_remaining l)"
    using that by (auto simp: min_def nat_le_iff)
  show thesis
  proof (cases "l_exceeded l \<or> sint (l_remaining l) \<le> 0")
    case True
    then show thesis
      using assms over probe_more probe_end
      by (auto simp: limitReader_Read_def int64_simps split: if_splits prod.splits)
  next
    case False
    then show thesis
      using assms below [OF _ _ refl] cut
      by (auto simp: limitReader_Read_def int64_simps Let_def split: prod.splits)
  qed
qed

context io_reader
begin

lemma limit_below:
  assumes "\<not> l_exceeded l" "0 < sint (l_remaining l)"
    and "rd (min n (cap l)) (l_r l) = ((d, e), r')" and "rest (l_r l) = d @ rest r'"
  defines "l' \<equiv> l\<lparr>l_r := r', l_remaining := l_remaining l - len64 d\<rparr>"
  shows "lim_rest rest l = d @ lim_rest rest l'"
    and "cap l' < length (rest (l_r l')) \<longleftrightarrow> cap l < length (rest (l_r l))"
proof -
  have "length d \<le> cap l"
    using read_len [OF assms(3)] by simp
  moreover from this have "cap l' = cap l - length d"
    using assms by (simp add: cap_minus)
  ultimately show "lim_rest rest l = d @ lim_rest rest l'"
    and "cap l' < length (rest (l_r l')) \<longleftrightarrow> cap l < length (rest (l_r l))"
    using assms by (auto simp: lim_rest_def)
qed

end

context sticky_reader
begin

lemma probe_facts:
  assumes "ok r" and "rd 1 r = ((b, x), r')"
  shows "b = [] \<Longrightarrow> x = Some (fin r) \<and> rest r = [] \<and> rest r' = []"
    and "b \<noteq> [] \<Longrightarrow> rest r \<noteq> []"
  using read_progress [of 1 r b r'] read_end [of r 1 b _ r'] read_rest [OF assms] assms
  by (cases x; force)+

lemma limit_reader:
  "sticky_reader (limitReader_Read rd) (lim_rest rest) (lim_fin rest fin) (lim_ok ok)"
proof
  fix n l d e l'
  assume "limitReader_Read rd n l = ((d, e), l')"
  then show "length d \<le> n"
    by (cases rule: limitReader_Read_cases) (auto dest: read_len)
next
  fix n l d l'
  assume "0 < n" and "limitReader_Read rd n l = ((d, None), l')"
  from this(2) show "d \<noteq> []"
    by (cases rule: limitReader_Read_cases)
      (use \<open>0 < n\<close> in \<open>auto dest: read_progress [rotated]\<close>)
next
  fix n l d l'
  assume "limitReader_Read rd n l = ((d, None), l')"
  then show "lim_rest rest l = d @ lim_rest rest l' \<and> lim_fin rest fin l' = lim_fin rest fin l"
  proof (cases rule: limitReader_Read_cases)
    case (below m r')
    then show ?thesis
      using limit_below [of l n d None r'] read_more [of m "l_r l" d r'] by (auto simp: lim_fin_def)
  qed (auto dest: read_progress [rotated])
next
  fix n l d x l'
  assume ok: "lim_ok ok l" and "limitReader_Read rd n l = ((d, Some x), l')"
  from this(2) show "lim_rest rest l = d \<and> x = lim_fin rest fin l \<and> lim_rest rest l' = []"
  proof (cases rule: limitReader_Read_cases)
    case (probe_more b y r')
    then show ?thesis
      using ok probe_facts(2) [of "l_r l" b y r'] by (auto simp: lim_defs)
  next
    case (probe_end r')
    then show ?thesis
      using ok probe_facts(1) [of "l_r l" "[]" _ r'] by (auto simp: lim_defs)
  next
    case (below m r')
    then have "rest (l_r l) = d" "x = fin (l_r l)" "rest r' = []" "length d \<le> cap l"
      using ok read_end [of "l_r l" m d x r'] read_len [of m "l_r l" d "Some x" r']
      by (auto simp: lim_ok_def)
    with below show ?thesis by (auto simp: lim_defs)
  qed (auto simp: lim_defs)
next
  fix n l d e l'
  assume ok: "lim_ok ok l" and "limitReader_Read rd n l = ((d, e), l')"
  from this(2) show "lim_ok ok l'"
    by (cases rule: limitReader_Read_cases) (use ok read_ok in \<open>auto simp: lim_ok_def\<close>)
next
  fix n l d x l'
  assume ok: "lim_ok ok l" and "limitReader_Read rd n l = ((d, Some x), l')"
  from this(2) show "lim_fin rest fin l' = lim_fin rest fin l"
  proof (cases rule: limitReader_Read_cases)
    case (probe_more b y r')
    then show ?thesis
      using ok probe_facts(2) [of "l_r l" b y r'] by (auto simp: lim_defs)
  next
    case (probe_end r')
    then show ?thesis
      using ok probe_facts(1) [of "l_r l" "[]" _ r'] read_fin [of "l_r l" 1 "[]" _ r']
      by (auto simp: lim_defs)
  next
    case (below m r')
    then show ?thesis
      using ok read_end [of "l_r l" m d x r'] read_len [of m "l_r l" d "Some x" r']
        read_sticky [of "l_r l" m d x r']
      by (auto simp: lim_defs)
  qed (auto simp: lim_defs)
qed

text \<open>
  The flag is raised exactly by a body that is longer than the cap: along any reads it
  implies that the body was, and a read that ends in \<open>UploadTooLarge\<close> raises it.
\<close>

definition over_iff where
  "over_iff l l' \<longleftrightarrow> ok (l_r l') \<and> 0 \<le> sint (l_remaining l') \<and>
     (if l_exceeded l' then cap l < length (rest (l_r l))
      else (cap l' < length (rest (l_r l')) \<longleftrightarrow> cap l < length (rest (l_r l))))"

lemma over_iff_read:
  assumes inv: "over_iff k l" and "limitReader_Read rd n l = ((d, e), l')"
  shows "over_iff k l'"
  using assms(2)
proof (cases rule: limitReader_Read_cases)
  case (probe_more b y r')
  then show ?thesis
    using inv probe_facts(2) [of "l_r l" b y r'] read_ok by (auto simp: over_iff_def)
next
  case (probe_end r')
  then show ?thesis
    using inv probe_facts(1) [of "l_r l" "[]" e r'] read_ok by (auto simp: over_iff_def)
next
  case (below m r')
  have r: "rest (l_r l) = d @ rest r'" "ok r'" "length d \<le> cap l"
    using inv below read_rest read_ok read_len [of m "l_r l" d e r']
    by (auto simp: over_iff_def)
  then have "sint (len64 d) = int (length d)"
    using below sint64_upper [of "l_remaining l"] by (intro sint_len64) linarith
  then have "0 \<le> sint (l_remaining l - len64 d)"
    using below r by (subst sint64_sub_nonneg) auto
  then show ?thesis
    using inv below r limit_below [of l n d e r'] by (auto simp: over_iff_def)
qed (use inv in simp)

lemma limit_exceeded:
  assumes "reads (limitReader_Read rd) l l'" and "ok (l_r l)" and "\<not> l_exceeded l"
    and "0 \<le> sint (l_remaining l)" and "l_exceeded l'"
  shows "cap l < length (rest (l_r l))"
proof -
  have "over_iff l l"
    using assms by (simp add: over_iff_def)
  with assms(1) have "over_iff l l'"
    by (rule reads_invariant) (rule over_iff_read)
  then show ?thesis
    using assms(5) by (simp add: over_iff_def)
qed

lemma limit_raises:
  assumes "limitReader_Read rd n l = ((d, Some UploadTooLarge), l')" and "ok (l_r l)"
    and "fin (l_r l) \<noteq> UploadTooLarge"
  shows "l_exceeded l'"
  using assms(1)
proof (cases rule: limitReader_Read_cases)
  case (probe_end r')
  then show ?thesis
    using assms(2,3) probe_facts(1) [of "l_r l" "[]" _ r'] by auto
next
  case (below m r')
  then show ?thesis
    using assms(2,3) read_end [of "l_r l" m d UploadTooLarge r'] by auto
qed simp_all

end

section \<open>The body of an upload\<close>

text \<open>
  \<open>body := io.Reader(r.Body)\<close>, or the limit reader around it: the two dynamic types the
  interface value can have.
\<close>

datatype body = Plain source | Limited "source limitReader"

fun body_read :: "body read" where
  "body_read n (Plain s) = map_prod id Plain (source_read n s)"
| "body_read n (Limited l) = map_prod id Limited (limitReader_Read source_read n l)"

fun body_rest :: "body \<Rightarrow> bytes" where
  "body_rest (Plain s) = src_data s"
| "body_rest (Limited l) = lim_rest src_data l"

fun body_fin :: "body \<Rightarrow> goerr" where
  "body_fin (Plain s) = src_final s"
| "body_fin (Limited l) = lim_fin src_data src_final l"

fun exceeded :: "body \<Rightarrow> bool" where
  "exceeded (Plain s) = False"
| "exceeded (Limited l) = l_exceeded l"

interpretation lim: sticky_reader "limitReader_Read source_read" "lim_rest src_data"
  "lim_fin src_data src_final" "lim_ok (\<lambda>_. True)"
  by (rule src.limit_reader)

lemma lim_ok_True [simp]: "lim_ok (\<lambda>_. True) l"
  by (simp add: lim_ok_def)

lemma body_read_cases:
  assumes "body_read n b = ((d, e), b')"
  obtains (plain) s s' where "b = Plain s" "b' = Plain s'" "source_read n s = ((d, e), s')"
  | (limited) l l' where "b = Limited l" "b' = Limited l'"
      "limitReader_Read source_read n l = ((d, e), l')"
  using assms by (cases b) (auto simp: map_prod_def split: prod.splits)

interpretation bd: sticky_reader body_read body_rest body_fin "\<lambda>_. True"
proof
  fix n b d e b'
  assume "body_read n b = ((d, e), b')"
  then show "length d \<le> n"
    by (cases rule: body_read_cases) (auto dest: src.read_len lim.read_len)
next
  fix n b d b'
  assume "0 < n" and "body_read n b = ((d, None), b')"
  from this(2,1) show "d \<noteq> []"
    by (cases rule: body_read_cases) (auto dest: src.read_progress lim.read_progress)
next
  fix n b d b'
  assume "body_read n b = ((d, None), b')"
  then show "body_rest b = d @ body_rest b' \<and> body_fin b' = body_fin b"
    by (cases rule: body_read_cases) (auto dest: src.read_more lim.read_more)
next
  fix n b d x b'
  assume "body_read n b = ((d, Some x), b')"
  then show "body_rest b = d \<and> x = body_fin b \<and> body_rest b' = []"
    by (cases rule: body_read_cases) (auto dest: src.read_end [OF TrueI] lim.read_end [OF lim_ok_True])
next
  fix n b d x b'
  assume "body_read n b = ((d, Some x), b')"
  then show "body_fin b' = body_fin b"
    by (cases rule: body_read_cases) (auto dest: src.read_sticky [OF TrueI] lim.read_sticky [OF lim_ok_True])
qed simp

text \<open>\<open>io.ReadAll\<close> on a body, with its initial buffer of 512 bytes.\<close>

lemma body_read_shrinks:
  "((d, None), b') = body_read 512 b \<Longrightarrow> length (body_rest b') < length (body_rest b)"
  by (rule bd.read_shrinks [of 512 b d b']) simp_all

function body_drain :: "body \<Rightarrow> (bytes \<times> goerr) \<times> body" where
  "body_drain b =
     (case body_read 512 b of
        ((d, Some e), b') \<Rightarrow> ((d, e), b')
      | ((d, None), b') \<Rightarrow> (case body_drain b' of ((ds, e), b'') \<Rightarrow> ((d @ ds, e), b'')))"
  by pat_completeness auto
termination
  by (relation "measure (\<lambda>b. length (body_rest b))") (auto dest: body_read_shrinks)

declare body_drain.simps [simp del]

lemma body_drain_loop: "read_loop 512 body_read body_drain"
  unfolding read_loop_def by (intro allI) (rule body_drain.simps)

definition new_limitReader :: "source \<Rightarrow> int64 \<Rightarrow> source limitReader" where
  "new_limitReader s cap_bytes = \<lparr>l_r = s, l_remaining = cap_bytes, l_exceeded = False\<rparr>"

lemma limit_source_final:
  "limitReader_Read source_read n l = ((d, e), l') \<Longrightarrow> src_final (l_r l') = src_final (l_r l)"
  by (erule limitReader_Read_cases) (auto dest: src.read_fin [OF TrueI])

lemma body_reads_limited:
  assumes "reads body_read (Limited l) b"
  shows "\<exists>l'. b = Limited l' \<and> reads (limitReader_Read source_read) l l'"
  using assms
proof (induction "Limited l" b rule: reads.induct)
  case (reads_step b n d e b')
  then obtain l' where l': "b = Limited l'" "reads (limitReader_Read source_read) l l'"
    by blast
  from reads_step.hyps(3) obtain l'' where
    "b' = Limited l''" "limitReader_Read source_read n l' = ((d, e), l'')"
    by (cases rule: body_read_cases) (use l'(1) in auto)
  with l' show ?case
    by (auto intro: reads.reads_step)
qed (auto intro: reads_refl)

text \<open>A capped body delivers its first \<open>cap_bytes\<close> bytes; it ends with the size-limit error, and
  raises the flag the handler tests, exactly when it is longer than \<open>cap_bytes\<close>, however the
  network cuts it into reads.\<close>

theorem limitReader_caps_body:
  assumes "0 \<le> sint cap_bytes" and "src_final s \<noteq> UploadTooLarge"
  defines "over \<equiv> nat (sint cap_bytes) < length (src_data s)"
  shows "\<exists>b'. body_drain (Limited (new_limitReader s cap_bytes)) =
      ((take (nat (sint cap_bytes)) (src_data s), if over then UploadTooLarge else src_final s), b') \<and>
    exceeded b' = over"
proof -
  let ?l = "new_limitReader s cap_bytes"
  have rest: "body_rest (Limited ?l) = take (nat (sint cap_bytes)) (src_data s)"
    and fin: "body_fin (Limited ?l) = (if over then UploadTooLarge else src_final s)"
    by (simp_all add: new_limitReader_def lim_defs over_def)
  obtain b0 d b' where drain: "body_drain (Limited ?l) = ((body_rest (Limited ?l), body_fin (Limited ?l)), b')"
    and reads: "reads body_read (Limited ?l) b0"
    and last: "body_read 512 b0 = ((d, Some (body_fin (Limited ?l))), b')"
    using bd.read_loop_result [OF body_drain_loop, of "Limited ?l"] by auto
  obtain l0 l' where l: "b0 = Limited l0" "reads (limitReader_Read source_read) ?l l0" "b' = Limited l'"
    "limitReader_Read source_read 512 l0 = ((d, Some (body_fin (Limited ?l))), l')"
    using body_reads_limited [OF reads] last by (metis body_read_cases body.distinct(1) body.inject(2))
  have "src_final (l_r l0) = src_final s"
    by (rule reads_invariant [OF l(2), where P = "\<lambda>l. src_final (l_r l) = src_final s"])
      (auto simp: new_limitReader_def dest: limit_source_final)
  then have "over \<Longrightarrow> l_exceeded l'"
    using l(4) fin assms(2) src.limit_raises by simp
  moreover have "l_exceeded l' \<Longrightarrow> over"
    using src.limit_exceeded [OF reads_step [OF l(2,4)]] assms(1)
    by (simp add: over_def new_limitReader_def)
  ultimately show ?thesis
    using drain rest fin l(3) by auto
qed

theorem limitReader_caps_body_witness:
  "\<exists>b'. body_drain (Limited (new_limitReader
      \<lparr>src_data = [1, 2, 3, 4], src_final = EOF, src_sizes = [2, 1], src_eager = True\<rparr> 3)) =
    (([1, 2, 3], UploadTooLarge), b') \<and> exceeded b' = True"
  using limitReader_caps_body [of 3 "\<lparr>src_data = [1, 2, 3, 4], src_final = EOF, src_sizes = [2, 1], src_eager = True\<rparr>"]
  by simp

end
