(* ===== verification/UploadReader.thy ===== *)
theory UploadReader
  imports LimitReader
begin

text \<open>
  The reader stack that \<open>stage\<close> in \<open>internal/files/service.go\<close> builds over an upload body:
  \<open>bufio.NewReaderSize(io.TeeReader(body, hasher), sniffLen)\<close>.  \<open>tee_read\<close> is
  \<open>io.TeeReader\<close>, \<open>fill\<close>, \<open>peek\<close> and \<open>bufio_read\<close> are the methods of \<open>bufio.Reader\<close>
  with its buffer of 512 bytes and its saved error.  The stack delivers the body unchanged
  whatever was peeked, and the hasher has seen the whole body once it is drained.
\<close>

section \<open>The stack\<close>

definition sniffLen :: nat where
  "sniffLen = 512"

text \<open>The hasher is the bytes written to it; \<open>u_buf\<close> and \<open>u_err\<close> are the buffered reader's.\<close>

record uploadReader =
  u_body :: body
  u_hashed :: bytes
  u_buf :: bytes
  u_err :: "goerr option"

definition new_upload :: "body \<Rightarrow> uploadReader" where
  "new_upload b = \<lparr>u_body = b, u_hashed = [], u_buf = [], u_err = None\<rparr>"

definition tee_read :: "uploadReader read" where
  "tee_read n u =
     (case body_read n (u_body u) of
        ((d, e), b) \<Rightarrow> ((d, e), u\<lparr>u_body := b, u_hashed := u_hashed u @ d\<rparr>))"

definition fill :: "uploadReader \<Rightarrow> uploadReader" where
  "fill u =
     (case tee_read (sniffLen - length (u_buf u)) u of
        ((d, e), u') \<Rightarrow> u'\<lparr>u_buf := u_buf u @ d, u_err := e\<rparr>)"

definition bufio_read :: "uploadReader read" where
  "bufio_read n u =
     (if n = 0 then
        (if u_buf u \<noteq> [] then (([], None), u) else (([], u_err u), u\<lparr>u_err := None\<rparr>))
      else if u_buf u = [] then
        (if u_err u \<noteq> None then (([], u_err u), u\<lparr>u_err := None\<rparr>)
         else if sniffLen \<le> n then tee_read n u
         else (case tee_read sniffLen u of
                 ((d, e), u') \<Rightarrow>
                   if d = [] then (([], e), u')
                   else ((take n d, None), u'\<lparr>u_buf := drop n d, u_err := e\<rparr>)))
      else ((take n (u_buf u), None), u\<lparr>u_buf := drop n (u_buf u)\<rparr>))"

section \<open>What it delivers\<close>

definition up_rest :: "uploadReader \<Rightarrow> bytes" where
  "up_rest u = u_buf u @ body_rest (u_body u)"

definition up_fin :: "uploadReader \<Rightarrow> goerr" where
  "up_fin u = body_fin (u_body u)"

text \<open>A saved error is the end of the body.\<close>

definition up_ok :: "uploadReader \<Rightarrow> bool" where
  "up_ok u \<longleftrightarrow>
     (case u_err u of None \<Rightarrow> True | Some e \<Rightarrow> body_rest (u_body u) = [] \<and> e = body_fin (u_body u))"

text \<open>What the hasher has seen and what it is still to see.\<close>

definition up_whole :: "uploadReader \<Rightarrow> bytes" where
  "up_whole u = u_hashed u @ body_rest (u_body u)"

lemmas up_defs = up_rest_def up_fin_def up_ok_def up_whole_def

lemma tee_readE:
  assumes "tee_read n u = ((d, e), u')"
  obtains b where "body_read n (u_body u) = ((d, e), b)"
    "u' = u\<lparr>u_body := b, u_hashed := u_hashed u @ d\<rparr>"
  using assms by (auto simp: tee_read_def split: prod.splits)

lemma tee_read_facts:
  assumes "tee_read n u = ((d, e), u')"
  shows "body_rest (u_body u) = d @ body_rest (u_body u')" "up_fin u' = up_fin u"
    "up_whole u' = up_whole u" "u_buf u' = u_buf u" "u_err u' = u_err u" "length d \<le> n"
    "e = Some x \<Longrightarrow> x = up_fin u \<and> body_rest (u_body u') = []"
    "0 < n \<Longrightarrow> e = None \<Longrightarrow> d \<noteq> []"
    "reads body_read (u_body u) (u_body u')"
  using assms bd.read_rest [OF TrueI] bd.read_fin [OF TrueI] bd.read_len bd.read_progress
    bd.read_end [OF TrueI] reads_one [of body_read]
  by (auto elim!: tee_readE simp: up_defs) blast+

lemma tee_read_all:
  assumes "tee_read n u = ((d, e), u')"
  shows "body_rest (u_body u) = d @ body_rest (u_body u') \<and> up_fin u' = up_fin u \<and>
    up_whole u' = up_whole u \<and> u_buf u' = u_buf u \<and> u_err u' = u_err u \<and>
    reads body_read (u_body u) (u_body u') \<and>
    (e \<noteq> None \<longrightarrow> e = Some (up_fin u) \<and> body_rest (u_body u') = []) \<and>
    (0 < n \<and> e = None \<longrightarrow> d \<noteq> [])"
  using tee_read_facts [OF assms] by auto

text \<open>The five ways a read can go.\<close>

lemma bufio_read_cases:
  assumes "bufio_read n u = ((d, e), u')"
  obtains (nothing) "n = 0" "u_buf u \<noteq> []" "d = []" "e = None" "u' = u"
  | (saved) "u_buf u = []" "d = []" "e = u_err u" "u' = u\<lparr>u_err := None\<rparr>"
      "n = 0 \<or> u_err u \<noteq> None"
  | (direct) m where "u_buf u = []" "u_err u = None" "0 < m" "n \<noteq> 0" "tee_read m u = ((d, e), u')"
      "length d \<le> n"
  | (refill) b x v where "u_buf u = []" "u_err u = None" "tee_read sniffLen u = ((b, x), v)"
      "b \<noteq> []" "d = take n b" "n \<noteq> 0" "e = None" "u' = v\<lparr>u_buf := drop n b, u_err := x\<rparr>"
  | (buffered) "u_buf u \<noteq> []" "n \<noteq> 0" "d = take n (u_buf u)" "e = None"
      "u' = u\<lparr>u_buf := drop n (u_buf u)\<rparr>"
proof (cases "n \<noteq> 0 \<and> u_buf u = [] \<and> u_err u = None")
  case True
  show thesis
  proof (cases "sniffLen \<le> n")
    case True
    then show thesis
      using assms \<open>n \<noteq> 0 \<and> _\<close> tee_read_facts(6)
      by (intro direct [of n]) (auto simp: bufio_read_def)
  next
    case False
    obtain b x v where t: "tee_read sniffLen u = ((b, x), v)"
      by (metis surj_pair)
    then show thesis
      using assms False \<open>n \<noteq> 0 \<and> _\<close> direct [of sniffLen] refill [OF _ _ t]
      by (cases "b = []") (auto simp: bufio_read_def sniffLen_def)
  qed
next
  case other: False
  show thesis
  proof (cases "n = 0 \<and> u_buf u \<noteq> []")
    case True
    then have "n = 0" "u_buf u \<noteq> []" "d = []" "e = None" "u' = u"
      using assms by (auto simp: bufio_read_def)
    then show thesis by (rule nothing)
  next
    case False
    with other show thesis
      using assms by (auto simp: bufio_read_def split: if_splits intro: saved buffered)
  qed
qed

lemma bufio_read_facts:
  assumes "bufio_read n u = ((d, e), u')"
  shows "up_whole u' = up_whole u" "up_fin u' = up_fin u"
    "reads body_read (u_body u) (u_body u')"
  using assms
  by (cases rule: bufio_read_cases; auto simp: up_defs reads_refl dest!: tee_read_all)+

interpretation up: sticky_reader bufio_read up_rest up_fin up_ok
proof
  fix n u d e u'
  assume "bufio_read n u = ((d, e), u')"
  then show "length d \<le> n"
    by (cases rule: bufio_read_cases) auto
next
  fix n u d u'
  assume "0 < n" and "bufio_read n u = ((d, None), u')"
  from this(2,1) show "d \<noteq> []"
    by (cases rule: bufio_read_cases) (auto dest: tee_read_facts(8) simp: sniffLen_def)
next
  fix n u d u'
  assume "bufio_read n u = ((d, None), u')"
  then show "up_rest u = d @ up_rest u' \<and> up_fin u' = up_fin u"
    by (cases rule: bufio_read_cases)
      (auto simp: up_rest_def up_fin_def dest!: tee_read_all)
next
  fix n u d x u'
  assume "up_ok u" and "bufio_read n u = ((d, Some x), u')"
  from this(2,1) show "up_rest u = d \<and> x = up_fin u \<and> up_rest u' = []"
    by (cases rule: bufio_read_cases)
      (auto simp: up_rest_def up_fin_def up_ok_def split: option.splits dest!: tee_read_all)
next
  fix n u d e u'
  assume "up_ok u" and "bufio_read n u = ((d, e), u')"
  from this(2,1) show "up_ok u'"
    by (cases rule: bufio_read_cases)
      (auto simp: up_ok_def up_fin_def split: option.split dest!: tee_read_all)
next
  fix n u d x u'
  assume "bufio_read n u = ((d, Some x), u')"
  then show "up_fin u' = up_fin u"
    by (rule bufio_read_facts)
qed

section \<open>Peeking\<close>

lemma fill_shrinks:
  assumes "length (u_buf u) < sniffLen" and "u_err u = None"
  shows "(sniffLen - length (u_buf (fill u))) + (if u_err (fill u) = None then 1 else 0)
    < sniffLen - length (u_buf u) + 1"
proof -
  obtain d e u' where t: "tee_read (sniffLen - length (u_buf u)) u = ((d, e), u')"
    by (metis surj_pair)
  then show ?thesis
    using assms tee_read_facts(8) [OF t] by (cases d) (auto simp: fill_def)
qed

text \<open>\<open>Peek(sniffLen)\<close>: fill until the buffer is full or the body ends.\<close>

function peek_fill :: "uploadReader \<Rightarrow> uploadReader" where
  "peek_fill u =
     (if length (u_buf u) < sniffLen \<and> u_err u = None then peek_fill (fill u) else u)"
  by pat_completeness auto
termination
  by (relation "measure (\<lambda>u. (sniffLen - length (u_buf u)) + (if u_err u = None then 1 else 0))")
    (auto dest: fill_shrinks)

declare peek_fill.simps [simp del]

text \<open>A short peek returns, and forgets, the saved error.\<close>

definition peek :: "uploadReader \<Rightarrow> bytes \<times> uploadReader" where
  "peek u =
     (let u' = peek_fill u
      in (take sniffLen (u_buf u'),
          if length (u_buf u') < sniffLen then u'\<lparr>u_err := None\<rparr> else u'))"

definition peek_kept :: "uploadReader \<Rightarrow> uploadReader \<Rightarrow> bool" where
  "peek_kept u u' \<longleftrightarrow> up_rest u' = up_rest u \<and> up_fin u' = up_fin u \<and> up_whole u' = up_whole u \<and>
     reads body_read (u_body u) (u_body u') \<and> (up_ok u \<longrightarrow> up_ok u')"

lemma peek_kept_refl: "peek_kept u u"
  by (simp add: peek_kept_def reads_refl)

lemma peek_kept_trans: "peek_kept u v \<Longrightarrow> peek_kept v w \<Longrightarrow> peek_kept u w"
  by (auto simp: peek_kept_def intro: reads_trans)

lemma fill_kept: "u_err u = None \<Longrightarrow> peek_kept u (fill u)"
proof -
  assume "u_err u = None"
  obtain d e u' where t: "tee_read (sniffLen - length (u_buf u)) u = ((d, e), u')"
    by (metis surj_pair)
  show ?thesis
    using tee_read_facts [OF t] t
    by (auto simp: peek_kept_def fill_def up_defs split: option.split)
qed

lemma peek_fill_kept: "peek_kept u (peek_fill u)"
proof (induction u rule: peek_fill.induct)
  case (1 u)
  then show ?case
    by (subst peek_fill.simps) (auto intro: peek_kept_refl peek_kept_trans fill_kept)
qed

lemma peek_fill_full: "sniffLen \<le> length (u_buf (peek_fill u)) \<or> u_err (peek_fill u) \<noteq> None"
proof (induction u rule: peek_fill.induct)
  case (1 u)
  then show ?case
    by (cases "length (u_buf u) < sniffLen \<and> u_err u = None") (auto simp: peek_fill.simps [of u])
qed

text \<open>Peeking sees the first 512 bytes of the body, and leaves the body to be read.\<close>

lemma peek_result:
  assumes "up_ok u"
  shows "fst (peek u) = take sniffLen (up_rest u)" "peek_kept u (snd (peek u))"
proof -
  let ?v = "peek_fill u"
  have v: "peek_kept u ?v" "up_ok ?v" "up_rest ?v = up_rest u"
    using peek_fill_kept [of u] assms by (auto simp: peek_kept_def)
  show "peek_kept u (snd (peek u))"
    using v assms by (auto simp: peek_def Let_def peek_kept_def up_defs)
  have "take sniffLen (u_buf ?v) = take sniffLen (up_rest ?v)"
    using peek_fill_full [of u] v(2) by (auto simp: up_rest_def up_ok_def)
  then show "fst (peek u) = take sniffLen (up_rest u)"
    using v(3) by (simp add: peek_def Let_def)
qed

section \<open>Draining the stack\<close>

lemma bufio_read_shrinks:
  "((d, None), u') = bufio_read 512 u \<Longrightarrow> length (up_rest u') < length (up_rest u)"
  by (rule up.read_shrinks [of 512 u d u']) simp_all

text \<open>\<open>io.ReadAll\<close>, with its initial buffer of 512 bytes.\<close>

function upload_drain :: "uploadReader \<Rightarrow> (bytes \<times> goerr) \<times> uploadReader" where
  "upload_drain u =
     (case bufio_read 512 u of
        ((d, Some e), u') \<Rightarrow> ((d, e), u')
      | ((d, None), u') \<Rightarrow> (case upload_drain u' of ((ds, e), u'') \<Rightarrow> ((d @ ds, e), u'')))"
  by pat_completeness auto
termination
  by (relation "measure (\<lambda>u. length (up_rest u))") (auto dest: bufio_read_shrinks)

declare upload_drain.simps [simp del]

definition upload_ReadAll :: "uploadReader \<Rightarrow> (bytes \<times> goerr option) \<times> uploadReader" where
  "upload_ReadAll u = (case upload_drain u of ((d, e), u') \<Rightarrow> ((d, eof_nil e), u'))"

lemma upload_drain_loop: "read_loop 512 bufio_read upload_drain"
  unfolding read_loop_def by (intro allI) (rule upload_drain.simps)

lemma upload_ReadAll_result:
  assumes "up_ok u"
  shows "\<exists>u'. upload_ReadAll u = ((up_rest u, eof_nil (up_fin u)), u') \<and>
    reads bufio_read u u' \<and> up_rest u' = []"
proof -
  obtain u0 d u' where "upload_drain u = ((up_rest u, up_fin u), u')" "reads bufio_read u u0"
    "bufio_read 512 u0 = ((d, Some (up_fin u)), u')" "up_rest u' = []"
    using up.read_loop_result [OF upload_drain_loop _ assms] by auto
  then show ?thesis
    by (auto simp: upload_ReadAll_def intro: reads_step)
qed

lemma upload_reads_facts:
  assumes "reads bufio_read u u'"
  shows "up_whole u' = up_whole u" "up_fin u' = up_fin u" "reads body_read (u_body u) (u_body u')"
  using assms
  by (induction rule: reads.induct)
    (auto simp: reads_refl bufio_read_facts(1,2) intro: reads_trans bufio_read_facts(3))

text \<open>Once nothing is left to deliver, the hasher has seen the whole body.\<close>

lemma hashed_whole: "up_rest u = [] \<Longrightarrow> u_hashed u = up_whole u"
  by (simp add: up_rest_def up_whole_def)

lemma new_upload_facts [simp]:
  "up_rest (new_upload b) = body_rest b" "up_fin (new_upload b) = body_fin b"
  "up_ok (new_upload b)" "up_whole (new_upload b) = body_rest b" "u_body (new_upload b) = b"
  by (simp_all add: new_upload_def up_defs)

section \<open>Telling a size violation from other failures\<close>

fun body_source :: "body \<Rightarrow> source" where
  "body_source (Plain s) = s"
| "body_source (Limited l) = l_r l"

text \<open>A size-limit error that the stack has saved has raised the flag below it.\<close>

definition told :: "uploadReader \<Rightarrow> bool" where
  "told u \<longleftrightarrow> src_final (body_source (u_body u)) \<noteq> UploadTooLarge \<and>
     (u_err u = Some UploadTooLarge \<longrightarrow> exceeded (u_body u))"

lemma body_read_tells:
  assumes "body_read n b = ((d, e), b')" and "src_final (body_source b) \<noteq> UploadTooLarge"
  shows "src_final (body_source b') \<noteq> UploadTooLarge" "e = Some UploadTooLarge \<Longrightarrow> exceeded b'"
    "exceeded b \<Longrightarrow> exceeded b'"
  using assms
proof (atomize (full), cases rule: body_read_cases [OF assms(1)])
  case (1 s s')
  then show "src_final (body_source b') \<noteq> UploadTooLarge \<and> (e = Some UploadTooLarge \<longrightarrow> exceeded b') \<and>
      (exceeded b \<longrightarrow> exceeded b')"
    using assms src.read_fin [OF TrueI, of n s d e s'] src.read_end [OF TrueI, of n s d _ s'] by auto
next
  case (2 l l')
  have "l_exceeded l \<Longrightarrow> l_exceeded l'"
    using 2(3) by (cases rule: limitReader_Read_cases) auto
  then show "src_final (body_source b') \<noteq> UploadTooLarge \<and> (e = Some UploadTooLarge \<longrightarrow> exceeded b') \<and>
      (exceeded b \<longrightarrow> exceeded b')"
    using assms 2 limit_source_final [of n l d e l'] src.limit_raises [of n l d l'] by auto
qed

lemma tee_read_tells:
  assumes "tee_read n u = ((d, e), u')" and "told u"
  shows "told u'" "e = Some UploadTooLarge \<Longrightarrow> exceeded (u_body u')"
    "u_err u' = u_err u" "src_final (body_source (u_body u')) \<noteq> UploadTooLarge"
  using assms body_read_tells by (auto simp: told_def elim!: tee_readE)

lemma bufio_read_tells:
  assumes "bufio_read n u = ((d, e), u')" and "told u"
  shows "told u' \<and> (e = Some UploadTooLarge \<longrightarrow> exceeded (u_body u'))"
  using assms(1)
proof (cases rule: bufio_read_cases)
  case (refill b x v)
  then show ?thesis
    using tee_read_tells [OF refill(3) assms(2)] by (simp add: told_def)
qed (use assms(2) tee_read_tells in \<open>auto simp: told_def\<close>)

lemma fill_tells: "told u \<Longrightarrow> told (fill u)"
  using tee_read_tells [of "sniffLen - length (u_buf u)" u]
  by (auto simp: fill_def told_def split: prod.splits)

lemma peek_tells: "told u \<Longrightarrow> told (snd (peek u))"
proof -
  assume "told u"
  then have "told (peek_fill u)"
  proof (induction u rule: peek_fill.induct)
    case (1 u)
    then show ?case
      by (subst peek_fill.simps) (simp add: fill_tells)
  qed
  then show ?thesis
    by (simp add: peek_def Let_def told_def)
qed

lemma drain_tells:
  "upload_drain u = ((d, e), u') \<Longrightarrow> told u \<Longrightarrow> e = UploadTooLarge \<Longrightarrow> exceeded (u_body u')"
proof (induction u arbitrary: d e u' rule: upload_drain.induct)
  case (1 u)
  obtain b x v where r: "bufio_read 512 u = ((b, x), v)"
    by (metis surj_pair)
  note tells = bufio_read_tells [OF r "1.prems"(2)]
  show ?case
  proof (cases x)
    case None
    then obtain ds y where "upload_drain v = ((ds, y), u')" "y = e"
      using "1.prems"(1) r by (subst (asm) upload_drain.simps) (auto split: prod.splits)
    then show ?thesis
      using "1.IH" [OF r [symmetric]] None tells "1.prems"(3) by auto
  next
    case (Some y)
    then show ?thesis
      using "1.prems" r tells by (subst (asm) upload_drain.simps) auto
  qed
qed

lemma ReadAll_tells:
  "upload_ReadAll u = ((d, Some UploadTooLarge), u') \<Longrightarrow> told u \<Longrightarrow> exceeded (u_body u')"
  by (auto simp: upload_ReadAll_def eof_nil_def drain_tells split: prod.splits if_splits)

lemma new_upload_tells: "src_final (body_source b) \<noteq> UploadTooLarge \<Longrightarrow> told (new_upload b)"
  by (simp add: new_upload_def told_def)

text \<open>And the flag is raised only by a body that is longer than the cap.\<close>

lemma exceeded_over:
  assumes "reads body_read (Limited (new_limitReader s cap_bytes)) b" and "exceeded b"
    and "0 \<le> sint cap_bytes"
  shows "nat (sint cap_bytes) < length (src_data s)"
proof -
  obtain l where "b = Limited l" "reads (limitReader_Read source_read) (new_limitReader s cap_bytes) l"
    using body_reads_limited [OF assms(1)] by blast
  then show ?thesis
    using src.limit_exceeded [of "new_limitReader s cap_bytes" l] assms(2,3)
    by (simp add: new_limitReader_def)
qed

text \<open>Sniffing does not disturb the upload: the sniffed head is the body's first 512
  bytes, the store then receives the whole body, and the hasher has seen exactly what the
  store received, however the network cuts the body into reads.\<close>

theorem sniff_then_drain:
  "\<exists>u. upload_ReadAll (snd (peek (new_upload b))) = ((body_rest b, eof_nil (body_fin b)), u) \<and>
    fst (peek (new_upload b)) = take 512 (body_rest b) \<and> u_hashed u = body_rest b"
proof -
  let ?p = "snd (peek (new_upload b))"
  have p: "fst (peek (new_upload b)) = take 512 (body_rest b)" "peek_kept (new_upload b) ?p"
    using peek_result [of "new_upload b"] by (simp_all add: sniffLen_def)
  then have "up_ok ?p" "up_rest ?p = body_rest b" "up_fin ?p = body_fin b" "up_whole ?p = body_rest b"
    by (simp_all add: peek_kept_def)
  moreover from this obtain u where "upload_ReadAll ?p = ((up_rest ?p, eof_nil (up_fin ?p)), u)"
    "reads bufio_read ?p u" "up_rest u = []"
    using upload_ReadAll_result by blast
  ultimately show ?thesis
    using p(1) hashed_whole [of u] upload_reads_facts(1) [of ?p u] by auto
qed

end
