(* ===== verification/VerifyReader.thy ===== *)
theory VerifyReader
  imports IoReader GoStd
begin

text \<open>
  \<open>internal/files/verify.go\<close>: the reader that hashes an object while it streams and turns
  the end of the stream into \<open>ChecksumMismatch\<close> when the hash is not the recorded one.
  \<open>crypto/sha256\<close> is a parameter \<open>sha256\<close> of the definitions: no property depends on which
  function it is.  \<open>hash.Hash\<close> is the bytes written to it so far.
\<close>

section \<open>The reader\<close>

record verifyingReader =
  v_rc :: source
  v_h :: bytes
  v_want :: string
  v_checked :: bool

definition verifyingReader_Read :: "(bytes \<Rightarrow> bytes) \<Rightarrow> verifyingReader read" where
  "verifyingReader_Read sha256 n v =
     (case source_read n (v_rc v) of
        ((d, err), rc) \<Rightarrow>
          let v = v\<lparr>v_rc := rc, v_h := v_h v @ d\<rparr>
          in if err = Some EOF \<and> \<not> v_checked v
             then let v = v\<lparr>v_checked := True\<rparr>
                  in if hex_encode (sha256 (v_h v)) \<noteq> v_want v
                     then ((d, Some ChecksumMismatch), v)
                     else ((d, err), v)
             else ((d, err), v))"

text \<open>The two dynamic types of the \<open>io.ReadCloser\<close> that \<open>newVerifyingReader\<close> returns.\<close>

datatype download = Raw source | Verifying verifyingReader

definition newVerifyingReader :: "source \<Rightarrow> string \<Rightarrow> download" where
  "newVerifyingReader rc want =
     (if want = '''' then Raw rc
      else Verifying \<lparr>v_rc = rc, v_h = [], v_want = want, v_checked = False\<rparr>)"

fun download_read :: "(bytes \<Rightarrow> bytes) \<Rightarrow> download read" where
  "download_read sha256 n (Raw s) = map_prod id Raw (source_read n s)"
| "download_read sha256 n (Verifying v) = map_prod id Verifying (verifyingReader_Read sha256 n v)"

section \<open>What it delivers\<close>

definition v_rest :: "verifyingReader \<Rightarrow> bytes" where
  "v_rest v = src_data (v_rc v)"

definition v_fin :: "(bytes \<Rightarrow> bytes) \<Rightarrow> verifyingReader \<Rightarrow> goerr" where
  "v_fin sha256 v =
     (if src_final (v_rc v) = EOF \<and> \<not> v_checked v \<and>
         hex_encode (sha256 (v_h v @ src_data (v_rc v))) \<noteq> v_want v
      then ChecksumMismatch else src_final (v_rc v))"

interpretation ver: io_reader "verifyingReader_Read sha256" v_rest "v_fin sha256" "\<lambda>_. True"
  for sha256
proof
  fix n v d e v'
  assume "verifyingReader_Read sha256 n v = ((d, e), v')"
  then show "length d \<le> n"
    by (auto simp: verifyingReader_Read_def Let_def split: prod.splits if_splits dest: src.read_len)
next
  fix n v d v'
  assume "0 < n" and "verifyingReader_Read sha256 n v = ((d, None), v')"
  then show "d \<noteq> []"
    by (auto simp: verifyingReader_Read_def Let_def split: prod.splits if_splits
        dest: src.read_progress [rotated])
next
  fix n v d v'
  assume "verifyingReader_Read sha256 n v = ((d, None), v')"
  then obtain rc where rc: "source_read n (v_rc v) = ((d, None), rc)"
    "v' = v\<lparr>v_rc := rc, v_h := v_h v @ d\<rparr>"
    by (auto simp: verifyingReader_Read_def Let_def split: prod.splits if_splits)
  then show "v_rest v = d @ v_rest v' \<and> v_fin sha256 v' = v_fin sha256 v"
    using src.read_more [OF rc(1)] by (simp add: v_rest_def v_fin_def)
next
  fix n v d x v'
  assume eq: "verifyingReader_Read sha256 n v = ((d, Some x), v')"
  then obtain y rc where rc: "source_read n (v_rc v) = ((d, Some y), rc)" "v_rc v' = rc"
    by (auto simp: verifyingReader_Read_def Let_def split: prod.splits if_splits)
  then have "src_data (v_rc v) = d" "y = src_final (v_rc v)" "src_data rc = []"
    using src.read_end [OF TrueI rc(1)] by auto
  with eq rc show "v_rest v = d \<and> x = v_fin sha256 v \<and> v_rest v' = []"
    by (auto simp: verifyingReader_Read_def v_rest_def v_fin_def Let_def split: if_splits)
qed simp

fun download_rest :: "download \<Rightarrow> bytes" where
  "download_rest (Raw s) = src_data s"
| "download_rest (Verifying v) = v_rest v"

fun download_fin :: "(bytes \<Rightarrow> bytes) \<Rightarrow> download \<Rightarrow> goerr" where
  "download_fin sha256 (Raw s) = src_final s"
| "download_fin sha256 (Verifying v) = v_fin sha256 v"

lemma download_read_cases:
  assumes "download_read sha256 n b = ((d, e), b')"
  obtains (raw) s s' where "b = Raw s" "b' = Raw s'" "source_read n s = ((d, e), s')"
  | (verifying) v v' where "b = Verifying v" "b' = Verifying v'"
      "verifyingReader_Read sha256 n v = ((d, e), v')"
  using assms by (cases b) (auto simp: map_prod_def split: prod.splits)

interpretation dl: io_reader "download_read sha256" download_rest "download_fin sha256" "\<lambda>_. True"
  for sha256
proof
  fix n b d e b'
  assume "download_read sha256 n b = ((d, e), b')"
  then show "length d \<le> n"
    by (cases rule: download_read_cases) (auto dest: src.read_len ver.read_len)
next
  fix n b d b'
  assume "0 < n" and "download_read sha256 n b = ((d, None), b')"
  from this(2,1) show "d \<noteq> []"
    by (cases rule: download_read_cases) (auto dest: src.read_progress ver.read_progress)
next
  fix n b d b'
  assume "download_read sha256 n b = ((d, None), b')"
  then show "download_rest b = d @ download_rest b' \<and> download_fin sha256 b' = download_fin sha256 b"
    by (cases rule: download_read_cases) (auto dest: src.read_more ver.read_more)
next
  fix n b d x b'
  assume "download_read sha256 n b = ((d, Some x), b')"
  then show "download_rest b = d \<and> x = download_fin sha256 b \<and> download_rest b' = []"
    by (cases rule: download_read_cases)
      (auto dest: src.read_end [OF TrueI] ver.read_end [OF TrueI])
qed simp

section \<open>Copying a download out\<close>

text \<open>\<open>io.Copy(w, rc)\<close>, with its buffer of 32 KiB: the bytes written and the error.\<close>

lemma download_read_shrinks:
  "((d, None), b') = download_read sha256 32768 b \<Longrightarrow>
    length (download_rest b') < length (download_rest b)"
  by (rule dl.read_shrinks [of 32768 sha256 b d b']) simp_all

function download_drain :: "(bytes \<Rightarrow> bytes) \<Rightarrow> download \<Rightarrow> (bytes \<times> goerr) \<times> download" where
  "download_drain sha256 b =
     (case download_read sha256 32768 b of
        ((d, Some e), b') \<Rightarrow> ((d, e), b')
      | ((d, None), b') \<Rightarrow>
          (case download_drain sha256 b' of ((ds, e), b'') \<Rightarrow> ((d @ ds, e), b'')))"
  by pat_completeness auto
termination
  by (relation "measure (\<lambda>(sha256, b). length (download_rest b))")
    (auto dest: download_read_shrinks)

declare download_drain.simps [simp del]

definition io_Copy :: "(bytes \<Rightarrow> bytes) \<Rightarrow> download \<Rightarrow> bytes \<times> goerr option" where
  "io_Copy sha256 b = (case download_drain sha256 b of ((d, e), _) \<Rightarrow> (d, eof_nil e))"

lemma download_drain_loop: "read_loop 32768 (download_read sha256) (download_drain sha256)"
  unfolding read_loop_def by (intro allI) (rule download_drain.simps)

lemma io_Copy_result [simp]:
  "io_Copy sha256 b = (download_rest b, eof_nil (download_fin sha256 b))"
  using dl.read_loop_result [OF download_drain_loop [of sha256], where r = b]
  by (auto simp: io_Copy_def)

text \<open>A download delivers all the object's bytes, and it reports a checksum mismatch
  exactly when the stream ended cleanly, a checksum is on record and the bytes do not hash
  to it.\<close>

theorem verified_copy:
  "io_Copy sha256 (newVerifyingReader rc want) =
    (src_data rc,
     if src_final rc \<noteq> EOF then Some (src_final rc)
     else if want \<noteq> '''' \<and> hex_encode (sha256 (src_data rc)) \<noteq> want then Some ChecksumMismatch
     else None)"
  by (simp add: newVerifyingReader_def v_rest_def v_fin_def eof_nil_def)

text \<open>The mismatch is reported once: whoever reads on after it sees a plain end of stream.\<close>

theorem mismatch_reported_once:
  assumes "verifyingReader_Read sha256 n v = ((d, Some ChecksumMismatch), v')"
    and "src_final (v_rc v) = EOF" and "0 < m"
  shows "verifyingReader_Read sha256 m v' = (([], Some EOF), v')"
  using assms ver.read_end [OF TrueI assms(1)]
  by (auto simp: verifyingReader_Read_def Let_def v_rest_def source_read_def
      split: prod.splits if_splits)

theorem mismatch_reported_once_witness:
  "verifyingReader_Read (\<lambda>bs. bs) 4
      \<lparr>v_rc = \<lparr>src_data = [], src_final = EOF, src_sizes = [], src_eager = True\<rparr>,
       v_h = [7], v_want = ''x'', v_checked = True\<rparr> =
    (([], Some EOF),
      \<lparr>v_rc = \<lparr>src_data = [], src_final = EOF, src_sizes = [], src_eager = True\<rparr>,
       v_h = [7], v_want = ''x'', v_checked = True\<rparr>)"
proof (rule mismatch_reported_once)
  show "verifyingReader_Read (\<lambda>bs. bs) 512
      \<lparr>v_rc = \<lparr>src_data = [7], src_final = EOF, src_sizes = [], src_eager = True\<rparr>,
       v_h = [], v_want = ''x'', v_checked = False\<rparr> =
    (([7], Some ChecksumMismatch),
      \<lparr>v_rc = \<lparr>src_data = [], src_final = EOF, src_sizes = [], src_eager = True\<rparr>,
       v_h = [7], v_want = ''x'', v_checked = True\<rparr>)"
    by (simp add: verifyingReader_Read_def source_read_def Let_def)
qed simp_all

end
