(* ===== verification/FilesService.thy ===== *)
theory FilesService
  imports Storage Metadata UploadReader VerifyReader
begin

text \<open>
  \<open>internal/files\<close>: the service layer.  \<open>service\<close> is the struct \<open>Service\<close>, a storage
  backend and a repository; \<open>world\<close> is the state both work on, with the supply of UUIDs.
  Every method of \<open>service.go\<close> and \<open>idempotency.go\<close> is a definition of its name that
  threads the world; the upload methods also return what is left of the request body, which
  the handler asks for its size violation.

  The libraries the methods call are the record \<open>libs\<close>: \<open>crypto/sha256\<close>,
  \<open>http.DetectContentType\<close> and the success of \<open>uuid.Parse\<close>; no property depends on which
  functions they are.  The lemmas are proved in the locale \<open>file_service\<close> from the contracts
  of the two interfaces.
\<close>

section \<open>State\<close>

record libs =
  lib_sha256 :: "bytes \<Rightarrow> bytes"
  lib_DetectContentType :: "bytes \<Rightarrow> string"
  lib_uuid_ok :: "string \<Rightarrow> bool"

record ('s, 'd) world =
  w_store :: 's
  w_repo :: 'd
  w_uuids :: "nat \<Rightarrow> string res"
  w_next :: nat

record ('s, 'd, 'c) service =
  sv_backend :: "('s, uploadReader, 'c) backend"
  sv_repo :: "'d repository"

definition files_New :: "('s, uploadReader, 'c) backend \<Rightarrow> 'd repository \<Rightarrow> ('s, 'd, 'c) service" where
  "files_New backend repo = \<lparr>sv_backend = backend, sv_repo = repo\<rparr>"

record uploadInput =
  in_Filename :: string
  in_ContentType :: string
  in_Size :: int64
  in_Tags :: "tags option"
  in_Body :: body

text \<open>The zero \<open>time.Time\<close>, year 1, in nanoseconds.\<close>

definition zero_time :: int where
  "zero_time = - 62135596800000000000"

definition on_repo :: "('d \<Rightarrow> 'a \<times> 'd) \<Rightarrow> ('s, 'd) world \<Rightarrow> 'a \<times> ('s, 'd) world" where
  "on_repo m w = (case m (w_repo w) of (x, d) \<Rightarrow> (x, w\<lparr>w_repo := d\<rparr>))"

definition on_store :: "('s \<Rightarrow> 'a \<times> 's) \<Rightarrow> ('s, 'd) world \<Rightarrow> 'a \<times> ('s, 'd) world" where
  "on_store m w = (case m (w_store w) of (x, s) \<Rightarrow> (x, w\<lparr>w_store := s\<rparr>))"

section \<open>The read and edit paths\<close>

definition translateNotFound :: "goerr \<Rightarrow> goerr" where
  "translateNotFound e =
     (if errors_is e MetadataNotFound \<or> errors_is e StorageNotFound then FilesNotFound else e)"

definition newID :: "('s, 'd) world \<Rightarrow> string res \<times> ('s, 'd) world" where
  "newID w = (w_uuids w (w_next w), w\<lparr>w_next := Suc (w_next w)\<rparr>)"

definition validID :: "libs \<Rightarrow> string \<Rightarrow> bool" where
  "validID L i = lib_uuid_ok L i"

definition Service_Metadata ::
  "libs \<Rightarrow> ('s, 'd, 'c) service \<Rightarrow> string \<Rightarrow> ('s, 'd) world \<Rightarrow> File res \<times> ('s, 'd) world" where
  "Service_Metadata L sv i w =
     (if \<not> validID L i then (Inl InvalidID, w)
      else case on_repo (r_Get (sv_repo sv) i) w of
             (Inl e, w') \<Rightarrow> (Inl (translateNotFound e), w')
           | (Inr f, w') \<Rightarrow> (Inr f, w'))"

definition Service_Presign ::
  "libs \<Rightarrow> ('s, 'd, 'c) service \<Rightarrow> string \<Rightarrow> int64 \<Rightarrow> ('s, 'd) world \<Rightarrow>
    (File \<times> string) res \<times> ('s, 'd) world" where
  "Service_Presign L sv i ttl w =
     (case Service_Metadata L sv i w of
        (Inl e, w1) \<Rightarrow> (Inl e, w1)
      | (Inr f, w1) \<Rightarrow>
          (case on_store (b_PresignGet (sv_backend sv) (f_StorageKey f) ttl) w1 of
             (Inl e, w2) \<Rightarrow> (Inl (Wrapped ''files: presign'' e), w2)
           | (Inr url, w2) \<Rightarrow> (Inr (f, url), w2)))"

definition Service_Open ::
  "libs \<Rightarrow> ('s, 'd, 'c) service \<Rightarrow> string \<Rightarrow> ('s, 'd) world \<Rightarrow>
    (File \<times> download) res \<times> ('s, 'd) world" where
  "Service_Open L sv i w =
     (case Service_Metadata L sv i w of
        (Inl e, w1) \<Rightarrow> (Inl e, w1)
      | (Inr f, w1) \<Rightarrow>
          (case on_store (b_Get (sv_backend sv) (f_StorageKey f)) w1 of
             (Inl e, w2) \<Rightarrow> (Inl (translateNotFound e), w2)
           | (Inr rc, w2) \<Rightarrow> (Inr (f, newVerifyingReader rc (f_Checksum f)), w2)))"

definition Service_OpenRange ::
  "('s, 'd, 'c) service \<Rightarrow> File \<Rightarrow> int64 \<Rightarrow> int64 \<Rightarrow> ('s, 'd) world \<Rightarrow> source res \<times> ('s, 'd) world" where
  "Service_OpenRange sv f off len w =
     (case on_store (b_GetRange (sv_backend sv) (f_StorageKey f) off len) w of
        (Inl e, w') \<Rightarrow> (Inl (translateNotFound e), w')
      | (Inr rc, w') \<Rightarrow> (Inr rc, w'))"

definition Service_List ::
  "libs \<Rightarrow> ('s, 'd, 'c) service \<Rightarrow> listFilter \<Rightarrow> ('s, 'd) world \<Rightarrow> File list res \<times> ('s, 'd) world" where
  "Service_List L sv flt w =
     (if lf_Cursor flt \<noteq> '''' \<and> \<not> validID L (lf_Cursor flt) then (Inl InvalidID, w)
      else case on_repo (r_List (sv_repo sv) flt) w of
             (Inl e, w') \<Rightarrow> (Inl (Wrapped ''files: list'' e), w')
           | (Inr fs, w') \<Rightarrow> (Inr fs, w'))"

definition Service_UpdateMetadata ::
  "libs \<Rightarrow> ('s, 'd, 'c) service \<Rightarrow> string \<Rightarrow> tags \<Rightarrow> bool \<Rightarrow> ('s, 'd) world \<Rightarrow>
    File res \<times> ('s, 'd) world" where
  "Service_UpdateMetadata L sv i tags merge w =
     (if \<not> validID L i then (Inl InvalidID, w)
      else case on_repo (r_UpdateMetadata (sv_repo sv) i tags merge) w of
             (Inl e, w') \<Rightarrow> (Inl (translateNotFound e), w')
           | (Inr f, w') \<Rightarrow> (Inr f, w'))"

definition Service_Delete ::
  "libs \<Rightarrow> ('s, 'd, 'c) service \<Rightarrow> string \<Rightarrow> ('s, 'd) world \<Rightarrow> unit res \<times> ('s, 'd) world" where
  "Service_Delete L sv i w =
     (if \<not> validID L i then (Inl InvalidID, w)
      else case on_repo (r_Delete (sv_repo sv) i) w of
             (Inl e, w') \<Rightarrow> (Inl (translateNotFound e), w')
           | (Inr _, w') \<Rightarrow> (Inr (), w'))"

section \<open>The write path\<close>

text \<open>The content type of the request, or what its first 512 bytes look like.\<close>

definition sniff :: "libs \<Rightarrow> uploadInput \<Rightarrow> uploadReader \<Rightarrow> string \<times> uploadReader" where
  "sniff L inp src =
     (if in_ContentType inp = '''' then
        (case peek src of (head, src') \<Rightarrow> (lib_DetectContentType L head, src'))
      else (in_ContentType inp, src))"

definition drop_object :: "('s, 'd, 'c) service \<Rightarrow> string \<Rightarrow> ('s, 'd) world \<Rightarrow> ('s, 'd) world" where
  "drop_object sv key w = snd (on_store (b_Delete (sv_backend sv) key) w)"

text \<open>An unknown length is read back from the store; failing that, the object is dropped.\<close>

definition resolve_size ::
  "('s, 'd, 'c) service \<Rightarrow> int64 \<Rightarrow> string \<Rightarrow> ('s, 'd) world \<Rightarrow> int64 res \<times> ('s, 'd) world" where
  "resolve_size sv sz key w =
     (if sz <s 0 then
        (case on_store (b_Stat (sv_backend sv) key) w of
           (Inl e, w') \<Rightarrow> (Inl (Wrapped ''files: resolve size'' e), drop_object sv key w')
         | (Inr info, w') \<Rightarrow> (Inr (i_size info), w'))
      else (Inr sz, w))"

definition stage ::
  "libs \<Rightarrow> ('s, 'd, 'c) service \<Rightarrow> uploadInput \<Rightarrow> ('s, 'd) world \<Rightarrow>
    File res \<times> body \<times> ('s, 'd) world" where
  "stage L sv inp w =
     (case newID w of
        (Inl e, w1) \<Rightarrow> (Inl (Wrapped ''files: generate id'' e), in_Body inp, w1)
      | (Inr i, w1) \<Rightarrow>
     (case newID w1 of
        (Inl e, w2) \<Rightarrow> (Inl (Wrapped ''files: generate key'' e), in_Body inp, w2)
      | (Inr key, w2) \<Rightarrow>
     (case sniff L inp (new_upload (in_Body inp)) of
        (contentType, src) \<Rightarrow>
     (case b_Put (sv_backend sv) key src (in_Size inp) contentType (w_store w2) of
        (Inl e, src', s) \<Rightarrow>
          (Inl (Wrapped ''files: store object'' e), u_body src', w2\<lparr>w_store := s\<rparr>)
      | (Inr _, src', s) \<Rightarrow>
     (case resolve_size sv (in_Size inp) key (w2\<lparr>w_store := s\<rparr>) of
        (Inl e, w3) \<Rightarrow> (Inl e, u_body src', w3)
      | (Inr sz, w3) \<Rightarrow>
          (Inr \<lparr>f_ID = i, f_StorageKey = key,
             f_Filename = (if in_Filename inp = '''' then i else in_Filename inp),
             f_ContentType = contentType, f_SizeBytes = sz,
             f_Checksum = hex_encode (lib_sha256 L (u_hashed src')),
             f_Metadata = in_Tags inp, f_CreatedAt = zero_time, f_UpdatedAt = None,
             f_DeletedAt = None\<rparr>,
           u_body src', w3))))))"

definition Service_Upload ::
  "libs \<Rightarrow> ('s, 'd, 'c) service \<Rightarrow> uploadInput \<Rightarrow> ('s, 'd) world \<Rightarrow>
    File res \<times> body \<times> ('s, 'd) world" where
  "Service_Upload L sv inp w =
     (case stage L sv inp w of
        (Inl e, b, w1) \<Rightarrow> (Inl e, b, w1)
      | (Inr f, b, w1) \<Rightarrow>
          (case on_repo (r_Create (sv_repo sv) f) w1 of
             (Inl e, w2) \<Rightarrow>
               (Inl (Wrapped ''files: commit metadata'' e), b,
                drop_object sv (f_StorageKey f) w2)
           | (Inr g, w2) \<Rightarrow> (Inr g, b, w2)))"

text \<open>
  Somebody else owns the key: their file when their upload has finished and it still exists.
\<close>

definition replay ::
  "('s, 'd, 'c) service \<Rightarrow> idemRecord option \<Rightarrow> ('s, 'd) world \<Rightarrow> File res \<times> ('s, 'd) world" where
  "replay sv existing w =
     (case existing of
        None \<Rightarrow> (Inl IdempotencyConflict, w)
      | Some rec \<Rightarrow>
          (case (ir_Status rec = IdempotencyCompleted, ir_FileID rec) of
             (True, Some prior) \<Rightarrow>
               (case on_repo (r_Get (sv_repo sv) prior) w of
                  (Inr f, w') \<Rightarrow> (Inr f, w')
                | (Inl e, w') \<Rightarrow>
                    if errors_is e MetadataNotFound then (Inl IdempotencyResultGone, w')
                    else (Inl (Wrapped ''files: load idempotent result'' e), w'))
           | _ \<Rightarrow> (Inl IdempotencyConflict, w)))"

definition release :: "('s, 'd, 'c) service \<Rightarrow> string \<Rightarrow> ('s, 'd) world \<Rightarrow> ('s, 'd) world" where
  "release sv key w = snd (on_repo (r_ReleaseIdempotencyKey (sv_repo sv) key) w)"

text \<open>The result is the file and whether it is a replay.\<close>

definition Service_UploadIdempotent ::
  "libs \<Rightarrow> ('s, 'd, 'c) service \<Rightarrow> string \<Rightarrow> uploadInput \<Rightarrow> ('s, 'd) world \<Rightarrow>
    (File \<times> bool) res \<times> body \<times> ('s, 'd) world" where
  "Service_UploadIdempotent L sv key inp w =
     (case on_repo (r_ClaimIdempotencyKey (sv_repo sv) key) w of
        (Inl e, w1) \<Rightarrow> (Inl (Wrapped ''files: claim idempotency key'' e), in_Body inp, w1)
      | (Inr (False, existing), w1) \<Rightarrow>
          (case replay sv existing w1 of
             (Inl e, w2) \<Rightarrow> (Inl e, in_Body inp, w2)
           | (Inr prior, w2) \<Rightarrow> (Inr (prior, True), in_Body inp, w2))
      | (Inr (True, _), w1) \<Rightarrow>
          (case stage L sv inp w1 of
             (Inl e, b, w2) \<Rightarrow> (Inl e, b, release sv key w2)
           | (Inr f, b, w2) \<Rightarrow>
               (case on_repo (r_CreateForKey (sv_repo sv) f key) w2 of
                  (Inl e, w3) \<Rightarrow>
                    (Inl (Wrapped ''files: commit metadata'' e), b,
                     release sv key (drop_object sv (f_StorageKey f) w3))
                | (Inr g, w3) \<Rightarrow> (Inr (g, False), b, w3))))"

end
