(* ===== verification/FilesFacts.thy ===== *)
theory FilesFacts
  imports FilesService
begin

text \<open>
  What the methods of \<open>internal/files\<close> do, from the contracts of the object store and the
  repository: the locale \<open>file_service\<close> combines both.  \<open>stage\<close> adds one object that holds
  the body; \<open>Upload\<close> and \<open>UploadIdempotent\<close> then add one row for it, or no row at all;
  every operation keeps each live row backed by an object of the recorded size and hash.
\<close>

section \<open>Consistency of the two halves\<close>

definition matches :: "libs \<Rightarrow> File \<Rightarrow> object \<Rightarrow> bool" where
  "matches L f ob \<longleftrightarrow>
     f_SizeBytes f = len64 (o_data ob) \<and> f_Checksum f = hex_encode (lib_sha256 L (o_data ob))"

definition backed :: "libs \<Rightarrow> (string \<rightharpoonup> object) \<Rightarrow> (string \<rightharpoonup> File) \<Rightarrow> bool" where
  "backed L M R \<longleftrightarrow>
     (\<forall>c f. R c = Some f \<and> live f \<longrightarrow> (\<exists>ob. M (f_StorageKey f) = Some ob \<and> matches L f ob))"

text \<open>
  UUIDs do not repeat, and every storage key of a row has been drawn: so the key the next
  upload draws is not in use.
\<close>

definition distinct_supply :: "(nat \<Rightarrow> string res) \<Rightarrow> bool" where
  "distinct_supply u \<longleftrightarrow> (\<forall>m n k. u m = Inr k \<and> u n = Inr k \<longrightarrow> m = n)"

definition drawn :: "(string \<rightharpoonup> File) \<Rightarrow> ('s, 'd) world \<Rightarrow> bool" where
  "drawn R w \<longleftrightarrow> (\<forall>f\<in>ran R. \<exists>n<w_next w. w_uuids w n = Inr (f_StorageKey f))"

definition same_supply :: "('s, 'd) world \<Rightarrow> ('s, 'd) world \<Rightarrow> bool" where
  "same_supply w w' \<longleftrightarrow> w_uuids w' = w_uuids w \<and> w_next w \<le> w_next w'"

lemma fresh_key:
  assumes "distinct_supply (w_uuids w)" and "drawn R w" and "w_uuids w (Suc (w_next w)) = Inr k"
  shows "\<forall>f\<in>ran R. f_StorageKey f \<noteq> k"
proof
  fix f assume "f \<in> ran R"
  then obtain n where "n < w_next w" "w_uuids w n = Inr (f_StorageKey f)"
    using assms(2) by (auto simp: drawn_def)
  then show "f_StorageKey f \<noteq> k"
    using assms(1,3) unfolding distinct_supply_def by (metis Suc_n_not_le_n less_imp_le less_SucI)
qed

lemma drawn_mono:
  assumes "drawn R w" and "same_supply w w'"
    and "\<And>f. f \<in> ran R' \<Longrightarrow> (\<exists>g\<in>ran R. f_StorageKey f = f_StorageKey g) \<or>
      (\<exists>n<w_next w'. w_uuids w' n = Inr (f_StorageKey f))"
  shows "drawn R' w'"
  unfolding drawn_def
proof
  fix f assume "f \<in> ran R'"
  from assms(3) [OF this] show "\<exists>n<w_next w'. w_uuids w' n = Inr (f_StorageKey f)"
  proof
    assume "\<exists>g\<in>ran R. f_StorageKey f = f_StorageKey g"
    then obtain n where "n < w_next w" "w_uuids w n = Inr (f_StorageKey f)"
      using assms(1) by (auto simp: drawn_def)
    then show ?thesis
      using assms(2) unfolding same_supply_def by (metis order_less_le_trans)
  qed
qed

lemma ran_upd_subset: "ran (R(c \<mapsto> g)) \<subseteq> insert g (ran R)"
  by (auto simp: ran_def)

definition honest_input :: "uploadInput \<Rightarrow> bool" where
  "honest_input inp \<longleftrightarrow> honest_size (body_rest (in_Body inp)) (body_fin (in_Body inp)) (in_Size inp)"

lemma backed_add:
  assumes "backed L M R" and "M' k = Some ob" and "\<forall>k'. k' \<noteq> k \<longrightarrow> M' k' = M k'"
    and "\<forall>f \<in> ran R. f_StorageKey f \<noteq> k" and "f_StorageKey f = k" and "matches L f ob"
  shows "backed L M' (R(c \<mapsto> f))"
  using assms by (auto simp: backed_def ran_def)

lemma backed_other:
  assumes "backed L M R" and "\<forall>k'. k' \<noteq> k \<longrightarrow> M' k' = M k'" and "\<forall>f \<in> ran R. f_StorageKey f \<noteq> k"
  shows "backed L M' R"
  using assms by (auto simp: backed_def ran_def)

lemma backed_update:
  assumes "backed L M R" and "R c = Some f" and "live f"
    and "live g \<Longrightarrow> f_StorageKey g = f_StorageKey f \<and> f_SizeBytes g = f_SizeBytes f \<and>
      f_Checksum g = f_Checksum f"
  shows "backed L M (R(c \<mapsto> g))"
  using assms by (auto simp: backed_def matches_def)

section \<open>The operations as steps\<close>

text \<open>One call of any method, over any request; the declared size of a body is honest.\<close>

inductive service_step ::
  "libs \<Rightarrow> ('s, 'd, 'c) service \<Rightarrow> ('s, 'd) world \<Rightarrow> ('s, 'd) world \<Rightarrow> bool"
  for L :: libs and sv :: "('s, 'd, 'c) service" where
  step_Upload: "honest_input inp \<Longrightarrow> Service_Upload L sv inp w = (x, b, w') \<Longrightarrow> service_step L sv w w'"
| step_UploadIdempotent: "honest_input inp \<Longrightarrow>
    Service_UploadIdempotent L sv key inp w = (y, b, w') \<Longrightarrow> service_step L sv w w'"
| step_Metadata: "Service_Metadata L sv i w = (f, w') \<Longrightarrow> service_step L sv w w'"
| step_Presign: "Service_Presign L sv i ttl w = (u, w') \<Longrightarrow> service_step L sv w w'"
| step_Open: "Service_Open L sv i w = (rc, w') \<Longrightarrow> service_step L sv w w'"
| step_OpenRange: "Service_OpenRange sv g off len w = (src, w') \<Longrightarrow> service_step L sv w w'"
| step_List: "Service_List L sv flt w = (fs, w') \<Longrightarrow> service_step L sv w w'"
| step_UpdateMetadata: "Service_UpdateMetadata L sv i tags merge w = (f, w') \<Longrightarrow> service_step L sv w w'"
| step_Delete: "Service_Delete L sv i w = (u', w') \<Longrightarrow> service_step L sv w w'"

text \<open>Staging leaves the repository alone and records the tags it was given.\<close>

lemma stage_repo: "stage L sv inp w = (x, b, w') \<Longrightarrow> w_repo w' = w_repo w"
  by (auto simp: stage_def newID_def resolve_size_def drop_object_def on_store_def
      split: sum.splits prod.splits if_splits)

lemma stage_tags: "stage L sv inp w = (Inr f, b, w') \<Longrightarrow> f_Metadata f = in_Tags inp"
  by (auto simp: stage_def split: sum.splits prod.splits)

section \<open>The service over any store and repository\<close>

locale file_service =
  store: object_store bufio_read up_rest up_fin up_ok B objs sane +
  repo: file_repository R canon rows claims dgood
  for B :: "('s, uploadReader, 'c) backend" and objs and sane
    and R :: "'d repository" and canon and rows and claims and dgood +
  fixes L :: libs
begin

abbreviation sv :: "('s, 'd, 'c) service" where
  "sv \<equiv> files_New B R"

definition good :: "('s, 'd) world \<Rightarrow> bool" where
  "good w \<longleftrightarrow> sane (w_store w) \<and> dgood (w_repo w)"

abbreviation w_objs :: "('s, 'd) world \<Rightarrow> string \<rightharpoonup> object" where
  "w_objs w \<equiv> objs (w_store w)"

abbreviation w_rows :: "('s, 'd) world \<Rightarrow> string \<rightharpoonup> File" where
  "w_rows w \<equiv> rows (w_repo w)"

abbreviation w_claims :: "('s, 'd) world \<Rightarrow> string \<rightharpoonup> idemRecord" where
  "w_claims w \<equiv> claims (w_repo w)"

lemma sv_sel [simp]: "sv_backend sv = B" "sv_repo sv = R"
  by (simp_all add: files_New_def)

lemma on_repoE:
  assumes "on_repo m w = (x, w')"
  obtains d where "m (w_repo w) = (x, d)" "w' = w\<lparr>w_repo := d\<rparr>"
  using assms by (auto simp: on_repo_def split: prod.splits)

lemma on_storeE:
  assumes "on_store m w = (x, w')"
  obtains s where "m (w_store w) = (x, s)" "w' = w\<lparr>w_store := s\<rparr>"
  using assms by (auto simp: on_store_def split: prod.splits)

subsection \<open>Staging\<close>

lemma sniff_facts:
  assumes "sniff L inp (new_upload (in_Body inp)) = (ct, src)"
  shows "up_ok src" "up_rest src = body_rest (in_Body inp)" "up_fin src = body_fin (in_Body inp)"
    "up_whole src = body_rest (in_Body inp)" "reads body_read (in_Body inp) (u_body src)"
    "ct = (if in_ContentType inp = '''' then lib_DetectContentType L (take 512 (body_rest (in_Body inp)))
           else in_ContentType inp)"
  using assms peek_result [of "new_upload (in_Body inp)"] peek_kept_refl [of "new_upload (in_Body inp)"]
  by (auto simp: sniff_def peek_kept_def sniffLen_def reads_refl split: if_splits prod.splits)

lemma drop_object_facts:
  assumes "good w"
  shows "w_repo (drop_object sv k w) = w_repo w" "good (drop_object sv k w)"
    "\<forall>k'. k' \<noteq> k \<longrightarrow> w_objs (drop_object sv k w) k' = w_objs w k'"
    "w_uuids (drop_object sv k w) = w_uuids w" "w_next (drop_object sv k w) = w_next w"
proof -
  obtain x s where d: "b_Delete B k (w_store w) = (x, s)"
    by (cases "b_Delete B k (w_store w)") auto
  then show "w_repo (drop_object sv k w) = w_repo w" "good (drop_object sv k w)"
    "\<forall>k'. k' \<noteq> k \<longrightarrow> w_objs (drop_object sv k w) k' = w_objs w k'"
    "w_uuids (drop_object sv k w) = w_uuids w" "w_next (drop_object sv k w) = w_next w"
    using assms store.Delete_other store.Delete_sane
    by (auto simp: drop_object_def on_store_def good_def)
qed

lemma resolve_size_ok:
  assumes "resolve_size sv sz k w = (Inr n, w')" and "good w" and "w_objs w k = Some ob"
    and "0 \<le> sint sz \<Longrightarrow> sint sz = int (length (o_data ob))"
  shows "n = len64 (o_data ob) \<and> w_repo w' = w_repo w \<and> good w' \<and> w_objs w' = w_objs w \<and>
    w_uuids w' = w_uuids w \<and> w_next w' = w_next w"
proof (cases "sz <s 0")
  case True
  then show ?thesis
    using assms store.Stat_ok store.Stat_frame
    by (auto simp: resolve_size_def good_def split: sum.splits prod.splits elim!: on_storeE) fastforce+
next
  case False
  then have "sint sz = int (length (o_data ob))"
    using assms(4) by (simp add: sint64_less_iff)
  then have "sz = len64 (o_data ob)"
    using sint64_upper [of sz] by (simp add: sint64_eq_iff sint_len64)
  then show ?thesis
    using assms False by (auto simp: resolve_size_def)
qed

lemma resolve_size_error:
  assumes "resolve_size sv sz k w = (Inl e, w')" and "good w"
  shows "w_repo w' = w_repo w \<and> good w' \<and> (\<forall>k'. k' \<noteq> k \<longrightarrow> w_objs w' k' = w_objs w k') \<and>
    same_supply w w'"
  using assms store.Stat_frame drop_object_facts
  by (auto simp: resolve_size_def good_def same_supply_def
      split: if_splits sum.splits prod.splits elim!: on_storeE)

subsection \<open>The upload\<close>

text \<open>What \<open>stage\<close> prepares: the object holds the body, the record describes it.\<close>

definition staged :: "uploadInput \<Rightarrow> ('s, 'd) world \<Rightarrow> File \<Rightarrow> ('s, 'd) world \<Rightarrow> bool" where
  "staged inp w f w' \<longleftrightarrow>
     body_fin (in_Body inp) = EOF \<and> w_repo w' = w_repo w \<and> good w' \<and> w_uuids w' = w_uuids w \<and>
     w_uuids w (w_next w) = Inr (f_ID f) \<and> w_uuids w (Suc (w_next w)) = Inr (f_StorageKey f) \<and>
     w_next w' = Suc (Suc (w_next w)) \<and>
     (\<exists>ob. w_objs w' = (w_objs w)(f_StorageKey f \<mapsto> ob) \<and> o_data ob = body_rest (in_Body inp) \<and>
        matches L f ob) \<and>
     f_Metadata f = in_Tags inp \<and> live f \<and> f_UpdatedAt f = None \<and>
     f_Filename f = (if in_Filename inp = '''' then f_ID f else in_Filename inp) \<and>
     f_ContentType f = (if in_ContentType inp = ''''
       then lib_DetectContentType L (take 512 (body_rest (in_Body inp))) else in_ContentType inp)"



lemma stage_ok:
  assumes "stage L sv inp w = (Inr f, b, w')" and "good w" and "honest_input inp"
  shows "staged inp w f w'"
proof -
  define w2 where "w2 = w\<lparr>w_next := Suc (Suc (w_next w))\<rparr>"
  obtain i k ct src src' s sz w3 where run:
    "w_uuids w (w_next w) = Inr i" "w_uuids w (Suc (w_next w)) = Inr k"
    "sniff L inp (new_upload (in_Body inp)) = (ct, src)"
    "b_Put B k src (in_Size inp) ct (w_store w2) = (Inr (), src', s)"
    "resolve_size sv (in_Size inp) k (w2\<lparr>w_store := s\<rparr>) = (Inr sz, w3)" "w' = w3"
    and f: "f = \<lparr>f_ID = i, f_StorageKey = k,
             f_Filename = (if in_Filename inp = '''' then i else in_Filename inp),
             f_ContentType = ct, f_SizeBytes = sz,
             f_Checksum = hex_encode (lib_sha256 L (u_hashed src')),
             f_Metadata = in_Tags inp, f_CreatedAt = zero_time, f_UpdatedAt = None,
             f_DeletedAt = None\<rparr>"
    using assms(1)
    by (auto simp: stage_def newID_def w2_def split: sum.splits prod.splits)
  note src = sniff_facts [OF run(3)]
  have sane: "sane (w_store w2)" "dgood (w_repo w2)"
    using assms(2) by (simp_all add: good_def w2_def)
  obtain ob where put: "body_fin (in_Body inp) = EOF" "up_rest src' = []"
    "objs s = (objs (w_store w2))(k \<mapsto> ob)" "o_data ob = body_rest (in_Body inp)"
    using store.Put_ok [OF sane(1) src(1) _ run(4)] assms(3) src(2,3) by (auto simp: honest_input_def)
  have "sane s" "reads bufio_read src src'"
    using store.Put_sane [OF sane(1) run(4)] store.Put_reads [OF sane(1) src(1) run(4)] by simp_all
  then have hashed: "u_hashed src' = body_rest (in_Body inp)"
    using hashed_whole [OF put(2)] upload_reads_facts(1) src(4) by auto
  have "sz = len64 (o_data ob) \<and> w_repo w3 = w_repo w2 \<and> good w3 \<and> w_objs w3 = objs s \<and>
      w_uuids w3 = w_uuids w2 \<and> w_next w3 = w_next w2"
    using resolve_size_ok [OF run(5), of ob] \<open>sane s\<close> sane put assms(3)
    by (auto simp: good_def honest_size_def honest_input_def)
  then show ?thesis
    using run put src hashed by (auto simp: staged_def f matches_def w2_def)
qed

lemma stage_error:
  assumes "stage L sv inp w = (Inl e, b, w')" and "good w" and "honest_input inp"
  shows "w_repo w' = w_repo w \<and> good w' \<and> same_supply w w' \<and>
    (\<forall>k. w_uuids w (Suc (w_next w)) \<noteq> Inr k \<longrightarrow> w_objs w' k = w_objs w k)"
proof -
  define w2 where "w2 = w\<lparr>w_next := Suc (Suc (w_next w))\<rparr>"
  have same: "good w2" "w_repo w2 = w_repo w" "w_objs w2 = w_objs w" "same_supply w w2"
    using assms(2) by (simp_all add: w2_def good_def same_supply_def)
  consider (ids) "w_repo w' = w_repo w" "w_store w' = w_store w" "same_supply w w'"
    | (put) k ct src src' s e' where "w_uuids w (Suc (w_next w)) = Inr k"
        "sniff L inp (new_upload (in_Body inp)) = (ct, src)"
        "b_Put B k src (in_Size inp) ct (w_store w2) = (Inl e', src', s)" "w' = w2\<lparr>w_store := s\<rparr>"
    | (size) k ct src src' s where "w_uuids w (Suc (w_next w)) = Inr k"
        "sniff L inp (new_upload (in_Body inp)) = (ct, src)"
        "b_Put B k src (in_Size inp) ct (w_store w2) = (Inr (), src', s)"
        "resolve_size sv (in_Size inp) k (w2\<lparr>w_store := s\<rparr>) = (Inl e, w')"
    using assms(1)
    by (auto simp: stage_def newID_def w2_def same_supply_def split: sum.splits prod.splits)
  then show ?thesis
  proof cases
    case ids
    then show ?thesis using assms(2) by (simp add: good_def)
  next
    case put
    then have "sane s" "\<forall>k'. k' \<noteq> k \<longrightarrow> objs s k' = w_objs w2 k'"
      using same(1) store.Put_sane store.Put_error by (auto simp: good_def)
    then show ?thesis
      using put same by (auto simp: good_def same_supply_def)
  next
    case size
    then have "sane s" "\<forall>k'. k' \<noteq> k \<longrightarrow> objs s k' = w_objs w2 k'"
      using same(1) store.Put_sane store.Put_other [OF _ _ _ size(3)] sniff_facts [OF size(2)] assms(3)
      by (auto simp: good_def honest_input_def)
    then show ?thesis
      using resolve_size_error [OF size(4)] same size(1) by (auto simp: good_def same_supply_def)
  qed
qed

text \<open>A stored file: one new row for one new object, which holds the body.\<close>

definition stored :: "uploadInput \<Rightarrow> ('s, 'd) world \<Rightarrow> File \<Rightarrow> ('s, 'd) world \<Rightarrow> bool" where
  "stored inp w g w' \<longleftrightarrow>
     body_fin (in_Body inp) = EOF \<and> good w' \<and>
     w_uuids w' = w_uuids w \<and> w_next w' = Suc (Suc (w_next w)) \<and>
     (\<exists>c ob. canon (f_ID g) = Some c \<and> w_rows w c = None \<and>
        w_rows w' = (w_rows w)(c \<mapsto> g\<lparr>f_ID := c, f_DeletedAt := None\<rparr>) \<and>
        w_objs w' = (w_objs w)(f_StorageKey g \<mapsto> ob) \<and> o_data ob = body_rest (in_Body inp) \<and>
        matches L g ob) \<and>
     (\<forall>r\<in>ran (w_rows w). f_StorageKey r \<noteq> f_StorageKey g) \<and>
     w_uuids w (w_next w) = Inr (f_ID g) \<and> w_uuids w (Suc (w_next w)) = Inr (f_StorageKey g) \<and>
     f_Metadata g = Some (case in_Tags inp of None \<Rightarrow> [] | Some t \<Rightarrow> t) \<and> f_UpdatedAt g = None \<and>
     f_Filename g = (if in_Filename inp = '''' then f_ID g else in_Filename inp) \<and>
     f_ContentType g = (if in_ContentType inp = ''''
       then lib_DetectContentType L (take 512 (body_rest (in_Body inp))) else in_ContentType inp)"

text \<open>Nothing stored: no row, and no object but possibly one under the fresh key.\<close>

definition not_stored :: "('s, 'd) world \<Rightarrow> ('s, 'd) world \<Rightarrow> bool" where
  "not_stored w w' \<longleftrightarrow>
     w_rows w' = w_rows w \<and> good w' \<and> same_supply w w' \<and>
     (\<forall>k. w_uuids w (Suc (w_next w)) \<noteq> Inr k \<longrightarrow> w_objs w' k = w_objs w k)"

lemma added_stored:
  assumes "staged inp w f w1" and "added (w_rows w1) c f g (rows d)" and "canon (f_ID f) = Some c"
    and "dgood d"
  shows "stored inp w g (w1\<lparr>w_repo := d\<rparr>)"
  using assms by (auto simp: staged_def added_def filled_in_def stored_def matches_def good_def)

lemma Upload_ok:
  assumes "Service_Upload L sv inp w = (Inr g, b, w')" and "good w" and "honest_input inp"
  shows "stored inp w g w' \<and> w_claims w' = w_claims w"
proof -
  obtain f w1 d where "stage L sv inp w = (Inr f, b, w1)" "r_Create R f (w_repo w1) = (Inr g, d)"
    "w' = w1\<lparr>w_repo := d\<rparr>"
    using assms(1) by (auto simp: Service_Upload_def split: sum.splits prod.splits elim!: on_repoE)
  moreover from this have s: "staged inp w f w1"
    using stage_ok assms(2,3) by blast
  ultimately show ?thesis
    using repo.Create_ok [of "w_repo w1" f g d] added_stored [OF s]
    by (auto simp: staged_def good_def)
qed

lemma Upload_error:
  assumes "Service_Upload L sv inp w = (Inl e, b, w')" and "good w" and "honest_input inp"
  shows "not_stored w w' \<and> w_claims w' = w_claims w"
proof -
  consider (stage) "stage L sv inp w = (Inl e, b, w')"
    | (create) f w1 d e' where "stage L sv inp w = (Inr f, b, w1)"
        "r_Create R f (w_repo w1) = (Inl e', d)" "w' = drop_object sv (f_StorageKey f) (w1\<lparr>w_repo := d\<rparr>)"
    using assms(1) by (auto simp: Service_Upload_def split: sum.splits prod.splits elim!: on_repoE)
  then show ?thesis
  proof cases
    case stage
    then show ?thesis
      using stage_error [OF _ assms(2,3)] by (auto simp: not_stored_def)
  next
    case create
    have s: "staged inp w f w1"
      using stage_ok create(1) assms(2,3) by blast
    then have "good (w1\<lparr>w_repo := d\<rparr>)" "rows d = w_rows w" "claims d = w_claims w"
      using repo.Create_error [OF _ create(2)] by (auto simp: staged_def good_def)
    then show ?thesis
      using drop_object_facts [of "w1\<lparr>w_repo := d\<rparr>" "f_StorageKey f"] create(3) s
      by (auto simp: not_stored_def staged_def same_supply_def)
  qed
qed

text \<open>The four ways an idempotent upload can go.\<close>

lemma release_facts:
  assumes "good w"
  shows "w_rows (release sv key w) = w_rows w" "w_store (release sv key w) = w_store w"
    "good (release sv key w)" "same_supply w (release sv key w)"
    "w_claims (release sv key w) = w_claims w \<or>
      map_option ir_Status (w_claims w key) = Some IdempotencyPending \<and>
      w_claims (release sv key w) = (w_claims w)(key := None)"
proof -
  obtain x d where r: "r_ReleaseIdempotencyKey R key (w_repo w) = (x, d)"
    by (cases "r_ReleaseIdempotencyKey R key (w_repo w)") auto
  then show "w_rows (release sv key w) = w_rows w" "w_store (release sv key w) = w_store w"
    "good (release sv key w)" "same_supply w (release sv key w)"
    "w_claims (release sv key w) = w_claims w \<or>
      map_option ir_Status (w_claims w key) = Some IdempotencyPending \<and>
      w_claims (release sv key w) = (w_claims w)(key := None)"
    using assms repo.Release_ok [of "w_repo w" key d] repo.Release_error [of "w_repo w" key _ d]
    by (cases x; auto simp: release_def on_repo_def good_def same_supply_def split: if_splits)+
qed

lemma replay_facts:
  assumes "replay sv existing w = (x, w')" and "good w"
  shows "w_rows w' = w_rows w \<and> w_objs w' = w_objs w \<and> w_claims w' = w_claims w \<and> good w' \<and>
    same_supply w w' \<and> (\<forall>g. x = Inr g \<longrightarrow> live g \<and> (\<exists>i c. canon i = Some c \<and> w_rows w c = Some g \<and>
       existing = Some \<lparr>ir_Status = IdempotencyCompleted, ir_FileID = Some i\<rparr>))"
proof (cases "\<exists>rec i. existing = Some rec \<and> ir_Status rec = IdempotencyCompleted \<and> ir_FileID rec = Some i")
  case True
  then obtain rec i where rec: "existing = Some rec" "ir_Status rec = IdempotencyCompleted"
    "ir_FileID rec = Some i"
    by blast
  then have eq: "existing = Some \<lparr>ir_Status = IdempotencyCompleted, ir_FileID = Some i\<rparr>"
    by (cases rec) simp
  obtain y d where g: "r_Get R i (w_repo w) = (y, d)"
    by (cases "r_Get R i (w_repo w)") auto
  show ?thesis
    using assms rec eq g repo.Get_frame [OF _ g] repo.Get_ok [of "w_repo w" i _ d]
    by (cases y) (auto simp: replay_def on_repo_def good_def same_supply_def split: if_splits)
next
  case False
  then have "w' = w" "\<exists>e. x = Inl e"
    using assms(1) by (auto simp: replay_def split: option.splits bool.splits prod.splits)
  then show ?thesis
    using assms(2) by (auto simp: same_supply_def)
qed

lemma stored_cong:
  "w_rows v = w_rows w \<Longrightarrow> w_store v = w_store w \<Longrightarrow> w_uuids v = w_uuids w \<Longrightarrow> w_next v = w_next w \<Longrightarrow>
    stored inp v g w' = stored inp w g w'"
  by (simp add: stored_def)

lemma owned_upload_cases:
  assumes "Service_UploadIdempotent L sv key inp w = (x, b, w')" and "honest_input inp"
    and claim: "on_repo (r_ClaimIdempotencyKey R key) w = (Inr (True, p), w1)" and "good w1"
  obtains (created) g where "x = Inr (g, False)" "stored inp w1 g w'"
      "w_claims w' = (w_claims w1)(key \<mapsto> \<lparr>ir_Status = IdempotencyCompleted, ir_FileID = Some (f_ID g)\<rparr>)"
  | (failed) e where "x = Inl e" "not_stored w1 w'"
      "w_claims w' = w_claims w1 \<or> w_claims w' = (w_claims w1)(key := None)"
proof -
  consider (stage) e w2 where "stage L sv inp w1 = (Inl e, b, w2)" "x = Inl e" "w' = release sv key w2"
    | (create) f w2 d e where "stage L sv inp w1 = (Inr f, b, w2)"
        "r_CreateForKey R f key (w_repo w2) = (Inl e, d)"
        "x = Inl (Wrapped ''files: commit metadata'' e)"
        "w' = release sv key (drop_object sv (f_StorageKey f) (w2\<lparr>w_repo := d\<rparr>))"
    | (ok) f w2 d g where "stage L sv inp w1 = (Inr f, b, w2)"
        "r_CreateForKey R f key (w_repo w2) = (Inr g, d)" "x = Inr (g, False)" "w' = w2\<lparr>w_repo := d\<rparr>"
    using assms(1) claim
    by (auto simp: Service_UploadIdempotent_def split: sum.splits prod.splits elim!: on_repoE)
  then show thesis
  proof cases
    case stage
    then show thesis
      using stage_error [OF stage(1) assms(4,2)] release_facts [of w2 key]
      by (intro failed) (auto simp: not_stored_def same_supply_def)
  next
    case create
    let ?w = "w2\<lparr>w_repo := d\<rparr>"
    have s: "staged inp w1 f w2"
      using stage_ok create(1) assms(2,4) by blast
    then have same: "good ?w" "rows d = w_rows w1" "claims d = w_claims w1"
      using repo.CreateForKey_error [OF _ create(2)] by (auto simp: staged_def good_def)
    show thesis
      using create(3,4) s same drop_object_facts [OF same(1), of "f_StorageKey f"]
        release_facts [of "drop_object sv (f_StorageKey f) ?w" key]
      by (intro failed) (auto simp: not_stored_def staged_def same_supply_def)
  next
    case ok
    have s: "staged inp w1 f w2"
      using stage_ok ok(1) assms(2,4) by blast
    then have "dgood (w_repo w2)" "w_repo w2 = w_repo w1"
      by (auto simp: staged_def good_def)
    then obtain c where c: "canon (f_ID f) = Some c" "added (w_rows w2) c f g (rows d)" "dgood d"
      "claims d = (w_claims w1)(key \<mapsto> \<lparr>ir_Status = IdempotencyCompleted, ir_FileID = Some (f_ID f)\<rparr>)"
      using repo.CreateForKey_ok [OF _ ok(2)] by auto
    then have "f_ID g = f_ID f"
      by (simp add: added_def filled_in_def)
    then show thesis
      using ok(3,4) c added_stored [OF s c(2,1,3)] by (intro created [of g]) auto
  qed
qed

lemma UploadIdempotent_cases:
  assumes "Service_UploadIdempotent L sv key inp w = (x, b, w')" and "good w" and "honest_input inp"
  obtains (created) g where "x = Inr (g, False)" "w_claims w key = None" "stored inp w g w'"
      "w_claims w' = (w_claims w)(key \<mapsto> \<lparr>ir_Status = IdempotencyCompleted, ir_FileID = Some (f_ID g)\<rparr>)"
  | (replayed) g i c where "x = Inr (g, True)" "b = in_Body inp" "w_rows w' = w_rows w"
      "w_objs w' = w_objs w" "w_claims w' = w_claims w" "good w'" "same_supply w w'"
      "w_claims w key = Some \<lparr>ir_Status = IdempotencyCompleted, ir_FileID = Some i\<rparr>"
      "canon i = Some c" "w_rows w c = Some g" "live g"
  | (failed) e where "x = Inl e" "not_stored w w'"
      "w_claims w' = w_claims w \<or> w_claims w key = None \<and>
        w_claims w' = (w_claims w)(key \<mapsto> \<lparr>ir_Status = IdempotencyPending, ir_FileID = None\<rparr>)"
proof -
  obtain y w1 where claim: "on_repo (r_ClaimIdempotencyKey R key) w = (y, w1)"
    by (cases "on_repo (r_ClaimIdempotencyKey R key) w") auto
  then obtain d where d: "r_ClaimIdempotencyKey R key (w_repo w) = (y, d)" "w1 = w\<lparr>w_repo := d\<rparr>"
    by (auto elim: on_repoE)
  have dg: "dgood (w_repo w)" "sane (w_store w)"
    using assms(2) by (simp_all add: good_def)
  show thesis
  proof (cases "\<exists>p. y = Inr (True, p)")
    case False
    then have frame: "rows d = w_rows w" "claims d = w_claims w" "dgood d"
      using repo.Claim_frame [OF dg(1) d(1)] by auto
    then have good1: "good w1"
      using dg d(2) by (simp add: good_def)
    show thesis
    proof (cases y)
      case (Inl e)
      then show thesis
        using assms(1) claim frame d(2) good1
        by (intro failed) (auto simp: Service_UploadIdempotent_def not_stored_def same_supply_def)
    next
      case (Inr p)
      with False obtain existing where y: "y = Inr (False, existing)"
        by (cases p) auto
      obtain z w2 where r: "replay sv existing w1 = (z, w2)"
        by (cases "replay sv existing w1") auto
      note facts = replay_facts [OF r good1]
      have eq: "Service_UploadIdempotent L sv key inp w =
          (case z of Inl e \<Rightarrow> (Inl e, in_Body inp, w2) | Inr prior \<Rightarrow> (Inr (prior, True), in_Body inp, w2))"
        using claim y r by (simp add: Service_UploadIdempotent_def split: sum.splits)
      show thesis
      proof (cases z)
        case (Inl e)
        then show thesis
          using assms(1) eq facts frame d(2)
          by (intro failed) (auto simp: not_stored_def same_supply_def)
      next
        case (Inr g)
        then obtain i c where ic: "canon i = Some c" "w_rows w1 c = Some g" "live g"
          "existing = Some \<lparr>ir_Status = IdempotencyCompleted, ir_FileID = Some i\<rparr>"
          using facts by auto
        then have "w_claims w key = Some \<lparr>ir_Status = IdempotencyCompleted, ir_FileID = Some i\<rparr>"
          using repo.Claim_taken dg(1) d(1) y by blast
        then show thesis
          using assms(1) eq facts frame d(2) ic Inr
          by (intro replayed [of g i c]) (auto simp: same_supply_def)
      qed
    qed
  next
    case True
    then obtain p where y: "y = Inr (True, p)"
      by blast
    have own: "w_claims w key = None" "rows d = w_rows w" "dgood d"
      "claims d = (w_claims w)(key \<mapsto> \<lparr>ir_Status = IdempotencyPending, ir_FileID = None\<rparr>)"
      using repo.Claim_ok [OF dg(1)] d(1) y by auto
    then have good1: "good w1"
      using dg d(2) by (simp add: good_def)
    from assms(1,3) claim [unfolded y] good1 show thesis
    proof (cases rule: owned_upload_cases)
      case (created g)
      then show thesis
        using own d(2) stored_cong [of w1 w] by (intro that(1)) auto
    next
      case (failed e)
      then show thesis
        using own d(2) by (intro that(3)) (auto simp: not_stored_def same_supply_def fun_upd_idem)
    qed
  qed
qed

subsection \<open>The other operations\<close>

definition unchanged :: "('s, 'd) world \<Rightarrow> ('s, 'd) world \<Rightarrow> bool" where
  "unchanged w w' \<longleftrightarrow> w_rows w' = w_rows w \<and> w_objs w' = w_objs w \<and> w_claims w' = w_claims w \<and>
     (good w \<longrightarrow> good w') \<and> same_supply w w'"

lemma unchanged_refl: "unchanged w w"
  by (simp add: unchanged_def same_supply_def)

lemma unchanged_trans: "unchanged w w' \<Longrightarrow> unchanged w' w'' \<Longrightarrow> unchanged w w''"
  by (auto simp: unchanged_def same_supply_def)

lemma on_repo_frame:
  assumes "on_repo m w = (x, w')" and "good w"
    and "\<And>d x d'. dgood d \<Longrightarrow> m d = (x, d') \<Longrightarrow> rows d' = rows d \<and> claims d' = claims d \<and> dgood d'"
  shows "unchanged w w'"
  using assms by (auto simp: unchanged_def good_def same_supply_def elim!: on_repoE)

lemma on_store_frame:
  assumes "on_store m w = (x, w')" and "good w"
    and "\<And>s x s'. sane s \<Longrightarrow> m s = (x, s') \<Longrightarrow> objs s' = objs s \<and> sane s'"
  shows "unchanged w w'"
  using assms by (auto simp: unchanged_def good_def same_supply_def elim!: on_storeE)

lemma Metadata_facts:
  assumes "Service_Metadata L sv i w = (x, w')" and "good w"
  shows "unchanged w w' \<and>
    (\<forall>f. x = Inr f \<longrightarrow> validID L i \<and> live f \<and> (\<exists>c. canon i = Some c \<and> w_rows w c = Some f))"
proof (cases "validID L i")
  case True
  then obtain y where g: "on_repo (r_Get R i) w = (y, w')"
    "x = (case y of Inl e \<Rightarrow> Inl (translateNotFound e) | Inr f \<Rightarrow> Inr f)"
    using assms(1) by (auto simp: Service_Metadata_def split: sum.splits prod.splits)
  have "y = Inr f \<Longrightarrow> live f \<and> (\<exists>c. canon i = Some c \<and> w_rows w c = Some f)" for f
    using g(1) repo.Get_ok assms(2) by (auto simp: good_def elim!: on_repoE)
  then show ?thesis
    using on_repo_frame [OF g(1) assms(2) repo.Get_frame] g(2) True by (auto split: sum.splits)
next
  case False
  then show ?thesis
    using assms by (auto simp: Service_Metadata_def unchanged_refl)
qed

lemma Open_facts:
  assumes "Service_Open L sv i w = (x, w')" and "good w"
  shows "unchanged w w' \<and>
    (\<forall>f rc. x = Inr (f, rc) \<longrightarrow> live f \<and>
       (\<exists>c ob src. canon i = Some c \<and> w_rows w c = Some f \<and> w_objs w (f_StorageKey f) = Some ob \<and>
          delivers src (o_data ob) \<and> rc = newVerifyingReader src (f_Checksum f)))"
proof -
  obtain y w1 where m: "Service_Metadata L sv i w = (y, w1)"
    by (cases "Service_Metadata L sv i w") auto
  note facts = Metadata_facts [OF m assms(2)]
  show ?thesis
  proof (cases y)
    case (Inl e)
    then show ?thesis
      using assms(1) m facts by (auto simp: Service_Open_def)
  next
    case (Inr f)
    obtain z w2 where g: "on_store (b_Get B (f_StorageKey f)) w1 = (z, w2)"
      by (cases "on_store (b_Get B (f_StorageKey f)) w1") auto
    have fr: "unchanged w1 w2"
      using on_store_frame [OF g _ store.Get_frame] facts assms(2) by (auto simp: unchanged_def)
    have "z = Inr src \<Longrightarrow> \<exists>ob. w_objs w (f_StorageKey f) = Some ob \<and> delivers src (o_data ob)" for src
      using g store.Get_ok facts assms(2) by (fastforce simp: good_def unchanged_def elim!: on_storeE)
    then show ?thesis
      using assms(1) m g facts fr Inr unchanged_trans [of w w1 w2]
      by (auto simp: Service_Open_def split: sum.splits)
  qed
qed

lemma Presign_frame: "Service_Presign L sv i ttl w = (x, w') \<Longrightarrow> good w \<Longrightarrow> unchanged w w'"
  using on_store_frame [OF _ _ store.Presign_frame] Metadata_facts
  by (fastforce simp: Service_Presign_def unchanged_def same_supply_def split: sum.splits prod.splits)

lemma OpenRange_frame: "Service_OpenRange sv f off len w = (x, w') \<Longrightarrow> good w \<Longrightarrow> unchanged w w'"
  using on_store_frame [OF _ _ store.GetRange_frame]
  by (auto simp: Service_OpenRange_def split: sum.splits prod.splits)

lemma OpenRange_window:
  assumes "Service_OpenRange sv f off len w = (Inr src, w')" and "good w"
    and "w_objs w (f_StorageKey f) = Some ob"
    and "0 \<le> sint off" and "0 < sint len" and "sint off + sint len \<le> int (length (o_data ob))"
    and "int (length (o_data ob)) < 2 ^ 63"
  shows "delivers src (take (nat (sint len)) (drop (nat (sint off)) (o_data ob)))"
proof -
  obtain s where "b_GetRange B (f_StorageKey f) off len (w_store w) = (Inr src, s)"
    using assms(1) by (auto simp: Service_OpenRange_def split: sum.splits prod.splits elim!: on_storeE)
  then show ?thesis
    using store.GetRange_ok [OF _ _ assms(3-7)] assms(2) by (auto simp: good_def)
qed

lemma List_frame: "Service_List L sv flt w = (x, w') \<Longrightarrow> good w \<Longrightarrow> unchanged w w'"
  using on_repo_frame [OF _ _ repo.List_frame]
  by (auto simp: Service_List_def unchanged_refl split: sum.splits prod.splits if_splits)

text \<open>An edit touches the tags and the time of one live row, a deletion stamps one live row.\<close>

lemma UpdateMetadata_facts:
  assumes "Service_UpdateMetadata L sv i tags merge w = (x, w')" and "good w"
  shows "w_objs w' = w_objs w \<and> w_claims w' = w_claims w \<and> good w' \<and> same_supply w w' \<and>
    (case x of
       Inl e \<Rightarrow> w_rows w' = w_rows w
     | Inr g \<Rightarrow> \<exists>c f t. canon i = Some c \<and> w_rows w c = Some f \<and> live f \<and>
         g = f\<lparr>f_Metadata := Some (edited_tags f tags merge), f_UpdatedAt := Some t\<rparr> \<and>
         w_rows w' = (w_rows w)(c \<mapsto> g))"
proof (cases "validID L i")
  case True
  obtain y d where r: "r_UpdateMetadata R i tags merge (w_repo w) = (y, d)"
    by (cases "r_UpdateMetadata R i tags merge (w_repo w)") auto
  show ?thesis
    using assms r True repo.Update_ok [of "w_repo w" i tags merge _ d]
      repo.Update_error [of "w_repo w" i tags merge _ d]
    by (cases y) (auto simp: Service_UpdateMetadata_def on_repo_def good_def same_supply_def)
next
  case False
  then show ?thesis
    using assms by (auto simp: Service_UpdateMetadata_def same_supply_def)
qed

lemma Delete_facts:
  assumes "Service_Delete L sv i w = (x, w')" and "good w"
  shows "w_objs w' = w_objs w \<and> w_claims w' = w_claims w \<and> good w' \<and> same_supply w w' \<and>
    (case x of
       Inl e \<Rightarrow> w_rows w' = w_rows w
     | Inr _ \<Rightarrow> \<exists>c f t. canon i = Some c \<and> w_rows w c = Some f \<and> live f \<and>
         w_rows w' = (w_rows w)(c \<mapsto> f\<lparr>f_DeletedAt := Some t\<rparr>))"
proof (cases "validID L i")
  case True
  obtain y d where r: "r_Delete R i (w_repo w) = (y, d)"
    by (cases "r_Delete R i (w_repo w)") auto
  show ?thesis
    using assms r True repo.Delete_ok [of "w_repo w" i d] repo.Delete_error [of "w_repo w" i _ d]
    by (cases y) (auto simp: Service_Delete_def on_repo_def good_def same_supply_def)
next
  case False
  then show ?thesis
    using assms by (auto simp: Service_Delete_def same_supply_def)
qed

subsection \<open>The invariant\<close>

definition consistent :: "('s, 'd) world \<Rightarrow> bool" where
  "consistent w \<longleftrightarrow> good w \<and> backed L (w_objs w) (w_rows w) \<and> drawn (w_rows w) w \<and>
     distinct_supply (w_uuids w)"

lemma consistent_good: "consistent w \<Longrightarrow> good w"
  by (simp add: consistent_def)

lemma consistent_unchanged: "consistent w \<Longrightarrow> unchanged w w' \<Longrightarrow> consistent w'"
  by (auto simp: consistent_def unchanged_def intro: drawn_mono) (simp add: same_supply_def)

lemma consistent_stored:
  assumes "consistent w" and "stored inp w g w'"
  shows "consistent w'"
proof -
  obtain c ob where s: "w_rows w' = (w_rows w)(c \<mapsto> g\<lparr>f_ID := c, f_DeletedAt := None\<rparr>)"
    "w_objs w' = (w_objs w)(f_StorageKey g \<mapsto> ob)" "matches L g ob"
    "\<forall>r\<in>ran (w_rows w). f_StorageKey r \<noteq> f_StorageKey g"
    using assms(2) by (auto simp: stored_def)
  have "backed L (w_objs w') (w_rows w')"
    unfolding s(1) using assms(1) s(2-4)
    by (intro backed_add [where k = "f_StorageKey g" and ob = ob]) (auto simp: consistent_def matches_def)
  moreover have "drawn (w_rows w') w'"
  proof (rule drawn_mono)
    show "drawn (w_rows w) w" "same_supply w w'"
      using assms by (auto simp: consistent_def stored_def same_supply_def)
    fix f assume "f \<in> ran (w_rows w')"
    then have "f = g\<lparr>f_ID := c, f_DeletedAt := None\<rparr> \<or> f \<in> ran (w_rows w)"
      unfolding s(1) using ran_upd_subset by fastforce
    moreover have "Suc (w_next w) < w_next w'" "w_uuids w' (Suc (w_next w)) = Inr (f_StorageKey g)"
      using assms(2) by (auto simp: stored_def)
    ultimately show "(\<exists>h\<in>ran (w_rows w). f_StorageKey f = f_StorageKey h) \<or>
        (\<exists>n<w_next w'. w_uuids w' n = Inr (f_StorageKey f))"
      by auto
  qed
  ultimately show ?thesis
    using assms by (auto simp: consistent_def stored_def)
qed

lemma consistent_not_stored:
  assumes "consistent w" and "not_stored w w'"
  shows "consistent w'"
proof -
  have "backed L (w_objs w') (w_rows w)"
  proof (cases "w_uuids w (Suc (w_next w))")
    case (Inr k)
    have "\<forall>f\<in>ran (w_rows w). f_StorageKey f \<noteq> k"
      using assms(1) fresh_key [of w "w_rows w" k] Inr by (simp add: consistent_def)
    moreover have "backed L (w_objs w) (w_rows w)" "\<forall>k'. k' \<noteq> k \<longrightarrow> w_objs w' k' = w_objs w k'"
      using assms Inr by (auto simp: consistent_def not_stored_def)
    ultimately show ?thesis
      using backed_other [of L "w_objs w" "w_rows w" k "w_objs w'"] by simp
  next
    case (Inl e)
    then have "w_objs w' = w_objs w"
      using assms(2) by (auto simp: not_stored_def)
    then show ?thesis
      using assms(1) by (simp add: consistent_def)
  qed
  moreover have "drawn (w_rows w) w'"
    using assms by (auto simp: consistent_def not_stored_def intro: drawn_mono)
  ultimately show ?thesis
    using assms by (auto simp: consistent_def not_stored_def same_supply_def)
qed

lemma consistent_row_update:
  assumes "consistent w" and "w_rows w c = Some f" and "live f"
    and "w_rows w' = (w_rows w)(c \<mapsto> g)" and "w_objs w' = w_objs w" and "good w'" and "same_supply w w'"
    and "f_StorageKey g = f_StorageKey f" "f_SizeBytes g = f_SizeBytes f" "f_Checksum g = f_Checksum f"
  shows "consistent w'"
proof -
  have "backed L (w_objs w') (w_rows w')"
    unfolding assms(4,5) using assms by (intro backed_update) (auto simp: consistent_def)
  moreover have "drawn (w_rows w') w'"
  proof (rule drawn_mono)
    show "drawn (w_rows w) w" "same_supply w w'"
      using assms by (auto simp: consistent_def)
    fix h assume "h \<in> ran (w_rows w')"
    then have "h = g \<or> h \<in> ran (w_rows w)"
      unfolding assms(4) using ran_upd_subset by fastforce
    then show "(\<exists>g\<in>ran (w_rows w). f_StorageKey h = f_StorageKey g) \<or>
        (\<exists>n<w_next w'. w_uuids w' n = Inr (f_StorageKey h))"
      using assms(2,8) ranI [of "w_rows w" c f] by auto
  qed
  ultimately show ?thesis
    using assms by (auto simp: consistent_def same_supply_def)
qed

lemma consistent_step: "service_step L sv w w' \<Longrightarrow> consistent w \<Longrightarrow> consistent w'"
proof (induction rule: service_step.induct)
  case (step_Upload inp w x b w')
  have "good w"
    using step_Upload.prems by (simp add: consistent_def)
  then show ?case
    using Upload_ok [OF _ _ step_Upload(1)] Upload_error [OF _ _ step_Upload(1)] step_Upload(2)
      consistent_stored [OF step_Upload.prems] consistent_not_stored [OF step_Upload.prems]
    by (cases x) blast+
next
  case (step_UploadIdempotent inp key w x b w')
  have "good w"
    using step_UploadIdempotent.prems by (simp add: consistent_def)
  from step_UploadIdempotent(2) this step_UploadIdempotent(1) show ?case
    using step_UploadIdempotent.prems
    by (cases rule: UploadIdempotent_cases)
      (auto intro: consistent_stored consistent_not_stored consistent_unchanged simp: unchanged_def)
next
  case (step_UpdateMetadata i tags merge w x w')
  have "good w"
    using step_UpdateMetadata.prems by (simp add: consistent_def)
  then show ?case
    using UpdateMetadata_facts [OF step_UpdateMetadata(1)] consistent_unchanged [of w w']
      consistent_row_update [OF step_UpdateMetadata.prems, of _ _ w'] step_UpdateMetadata.prems
    by (cases x) (fastforce simp: unchanged_def)+
next
  case (step_Delete i w x w')
  have "good w"
    using step_Delete.prems by (simp add: consistent_def)
  then show ?case
    using Delete_facts [OF step_Delete(1)] consistent_unchanged [of w w']
      consistent_row_update [OF step_Delete.prems, of _ _ w'] step_Delete.prems
    by (cases x) (fastforce simp: unchanged_def)+
qed (blast intro: consistent_unchanged consistent_good Presign_frame OpenRange_frame List_frame
    Metadata_facts [THEN conjunct1] Open_facts [THEN conjunct1])+

lemma consistent_run: "(service_step L sv)\<^sup>*\<^sup>* w w' \<Longrightarrow> consistent w \<Longrightarrow> consistent w'"
  by (induction rule: rtranclp_induct) (auto intro: consistent_step)

subsection \<open>What no call undoes\<close>

text \<open>A completed key stays completed with its file, and a deleted row stays deleted.\<close>

lemma step_kept:
  assumes "service_step L sv w w'" and "good w"
  shows "good w' \<and>
    (w_claims w k = Some \<lparr>ir_Status = IdempotencyCompleted, ir_FileID = Some i\<rparr> \<longrightarrow>
      w_claims w' k = w_claims w k) \<and>
    (\<forall>f. w_rows w c = Some f \<longrightarrow> (\<exists>g. w_rows w' c = Some g \<and> f_StorageKey g = f_StorageKey f \<and>
      f_ID g = f_ID f \<and> (\<not> live f \<longrightarrow> \<not> live g)))"
  using assms
proof (induction rule: service_step.induct)
  case (step_Upload inp w x b w')
  then show ?case
    using Upload_ok [OF _ step_Upload(3) step_Upload(1)] Upload_error [OF _ step_Upload(3) step_Upload(1)]
    by (cases x) (auto simp: stored_def not_stored_def)
next
  case (step_UploadIdempotent inp key w x b w')
  from step_UploadIdempotent(2,3,1) show ?case
    by (cases rule: UploadIdempotent_cases) (auto simp: stored_def not_stored_def)
next
  case (step_UpdateMetadata i tags merge w x w')
  then show ?case
    using UpdateMetadata_facts [OF step_UpdateMetadata(1)] by (cases x) auto
next
  case (step_Delete i w x w')
  then show ?case
    using Delete_facts [OF step_Delete(1)] by (cases x) auto
next
  case (step_Metadata i w x w')
  then show ?case
    using Metadata_facts [OF step_Metadata(1)] by (auto simp: unchanged_def)
next
  case (step_Presign i ttl w x w')
  then show ?case
    using Presign_frame [OF step_Presign(1)] by (auto simp: unchanged_def)
next
  case (step_Open i w x w')
  then show ?case
    using Open_facts [OF step_Open(1)] by (auto simp: unchanged_def)
next
  case (step_OpenRange f off len w x w')
  then show ?case
    using OpenRange_frame [OF step_OpenRange(1)] by (auto simp: unchanged_def)
next
  case (step_List flt w x w')
  then show ?case
    using List_frame [OF step_List(1)] by (auto simp: unchanged_def)
qed

lemma run_kept:
  assumes "(service_step L sv)\<^sup>*\<^sup>* w w'" and "good w"
  shows "good w' \<and>
    (w_claims w k = Some \<lparr>ir_Status = IdempotencyCompleted, ir_FileID = Some i\<rparr> \<longrightarrow>
      w_claims w' k = w_claims w k) \<and>
    (\<forall>f. w_rows w c = Some f \<longrightarrow> (\<exists>g. w_rows w' c = Some g \<and> f_StorageKey g = f_StorageKey f \<and>
      f_ID g = f_ID f \<and> (\<not> live f \<longrightarrow> \<not> live g)))"
  using assms(1)
proof (induction rule: rtranclp_induct)
  case base
  then show ?case using assms(2) by auto
next
  case (step v u)
  then show ?case
    using step_kept [OF step(2), of k i c] by fastforce
qed

text \<open>A new row has an identifier that the call drew.\<close>

lemma stored_fresh:
  assumes "stored inp w g w'"
  shows "same_supply w w' \<and> (w_rows w c = None \<and> w_rows w' c \<noteq> None \<longrightarrow>
    (\<exists>n i. w_next w \<le> n \<and> n < w_next w' \<and> w_uuids w n = Inr i \<and> canon i = Some c))"
proof -
  obtain d where "canon (f_ID g) = Some d" "w_rows w' = (w_rows w)(d \<mapsto> g\<lparr>f_ID := d, f_DeletedAt := None\<rparr>)"
    "w_next w' = Suc (Suc (w_next w))" "w_uuids w (w_next w) = Inr (f_ID g)" "w_uuids w' = w_uuids w"
    using assms by (auto simp: stored_def)
  then show ?thesis
    by (auto simp: same_supply_def intro!: exI [of _ "w_next w"] split: if_splits)
qed

lemma step_fresh:
  assumes "service_step L sv w w'" and "good w"
  shows "same_supply w w' \<and> (w_rows w c = None \<and> w_rows w' c \<noteq> None \<longrightarrow>
    (\<exists>n i. w_next w \<le> n \<and> n < w_next w' \<and> w_uuids w n = Inr i \<and> canon i = Some c))"
  using assms
proof (induction rule: service_step.induct)
  case (step_Upload inp w x b w')
  then show ?case
    using Upload_ok [OF _ step_Upload(3) step_Upload(1)] Upload_error [OF _ step_Upload(3) step_Upload(1)]
    using stored_fresh by (cases x) (auto simp: not_stored_def)
next
  case (step_UploadIdempotent inp key w x b w')
  from step_UploadIdempotent(2,3,1) show ?case
    by (cases rule: UploadIdempotent_cases) (use stored_fresh in \<open>auto simp: not_stored_def\<close>)
next
  case (step_UpdateMetadata i tags merge w x w')
  then show ?case
    using UpdateMetadata_facts [OF step_UpdateMetadata(1)] by (cases x) (auto split: if_splits)
next
  case (step_Delete i w x w')
  then show ?case
    using Delete_facts [OF step_Delete(1)] by (cases x) (auto split: if_splits)
qed (auto simp: unchanged_def dest: Metadata_facts Presign_frame Open_facts OpenRange_frame List_frame)

text \<open>A retry never stores a second file.\<close>

lemma retry_cases:
  assumes "w_claims w k = Some \<lparr>ir_Status = IdempotencyCompleted, ir_FileID = Some i\<rparr>"
    and "Service_UploadIdempotent L sv k inp w = (x, b, w')" and "good w" and "honest_input inp"
  shows "w_rows w' = w_rows w \<and> w_claims w' = w_claims w \<and>
    (case x of
       Inl e \<Rightarrow> True
     | Inr (g, replayed) \<Rightarrow> replayed \<and> live g \<and> b = in_Body inp \<and> w_objs w' = w_objs w \<and>
         (\<exists>c. canon i = Some c \<and> w_rows w c = Some g))"
  using assms(2-4)
  by (cases rule: UploadIdempotent_cases) (use assms(1) in \<open>auto simp: not_stored_def\<close>)

text \<open>In a consistent state a download reads the bytes the record describes, as far as its handle goes.\<close>

lemma Open_matches:
  assumes "consistent w" and "Service_Open L sv i w = (Inr (f, rc), w')"
  shows "\<exists>ob src. w_objs w (f_StorageKey f) = Some ob \<and> matches L f ob \<and> delivers src (o_data ob) \<and>
    rc = newVerifyingReader src (f_Checksum f)"
proof -
  obtain c ob src where o: "live f" "w_rows w c = Some f" "w_objs w (f_StorageKey f) = Some ob"
    "delivers src (o_data ob)" "rc = newVerifyingReader src (f_Checksum f)"
    using Open_facts [OF assms(2)] assms(1) by (auto simp: consistent_def)
  then have "matches L f ob"
    using assms(1) by (fastforce simp: consistent_def backed_def)
  with o show ?thesis
    by blast
qed

end

end
