(* ===== verification/MemoryBackend.thy ===== *)
theory MemoryBackend
  imports Storage UploadReader GoStd "HOL-Library.AList"
begin

text \<open>
  \<open>internal/storage/memory/memory.go\<close>: the in-memory object store.  The Go map is an
  association list without duplicate keys, whose order is the order in which \<open>List\<close>
  happens to iterate (Go leaves it open, and no property depends on it); \<open>m_now\<close> is the
  clock of \<open>time.Now()\<close>.  The store satisfies the contract of \<open>Storage\<close>.
\<close>

section \<open>The store\<close>

record memstore =
  m_objects :: "(string \<times> object) list"
  m_now :: int

abbreviation m_map :: "memstore \<Rightarrow> string \<rightharpoonup> object" where
  "m_map s \<equiv> map_of (m_objects s)"

definition mem_New :: "int \<Rightarrow> memstore" where
  "mem_New now = \<lparr>m_objects = [], m_now = now\<rparr>"

text \<open>\<open>rall\<close> is \<open>io.ReadAll\<close> at the type of the reader.\<close>

definition mem_Put ::
  "('r \<Rightarrow> (bytes \<times> goerr option) \<times> 'r) \<Rightarrow> string \<Rightarrow> 'r \<Rightarrow> int64 \<Rightarrow> string \<Rightarrow> memstore \<Rightarrow>
    unit res \<times> 'r \<times> memstore" where
  "mem_Put rall k r sz ct s =
     (case rall r of
        ((d, Some e), r') \<Rightarrow> (Inl (Wrapped ''memory: read object'' e), r', s)
      | ((d, None), r') \<Rightarrow>
          (Inr (), r',
           s\<lparr>m_objects := AList.update k \<lparr>o_data = d, o_ctype = ct, o_mtime = m_now s\<rparr> (m_objects s)\<rparr>))"

definition mem_PutAged :: "string \<Rightarrow> bytes \<Rightarrow> int \<Rightarrow> memstore \<Rightarrow> memstore" where
  "mem_PutAged k d mtime s =
     s\<lparr>m_objects := AList.update k \<lparr>o_data = d, o_ctype = '''', o_mtime = mtime\<rparr> (m_objects s)\<rparr>"

text \<open>\<open>bytes.NewReader\<close> behind \<open>io.NopCloser\<close>.\<close>

definition bytes_reader :: "bytes \<Rightarrow> source" where
  "bytes_reader d = \<lparr>src_data = d, src_final = EOF, src_sizes = [], src_eager = False\<rparr>"

lemma delivers_bytes_reader [simp]: "delivers (bytes_reader d) d' \<longleftrightarrow> d = d'"
  by (auto simp: delivers_def bytes_reader_def)

definition mem_Get :: "string \<Rightarrow> memstore \<Rightarrow> source res \<times> memstore" where
  "mem_Get k s =
     (case m_map s k of
        None \<Rightarrow> (Inl StorageNotFound, s)
      | Some ob \<Rightarrow> (Inr (bytes_reader (o_data ob)), s))"

text \<open>
  The end of the slice is \<open>offset+length\<close> in 64 bits; slicing panics when it lies before
  the start.
\<close>

definition mem_GetRange :: "string \<Rightarrow> int64 \<Rightarrow> int64 \<Rightarrow> memstore \<Rightarrow> source res \<times> memstore" where
  "mem_GetRange k off len s =
     (case m_map s k of
        None \<Rightarrow> (Inl StorageNotFound, s)
      | Some ob \<Rightarrow>
          let total = len64 (o_data ob)
          in if off <s 0 \<or> total <s off
             then (Inl (Opaque (''memory: range offset '' @ show_int64 off @ '' out of bounds'')), s)
             else
               let stop = (if 0 <s len \<and> off + len <s total then off + len else total)
               in if stop <s off then (Inl (Panicked ''slice bounds out of range''), s)
                  else (Inr (bytes_reader
                          (drop (nat (sint off)) (take (nat (sint stop)) (o_data ob)))), s))"

definition mem_Delete :: "string \<Rightarrow> memstore \<Rightarrow> unit res \<times> memstore" where
  "mem_Delete k s = (Inr (), s\<lparr>m_objects := AList.delete k (m_objects s)\<rparr>)"

definition snapshot :: "memstore \<Rightarrow> storedObject list" where
  "snapshot s =
     map (\<lambda>(k, ob). \<lparr>so_key = k, so_size = len64 (o_data ob), so_mtime = o_mtime ob\<rparr>) (m_objects s)"

definition mem_List :: "ctx \<Rightarrow> (storedObject \<Rightarrow> 'c \<times> memstore \<Rightarrow> unit res \<times> 'c \<times> memstore) \<Rightarrow>
  'c \<times> memstore \<Rightarrow> unit res \<times> 'c \<times> memstore" where
  "mem_List ctx fn st = list_loop ctx fn 0 (snapshot (snd st)) st"

definition mem_Stat :: "string \<Rightarrow> memstore \<Rightarrow> objectInfo res \<times> memstore" where
  "mem_Stat k s =
     (case m_map s k of
        None \<Rightarrow> (Inl StorageNotFound, s)
      | Some ob \<Rightarrow> (Inr \<lparr>i_size = len64 (o_data ob), i_ctype = o_ctype ob, i_etag = ''''\<rparr>, s))"

definition mem_PresignGet :: "string \<Rightarrow> int64 \<Rightarrow> memstore \<Rightarrow> string res \<times> memstore" where
  "mem_PresignGet k ttl s =
     (Inr (''memory://'' @ k @ ''?op=get&ttl='' @ duration_string ttl), s)"

definition mem_PresignPut :: "string \<Rightarrow> int64 \<Rightarrow> memstore \<Rightarrow> string res \<times> memstore" where
  "mem_PresignPut k ttl s =
     (Inr (''memory://'' @ k @ ''?op=put&ttl='' @ duration_string ttl), s)"

definition mem_backend :: "('r \<Rightarrow> (bytes \<times> goerr option) \<times> 'r) \<Rightarrow> (memstore, 'r, 'c) backend" where
  "mem_backend rall =
     \<lparr>b_Put = mem_Put rall, b_Get = mem_Get, b_GetRange = mem_GetRange, b_Delete = mem_Delete,
      b_List = mem_List, b_Stat = mem_Stat, b_PresignGet = mem_PresignGet, b_PresignPut = mem_PresignPut\<rparr>"

lemma mem_backend_sel [simp]:
  "b_Put (mem_backend rall) = mem_Put rall" "b_Get (mem_backend rall) = mem_Get"
  "b_GetRange (mem_backend rall) = mem_GetRange" "b_Delete (mem_backend rall) = mem_Delete"
  "b_List (mem_backend rall) = mem_List" "b_Stat (mem_backend rall) = mem_Stat"
  "b_PresignGet (mem_backend rall) = mem_PresignGet"
  "b_PresignPut (mem_backend rall) = mem_PresignPut"
  by (simp_all add: mem_backend_def)

section \<open>The contract\<close>

definition m_sane :: "memstore \<Rightarrow> bool" where
  "m_sane s \<longleftrightarrow> distinct (map fst (m_objects s))"

lemma m_sane_update: "m_sane s \<Longrightarrow> m_sane (s\<lparr>m_objects := AList.update k v (m_objects s)\<rparr>)"
  by (simp add: m_sane_def distinct_update)

lemma m_sane_delete: "m_sane s \<Longrightarrow> m_sane (s\<lparr>m_objects := AList.delete k (m_objects s)\<rparr>)"
  by (simp add: m_sane_def distinct_delete)

text \<open>A window inside the object is cut without a panic.\<close>

lemma mem_GetRange_window:
  assumes "m_map s k = Some ob" and "int (length (o_data ob)) < 2 ^ 63"
    and "0 \<le> sint off" and "0 < sint len" and "sint off + sint len \<le> int (length (o_data ob))"
  shows "mem_GetRange k off len s =
    (Inr (bytes_reader (take (nat (sint len)) (drop (nat (sint off)) (o_data ob)))), s)"
proof -
  let ?n = "length (o_data ob)"
  have total: "sint (len64 (o_data ob)) = int ?n"
    using assms(2) by (rule sint_len64)
  have sum: "sint (off + len) = sint off + sint len"
    using assms by (intro sint64_add) auto
  let ?stop = "if 0 <s len \<and> off + len <s len64 (o_data ob) then off + len else len64 (o_data ob)"
  have stop: "sint ?stop = sint off + sint len"
    using assms total sum by (auto simp: sint64_less_iff)
  have "drop (nat (sint off)) (take (nat (sint off + sint len)) (o_data ob)) =
      take (nat (sint len)) (drop (nat (sint off)) (o_data ob))"
    using assms by (simp add: drop_take nat_diff_distrib [symmetric])
  then show ?thesis
    using assms total stop unfolding mem_GetRange_def Let_def
    by (simp add: sint64_less_iff)
qed

interpretation mem: object_store bufio_read up_rest up_fin up_ok "mem_backend upload_ReadAll" m_map m_sane
proof
  fix s r sz k ct r' s'
  assume "up_ok r" and put: "b_Put (mem_backend upload_ReadAll) k r sz ct s = (Inr (), r', s')"
  obtain u where u: "upload_ReadAll r = ((up_rest r, eof_nil (up_fin r)), u)" "up_rest u = []"
    using upload_ReadAll_result [OF \<open>up_ok r\<close>] by blast
  with put have "up_fin r = EOF" "r' = u" "s' = s\<lparr>m_objects := AList.update k
      \<lparr>o_data = up_rest r, o_ctype = ct, o_mtime = m_now s\<rparr> (m_objects s)\<rparr>"
    by (auto simp: mem_Put_def eof_nil_def split: if_splits)
  with u(2) show "up_fin r = EOF \<and> up_rest r' = [] \<and>
      (\<exists>ob. m_map s' = (m_map s)(k \<mapsto> ob) \<and> o_data ob = up_rest r)"
    by (auto simp: update_conv'
        intro!: exI [of _ "\<lparr>o_data = up_rest r, o_ctype = ct, o_mtime = m_now s\<rparr>"])
next
  fix s k r sz ct x r' s'
  assume "up_ok r" and "b_Put (mem_backend upload_ReadAll) k r sz ct s = (x, r', s')"
  then show "reads bufio_read r r'"
    using upload_ReadAll_result [of r] by (auto simp: mem_Put_def split: option.splits)
next
  fix s off len k src s' ob
  assume "b_GetRange (mem_backend upload_ReadAll) k off len s = (Inr src, s')"
    and "m_map s k = Some ob" "0 \<le> sint off" "0 < sint len"
    "sint off + sint len \<le> int (length (o_data ob))" "int (length (o_data ob)) < 2 ^ 63"
  then show "delivers src (take (nat (sint len)) (drop (nat (sint off)) (o_data ob)))"
    using mem_GetRange_window [of s k ob off len] by auto
qed (auto simp: mem_Put_def mem_Get_def mem_GetRange_def mem_Stat_def mem_Delete_def mem_PresignGet_def
    mem_PresignPut_def delete_conv' Let_def intro: m_sane_update m_sane_delete
    split: option.splits prod.splits if_splits)

definition demo_store :: memstore where
  "demo_store = mem_PutAged ''k'' [10, 11, 12, 13, 14] 0 (mem_New 0)"

lemma demo_store_map: "m_map demo_store ''k'' = Some \<lparr>o_data = [10, 11, 12, 13, 14], o_ctype = '''', o_mtime = 0\<rparr>"
  by (simp add: demo_store_def mem_PutAged_def mem_New_def)

text \<open>C40. What \<open>GetRange\<close> does with every offset and length.  An offset outside the object is an error.
  Otherwise it delivers what the interface promises: the window of that length, cut off at the end of
  the object, or everything from the offset when the length is not positive.  The one exception is a
  window whose end, \<open>offset+length\<close>, does not fit 64 bits: the sum wraps around and the method panics,
  instead of reading to the end of the object.\<close>

theorem mem_GetRange_complete:
  assumes "m_map s k = Some ob" and "int (length (o_data ob)) < 2 ^ 63"
  shows "mem_GetRange k off len s =
    (if sint off < 0 \<or> int (length (o_data ob)) < sint off
     then Inl (Opaque (''memory: range offset '' @ show_int64 off @ '' out of bounds''))
     else if 0 < sint len \<and> 2 ^ 63 \<le> sint off + sint len
     then Inl (Panicked ''slice bounds out of range'')
     else Inr (bytes_reader (if 0 < sint len then take (nat (sint len)) (drop (nat (sint off)) (o_data ob))
                             else drop (nat (sint off)) (o_data ob))), s)"
proof -
  let ?n = "length (o_data ob)"
  have total: "sint (len64 (o_data ob)) = int ?n"
    using assms(2) by (rule sint_len64)
  consider (outside) "sint off < 0 \<or> int ?n < sint off"
    | (rest) "0 \<le> sint off" "sint off \<le> int ?n" "sint len \<le> 0"
    | (wraps) "0 \<le> sint off" "sint off \<le> int ?n" "0 < sint len" "2 ^ 63 \<le> sint off + sint len"
    | (fits) "0 \<le> sint off" "sint off \<le> int ?n" "0 < sint len" "sint off + sint len < 2 ^ 63"
    by linarith
  then show ?thesis
  proof cases
    case outside
    then show ?thesis
      using assms(1) total by (auto simp: mem_GetRange_def Let_def sint64_less_iff)
  next
    case rest
    then show ?thesis
      using assms(1) total by (auto simp: mem_GetRange_def Let_def sint64_less_iff)
  next
    case wraps
    then have "sint (off + len) < 0"
      using sint64_upper [of off] sint64_upper [of len] by (simp add: sint64_add_wraps)
    then show ?thesis
      using wraps assms(1) total by (auto simp: mem_GetRange_def Let_def sint64_less_iff)
  next
    case fits
    have sum: "sint (off + len) = sint off + sint len"
      using fits by (intro sint64_add) auto
    have cut: "drop (nat (sint off)) (take (nat (sint off + sint len)) (o_data ob)) =
        take (nat (sint len)) (drop (nat (sint off)) (o_data ob))"
      using fits by (simp add: drop_take nat_diff_distrib [symmetric])
    have "take (nat (sint len)) (drop (nat (sint off)) (o_data ob)) = drop (nat (sint off)) (o_data ob)"
      if "int ?n \<le> sint off + sint len"
      using that fits by (intro take_all) auto
    then show ?thesis
      using fits assms(1) total sum cut by (auto simp: mem_GetRange_def Let_def sint64_less_iff)
  qed
qed

theorem mem_GetRange_complete_witness:
  "mem_GetRange ''k'' 1 3 demo_store = (Inr (bytes_reader [11, 12, 13]), demo_store) \<and>
    mem_GetRange ''k'' 1 9223372036854775807 demo_store =
      (Inl (Panicked ''slice bounds out of range''), demo_store)"
  using mem_GetRange_complete [OF demo_store_map, of 1 3]
    mem_GetRange_complete [OF demo_store_map, of 1 9223372036854775807]
  by simp

end
