(* ===== verification/ServiceModel.thy ===== *)
theory ServiceModel
  imports FilesFacts MemoryBackend PostgresRepo
begin

text \<open>
  The file service over the two implementations of the repository: the in-memory object
  store and the SQL tables.  The contracts are discharged here, so every lemma of
  \<open>FilesFacts\<close> holds of this service; the properties below state them, and what needs more
  than the contracts: that calls succeed when the database does not fail.
\<close>

abbreviation model :: "(string \<Rightarrow> string option) \<Rightarrow> (memstore, db, unit) service" where
  "model canon \<equiv> files_New (mem_backend upload_ReadAll) (pg_repo canon)"

interpretation fs: file_service "mem_backend upload_ReadAll" m_map m_sane
  "pg_repo canon" canon pg_rows pg_claims pg_good L
  for canon :: "string \<Rightarrow> string option" and L :: libs ..

text \<open>An empty service.\<close>

definition start :: "(nat \<Rightarrow> string res) \<Rightarrow> int \<Rightarrow> fault list \<Rightarrow> (memstore, db) world" where
  "start u now faults =
     \<lparr>w_store = mem_New now, w_repo = \<lparr>d_files = [], d_idem = [], d_now = now, d_faults = faults\<rparr>,
      w_uuids = u, w_next = 0\<rparr>"

lemma start_consistent:
  assumes "distinct_supply u" and "\<forall>e. Unacked e \<notin> set faults"
  shows "fs.consistent L (start u now faults)"
  using assms
  by (simp add: fs.consistent_def fs.good_def start_def mem_New_def m_sane_def pg_good_def tables_ok_def
      acked_def pg_rows_def backed_def drawn_def ran_def)

lemma start_rows: "pg_rows (w_repo (start u now faults)) = Map.empty"
  by (simp add: start_def pg_rows_def fun_eq_iff)

section \<open>Calls to a database that does not fail\<close>

definition quiet :: "('s, db) world \<Rightarrow> bool" where
  "quiet w \<longleftrightarrow> d_faults (w_repo w) = []"

lemma send_quiet: "d_faults d = [] \<Longrightarrow> send f d = f d"
  by (simp add: send_def)

lemma pg_Get_quiet:
  assumes "d_faults d = []" and "tables_ok d" and "canon i = Some c"
  shows "pg_Get canon i d =
    (case pg_rows d c of
       Some f \<Rightarrow> if live f then Inr f else Inl MetadataNotFound
     | None \<Rightarrow> Inl MetadataNotFound, d)"
proof (cases "find (live_row c) (d_files d)")
  case None
  then show ?thesis
    using assms find_live_row_None [OF None]
    by (auto simp: pg_Get_def send_quiet sql_get_def split: option.splits)
next
  case (Some f)
  then show ?thesis
    using assms find_live_row_Some [OF Some assms(2)]
    by (auto simp: pg_Get_def send_quiet sql_get_def)
qed

lemma pg_Create_quiet:
  assumes "d_faults d = []" and "canon (f_ID f) = Some c" and "pg_rows d c = None"
    and "\<forall>r\<in>set (d_files d). f_StorageKey r \<noteq> f_StorageKey f"
  shows "\<exists>g d'. pg_Create canon f d = (Inr g, d') \<and> d_faults d' = []"
proof -
  have "c \<notin> set (map f_ID (d_files d))" "f_StorageKey f \<notin> set (map f_StorageKey (d_files d))"
    using assms by (auto simp: pg_rows_None_iff)
  then show ?thesis
    using assms(1,2) by (simp add: pg_Create_def insertFile_def send_quiet sql_insert_file_def Let_def)
qed

lemma pg_Claim_quiet:
  assumes "d_faults d = []"
  shows "pg_ClaimIdempotencyKey k d =
    (case pg_claims d k of
       Some rec \<Rightarrow> (Inr (False, Some rec), d)
     | None \<Rightarrow> (Inr (True, None), d\<lparr>d_idem := d_idem d @
         [\<lparr>k_Key = k, k_FileID = None, k_Status = IdempotencyPending, k_CreatedAt = d_now d\<rparr>]\<rparr>))"
proof (cases "pg_claims d k")
  case None
  then have "k \<notin> set (map k_Key (d_idem d))"
    by (simp add: pg_claims_None_iff)
  then show ?thesis
    using assms None by (simp add: pg_ClaimIdempotencyKey_def send_quiet sql_claim_def)
next
  case (Some rec)
  then have "k \<in> set (map k_Key (d_idem d))" "\<exists>r. find (\<lambda>r. k_Key r = k) (d_idem d) = Some r \<and>
      rec = \<lparr>ir_Status = k_Status r, ir_FileID = k_FileID r\<rparr>"
    using pg_claims_None_iff [of d k] by (auto simp: pg_claims_def)
  then show ?thesis
    using assms Some
    by (auto simp: pg_ClaimIdempotencyKey_def send_quiet sql_claim_def sql_read_idem_def)
qed

lemma pg_Delete_quiet:
  assumes "d_faults d = []" and "tables_ok d" and "canon i = Some c" and "pg_rows d c = Some f" and "live f"
  shows "\<exists>d'. pg_Delete canon i d = (Inr (), d')"
proof -
  have "f \<in> set (filter (live_row c) (d_files d))"
    using pg_rows_SomeD [OF assms(4)] assms(5) by (auto simp: live_row_def)
  then have "filter (live_row c) (d_files d) \<noteq> []"
    by (metis list.distinct(1) list.set_cases)
  then show ?thesis
    using assms(1,3) by (simp add: pg_Delete_def send_quiet sql_update_live_def)
qed

lemma pg_Release_quiet:
  "d_faults d = [] \<Longrightarrow> pg_ReleaseIdempotencyKey k d = (Inr (), snd (sql_release k d))"
  by (simp add: pg_ReleaseIdempotencyKey_def send_quiet sql_release_def)

text \<open>The store accepts every complete body.\<close>

lemma stage_succeeds:
  assumes "w_uuids w (w_next w) = Inr i" and "w_uuids w (Suc (w_next w)) = Inr k"
    and "body_fin (in_Body inp) = EOF"
  shows "\<exists>f b w'. stage L (model canon) inp w = (Inr f, b, w') \<and> f_ID f = i \<and> f_StorageKey f = k \<and>
    w_repo w' = w_repo w"
proof -
  obtain ct src where s: "sniff L inp (new_upload (in_Body inp)) = (ct, src)"
    by (cases "sniff L inp (new_upload (in_Body inp))") auto
  note facts = fs.sniff_facts [OF s]
  obtain u where u: "upload_ReadAll src = ((body_rest (in_Body inp), None), u)"
    using upload_ReadAll_result [OF facts(1)] facts(2,3) assms(3) by (auto simp: eof_nil_def)
  show ?thesis
    using assms(1,2) s u
    by (simp add: stage_def newID_def mem_Put_def resolve_size_def on_store_def mem_Stat_def update_conv')
qed

lemma upload_succeeds:
  assumes "fs.good w" and "quiet w" and "honest_input inp" and "body_fin (in_Body inp) = EOF"
    and "w_uuids w (w_next w) = Inr i" and "w_uuids w (Suc (w_next w)) = Inr k"
    and "canon i = Some c" and "pg_rows (w_repo w) c = None"
    and "\<forall>r\<in>set (d_files (w_repo w)). f_StorageKey r \<noteq> k"
  shows "\<exists>f b w'. Service_Upload L (model canon) inp w = (Inr f, b, w') \<and> f_ID f = i \<and> quiet w'"
proof -
  obtain f b w1 where s: "stage L (model canon) inp w = (Inr f, b, w1)" "f_ID f = i"
    "f_StorageKey f = k" "w_repo w1 = w_repo w"
    using stage_succeeds assms(4-6) by blast
  then obtain g d where "pg_Create canon f (w_repo w1) = (Inr g, d)" "d_faults d = []"
    using pg_Create_quiet [of "w_repo w1" canon f c] assms(2,7-9) by (auto simp: quiet_def)
  moreover from this have "f_ID g = i"
    using pg_Create_ok [of "w_repo w1" canon f g d] assms(1) s
    by (auto simp: fs.good_def added_def filled_in_def)
  ultimately show ?thesis
    using s(1) by (simp add: Service_Upload_def on_repo_def quiet_def)
qed

lemma pg_CreateForKey_quiet:
  assumes "d_faults d = []" and "tables_ok d" and "canon (f_ID f) = Some c" and "pg_rows d c = None"
    and "\<forall>r\<in>set (d_files d). f_StorageKey r \<noteq> f_StorageKey f" and "pg_claims d k \<noteq> None"
  shows "\<exists>g d'. pg_CreateForKey canon f k d = (Inr g, d') \<and> d_faults d' = []"
proof -
  obtain g d1 where ins: "insertFile canon f d = (Inr g, d1)" "d_faults d1 = []"
    using pg_Create_quiet [of d canon f c] assms(1,3,4,5) by (auto simp: pg_Create_def)
  have "pg_claims d1 k \<noteq> None"
    using insertFile_ok [OF assms(2) ins(1)] assms(6) by simp
  then have "filter (\<lambda>r. k_Key r = k) (d_idem d1) \<noteq> []"
    by (auto simp: pg_claims_None_iff filter_empty_conv)
  then have n: "length (filter (\<lambda>r. k_Key r = k) (d_idem d1)) \<noteq> 0"
    by simp
  obtain d2 where c: "sql_complete k (f_ID f) d1 = (Inr (length (filter (\<lambda>r. k_Key r = k) (d_idem d1))), d2)"
    "d_faults d2 = []"
    using ins(2) by (simp add: sql_complete_def)
  obtain d3 where "commit d d2 = (Inr (), d3)" "d_faults d3 = []"
    using c(2) by (simp add: commit_def send_quiet rollback_def)
  then show ?thesis
    using assms(1) ins c n by (simp add: pg_CreateForKey_def send_quiet sql_rows_def)
qed

lemma idempotent_upload_succeeds:
  assumes "fs.good w" and "quiet w" and "honest_input inp" and "body_fin (in_Body inp) = EOF"
    and "w_uuids w (w_next w) = Inr i" and "w_uuids w (Suc (w_next w)) = Inr k"
    and "canon i = Some c" and "pg_rows (w_repo w) c = None"
    and "\<forall>r\<in>set (d_files (w_repo w)). f_StorageKey r \<noteq> k" and "pg_claims (w_repo w) key = None"
  shows "\<exists>f b w'. Service_UploadIdempotent L (model canon) key inp w = (Inr (f, False), b, w') \<and> quiet w'"
proof -
  obtain d where cl: "pg_ClaimIdempotencyKey key (w_repo w) = (Inr (True, None), d)"
    "d_faults d = []" "d_files d = d_files (w_repo w)"
    using assms(2,10) by (simp add: pg_Claim_quiet quiet_def)
  from pg_Claim_cases [OF cl(1)] assms(1) have own: "pg_good d" "pg_rows d = pg_rows (w_repo w)"
    "pg_claims d key \<noteq> None"
    by (auto simp: fs.good_def)
  let ?w = "w\<lparr>w_repo := d\<rparr>"
  obtain f b w1 where s: "stage L (model canon) inp ?w = (Inr f, b, w1)" "f_ID f = i"
    "f_StorageKey f = k" "w_repo w1 = d"
    using stage_succeeds [of ?w i k inp L canon] assms(4-6) by auto
  obtain g d' where "pg_CreateForKey canon f key d = (Inr g, d')" "d_faults d' = []"
    using pg_CreateForKey_quiet [of d canon f c key] assms(7-9) cl own s by (auto simp: pg_good_def)
  then show ?thesis
    using cl(1) s by (simp add: Service_UploadIdempotent_def on_repo_def quiet_def)
qed

text \<open>What a retry gets from a database that answers.\<close>

lemma retry_quiet:
  assumes "fs.good w" and "quiet w" and "canon i = Some c"
    and "pg_claims (w_repo w) key = Some \<lparr>ir_Status = IdempotencyCompleted, ir_FileID = Some i\<rparr>"
  shows "Service_UploadIdempotent L (model canon) key inp w =
    ((case pg_rows (w_repo w) c of
        Some g \<Rightarrow> if live g then Inr (g, True) else Inl IdempotencyResultGone
      | None \<Rightarrow> Inl IdempotencyResultGone), in_Body inp, w)"
  using assms pg_Get_quiet [of "w_repo w" canon i c]
  by (auto simp: Service_UploadIdempotent_def replay_def on_repo_def pg_Claim_quiet quiet_def
      fs.good_def pg_good_def split: option.splits)

lemma conflict_quiet:
  assumes "quiet w" and "pg_claims (w_repo w) key = Some rec" and "ir_Status rec = IdempotencyPending"
  shows "Service_UploadIdempotent L (model canon) key inp w = (Inl IdempotencyConflict, in_Body inp, w)"
  using assms
  by (simp add: Service_UploadIdempotent_def replay_def on_repo_def pg_Claim_quiet quiet_def)

text \<open>A live row can be read back, and its object opened.\<close>

lemma Metadata_quiet:
  assumes "fs.good w" and "quiet w" and "lib_uuid_ok L i" and "canon i = Some c"
  shows "Service_Metadata L (model canon) i w =
    (case pg_rows (w_repo w) c of
       Some f \<Rightarrow> if live f then Inr f else Inl FilesNotFound
     | None \<Rightarrow> Inl FilesNotFound, w)"
  using assms pg_Get_quiet [of "w_repo w" canon i c]
  by (auto simp: Service_Metadata_def validID_def on_repo_def quiet_def fs.good_def pg_good_def
      translateNotFound_def split: option.splits)

lemma Open_quiet:
  assumes "fs.good w" and "quiet w" and "lib_uuid_ok L i" and "canon i = Some c"
    and "pg_rows (w_repo w) c = Some f" and "live f" and "m_map (w_store w) (f_StorageKey f) = Some ob"
  shows "Service_Open L (model canon) i w =
    (Inr (f, newVerifyingReader (bytes_reader (o_data ob)) (f_Checksum f)), w)"
  using assms by (simp add: Service_Open_def Metadata_quiet on_store_def mem_Get_def)

text \<open>A failed upload leaves the in-memory store as it was.\<close>

lemma stage_error_store:
  assumes "stage L (model canon) inp w = (Inl e, b, w')"
  shows "w_store w' = w_store w"
proof -
  have "mem_Put upload_ReadAll k src sz ct s = (Inl e', src', s') \<Longrightarrow> s' = s" for k src sz ct s e' src' s'
    by (auto simp: mem_Put_def split: prod.splits option.splits)
  moreover have "mem_Put upload_ReadAll k src sz ct s = (Inr u, src', s') \<Longrightarrow>
      resolve_size (model canon) n k (v\<lparr>w_store := s'\<rparr>) \<noteq> (Inl e', v')"
    for k src sz ct s u src' s' n v e' v'
    by (auto simp: mem_Put_def resolve_size_def on_store_def mem_Stat_def update_conv'
        split: prod.splits option.splits if_splits)
  ultimately show ?thesis
    using assms by (fastforce simp: stage_def newID_def split: sum.splits prod.splits)
qed

lemma drop_object_model:
  "m_map (w_store (drop_object (model canon) k w)) = (m_map (w_store w))(k := None)"
  "w_repo (drop_object (model canon) k w) = w_repo w"
  by (simp_all add: drop_object_def on_store_def mem_Delete_def delete_conv')

lemma Open_source:
  "Service_Open L (model canon) i w = (Inr (f, newVerifyingReader src want), w') \<Longrightarrow> src_final src = EOF"
  by (auto simp: Service_Open_def on_store_def mem_Get_def bytes_reader_def newVerifyingReader_def
      split: sum.splits prod.splits option.splits if_splits)

text \<open>An interrupted body is not stored.\<close>

lemma sniff_tells:
  "sniff L inp (new_upload b) = (ct, src) \<Longrightarrow> src_final (body_source b) \<noteq> UploadTooLarge \<Longrightarrow> told src"
  using peek_tells [of "new_upload b"] new_upload_tells [of b]
  by (auto simp: sniff_def split: if_splits prod.splits)

lemma stage_fails:
  assumes "w_uuids w (w_next w) = Inr i" and "w_uuids w (Suc (w_next w)) = Inr k"
    and "body_fin (in_Body inp) \<noteq> EOF"
  shows "\<exists>e b. stage L (model canon) inp w = (Inl e, b, w\<lparr>w_next := Suc (Suc (w_next w))\<rparr>) \<and>
    (body_fin (in_Body inp) = UploadTooLarge \<and> src_final (body_source (in_Body inp)) \<noteq> UploadTooLarge \<longrightarrow>
      exceeded b)"
proof -
  obtain ct src where s: "sniff L inp (new_upload (in_Body inp)) = (ct, src)"
    by (cases "sniff L inp (new_upload (in_Body inp))") auto
  note facts = fs.sniff_facts [OF s]
  obtain u where u: "upload_ReadAll src = ((body_rest (in_Body inp), Some (body_fin (in_Body inp))), u)"
    using upload_ReadAll_result [OF facts(1)] facts(2,3) assms(3) by (auto simp: eof_nil_def)
  have "w\<lparr>w_next := n, w_store := w_store w\<rparr> = w\<lparr>w_next := n\<rparr>" for n
    by (cases w) simp
  then have "stage L (model canon) inp w =
      (Inl (Wrapped ''files: store object'' (Wrapped ''memory: read object'' (body_fin (in_Body inp)))),
       u_body u, w\<lparr>w_next := Suc (Suc (w_next w))\<rparr>)"
    using assms(1,2) s u by (simp add: stage_def newID_def mem_Put_def)
  moreover have "exceeded (u_body u)"
    if "body_fin (in_Body inp) = UploadTooLarge" "src_final (body_source (in_Body inp)) \<noteq> UploadTooLarge"
    using ReadAll_tells [of src _ u] sniff_tells [OF s that(2)] u that(1) by simp
  ultimately show ?thesis
    by blast
qed

lemma pg_CreateForKey_faults:
  assumes "pg_CreateForKey canon f k d = (x, d')" and "d_faults d = []"
  shows "d_faults d' = []"
proof -

  have ins: "d_faults b = []" if "insertFile canon f a = (y, b)" "d_faults a = []" for a y b
    using that
    by (auto simp: insertFile_def send_quiet sql_insert_file_def Let_def
        split: sum.splits prod.splits option.splits if_splits)
  show ?thesis
    using assms
    by (auto simp: pg_CreateForKey_def send_quiet sql_rows_def sql_complete_def commit_def rollback_def
        split: sum.splits prod.splits if_splits dest!: ins)
qed

lemma release_quiet:
  assumes "d_faults (w_repo w) = []" and "tables_ok (w_repo w)"
    and "map_option ir_Status (pg_claims (w_repo w) k) = Some IdempotencyPending"
  shows "pg_claims (w_repo (release (model canon) k w)) k = None"
  using assms sql_release_ok [of "w_repo w" k] by (simp add: release_def on_repo_def pg_Release_quiet)

text \<open>An interrupted body is not stored under a key either, and the key is free again.\<close>

lemma keyed_upload_fails:
  assumes "fs.good w" and "quiet w" and "honest_input inp" and "pg_claims (w_repo w) key = None"
    and "w_uuids w (w_next w) = Inr i" and "w_uuids w (Suc (w_next w)) = Inr k" and "body_fin (in_Body inp) \<noteq> EOF"
  shows "\<exists>e b w'. Service_UploadIdempotent L (model canon) key inp w = (Inl e, b, w') \<and>
    pg_rows (w_repo w') = pg_rows (w_repo w) \<and> w_store w' = w_store w \<and>
    pg_claims (w_repo w') = pg_claims (w_repo w) \<and>
    (body_fin (in_Body inp) = UploadTooLarge \<and> src_final (body_source (in_Body inp)) \<noteq> UploadTooLarge \<longrightarrow>
      exceeded b)"
proof -
  obtain d where cl: "pg_ClaimIdempotencyKey key (w_repo w) = (Inr (True, None), d)" "d_faults d = []"
    using assms(2,4) by (simp add: pg_Claim_quiet quiet_def)
  from pg_Claim_cases [OF cl(1)] assms(1) have own: "pg_good d"
    "pg_claims d key = Some \<lparr>ir_Status = IdempotencyPending, ir_FileID = None\<rparr>"
    by (auto simp: fs.good_def)
  let ?w = "w\<lparr>w_repo := d\<rparr>"
  obtain e b where st: "stage L (model canon) inp ?w = (Inl e, b, ?w\<lparr>w_next := Suc (Suc (w_next w))\<rparr>)"
    "body_fin (in_Body inp) = UploadTooLarge \<and> src_final (body_source (in_Body inp)) \<noteq> UploadTooLarge \<longrightarrow> exceeded b"
    using stage_fails [of ?w i k inp L canon] assms(5-7) by auto
  let ?w' = "release (model canon) key (?w\<lparr>w_next := Suc (Suc (w_next w))\<rparr>)"
  have up: "Service_UploadIdempotent L (model canon) key inp w = (Inl e, b, ?w')"
    using cl(1) st(1) by (simp add: Service_UploadIdempotent_def on_repo_def)
  have "pg_claims (w_repo ?w') key = None"
    using own cl(2) by (intro release_quiet) (simp_all add: pg_good_def)
  with up assms(1,3) have "pg_rows (w_repo ?w') = pg_rows (w_repo w) \<and> pg_claims (w_repo ?w') = pg_claims (w_repo w)"
    by (cases rule: fs.UploadIdempotent_cases) (auto simp: fs.not_stored_def)
  moreover have "w_store ?w' = w_store w"
    by (simp add: release_def on_repo_def split: prod.splits)
  ultimately show ?thesis
    using up st(2) by blast
qed

text \<open>The first upload under a key.\<close>

lemma first_upload:
  assumes "Service_UploadIdempotent L (model canon) key inp w = (Inr (f, False), b, w1)"
    and "fs.good w" and "honest_input inp"
  shows "\<exists>c. canon (f_ID f) = Some c \<and> fs.good w1 \<and>
    pg_rows (w_repo w1) c = Some (f\<lparr>f_ID := c, f_DeletedAt := None\<rparr>) \<and>
    pg_claims (w_repo w1) key = Some \<lparr>ir_Status = IdempotencyCompleted, ir_FileID = Some (f_ID f)\<rparr>"
proof -
  have "fs.stored canon L inp w f w1 \<and> pg_claims (w_repo w1) key =
      Some \<lparr>ir_Status = IdempotencyCompleted, ir_FileID = Some (f_ID f)\<rparr>"
    using assms by (cases rule: fs.UploadIdempotent_cases) simp_all
  then show ?thesis
    by (auto simp: fs.stored_def)
qed

section \<open>A concrete run\<close>

definition demo_libs :: libs where
  "demo_libs = \<lparr>lib_sha256 = (\<lambda>bs. bs), lib_DetectContentType = (\<lambda>_. ''text/plain''),
     lib_uuid_ok = (\<lambda>_. True)\<rparr>"

definition demo_uuids :: "nat \<Rightarrow> string res" where
  "demo_uuids n = Inr (replicate n CHR ''a'')"

definition demo_input :: uploadInput where
  "demo_input = \<lparr>in_Filename = ''a.txt'', in_ContentType = '''', in_Size = -1, in_Tags = None,
     in_Body = Plain \<lparr>src_data = [1, 2, 3], src_final = EOF, src_sizes = [1], src_eager = False\<rparr>\<rparr>"

definition demo_start :: "(memstore, db) world" where
  "demo_start = start demo_uuids 0 []"

lemma demo_distinct: "distinct_supply demo_uuids"
  unfolding distinct_supply_def demo_uuids_def by (metis length_replicate sum.inject(2))

lemma demo_good: "fs.good demo_start" "quiet demo_start" "honest_input demo_input"
  using start_consistent [OF demo_distinct, of "[]"]
  by (simp_all add: fs.consistent_def demo_start_def quiet_def start_def honest_input_def honest_size_def
      demo_input_def)

lemma demo_upload:
  "\<exists>f b w. Service_Upload demo_libs (model Some) demo_input demo_start = (Inr f, b, w) \<and>
    f_ID f = '''' \<and> quiet w"
  by (rule upload_succeeds [OF demo_good, where c = "''''" and k = "''a''"])
    (simp_all add: demo_input_def demo_start_def start_def demo_uuids_def pg_rows_def)

lemma demo_idempotent:
  "\<exists>f b w. Service_UploadIdempotent demo_libs (model Some) ''k'' demo_input demo_start =
    (Inr (f, False), b, w) \<and> quiet w"
  by (rule idempotent_upload_succeeds [OF demo_good, where c = "''''" and k = "''a''"])
    (simp_all add: demo_input_def demo_start_def start_def demo_uuids_def pg_rows_def pg_claims_def)

text \<open>A retry of the first upload.\<close>

lemma demo_retry:
  obtains f b w h where "Service_UploadIdempotent demo_libs (model Some) ''k'' demo_input demo_start =
      (Inr (f, False), b, w)" "quiet w"
    "Service_UploadIdempotent demo_libs (model Some) ''k'' demo_input w = (Inr (h, True), in_Body demo_input, w)"
    "f_StorageKey h = f_StorageKey f"
proof -
  obtain f b w where up: "Service_UploadIdempotent demo_libs (model Some) ''k'' demo_input demo_start =
      (Inr (f, False), b, w)" "quiet w"
    using demo_idempotent by blast
  then obtain h where h: "pg_rows (w_repo w) (f_ID f) = Some h" "live h" "fs.good w" "f_StorageKey h = f_StorageKey f"
    "pg_claims (w_repo w) ''k'' = Some \<lparr>ir_Status = IdempotencyCompleted, ir_FileID = Some (f_ID f)\<rparr>"
    using first_upload [OF up(1) demo_good(1,3)] by auto
  then have "Service_UploadIdempotent demo_libs (model Some) ''k'' demo_input w =
      (Inr (h, True), in_Body demo_input, w)"
    using retry_quiet [of w Some "f_ID f" "f_ID f" "''k''" demo_libs demo_input] up(2) by simp
  from that [OF up this h(4)] show thesis .
qed

text \<open>A complete body is staged whatever the database is going to do.\<close>

lemma demo_stage:
  obtains f b w1 where "stage demo_libs (model Some) demo_input (start demo_uuids 0 faults) = (Inr f, b, w1)"
    "f_ID f = ''''" "f_StorageKey f = ''a''" "w_repo w1 = w_repo (start demo_uuids 0 faults)"
proof -
  have "w_uuids (start demo_uuids 0 faults) (w_next (start demo_uuids 0 faults)) = Inr ''''"
    "w_uuids (start demo_uuids 0 faults) (Suc (w_next (start demo_uuids 0 faults))) = Inr ''a''"
    "body_fin (in_Body demo_input) = EOF"
    by (simp_all add: start_def demo_uuids_def demo_input_def)
  from stage_succeeds [OF this] that show thesis
    by blast
qed

section \<open>Properties\<close>

text \<open>What was uploaded can be downloaded: after a successful upload, opening the returned
  identifier streams exactly the bytes of the body and ends without an error, and the record
  has their length and hash.  The write may have gone through any failures of the database
  before.\<close>

theorem upload_open_roundtrip:
  assumes "Service_Upload L (model canon) inp w = (Inr f, b, w1)"
    and "fs.good w" and "honest_input inp" and "quiet w1" and "lib_uuid_ok L (f_ID f)"
  shows "\<exists>g rc. Service_Open L (model canon) (f_ID f) w1 = (Inr (g, rc), w1) \<and>
    io_Copy (lib_sha256 L) rc = (body_rest (in_Body inp), None) \<and>
    f_SizeBytes g = len64 (body_rest (in_Body inp)) \<and>
    f_Checksum g = hex_encode (lib_sha256 L (body_rest (in_Body inp))) \<and>
    f_Filename g = f_Filename f \<and> f_ContentType g = f_ContentType f"
proof -
  have s: "fs.stored canon L inp w f w1"
    using fs.Upload_ok [OF assms(1-3)] by simp
  obtain c ob where c: "canon (f_ID f) = Some c"
    "pg_rows (w_repo w1) c = Some (f\<lparr>f_ID := c, f_DeletedAt := None\<rparr>)"
    "m_map (w_store w1) (f_StorageKey f) = Some ob" "o_data ob = body_rest (in_Body inp)"
    "matches L f ob" "fs.good w1"
    using s by (auto simp: fs.stored_def)
  then have "Service_Open L (model canon) (f_ID f) w1 =
      (Inr (f\<lparr>f_ID := c, f_DeletedAt := None\<rparr>,
        newVerifyingReader (bytes_reader (body_rest (in_Body inp))) (f_Checksum f)), w1)"
    using Open_quiet [of w1 L "f_ID f" canon c _ ob] assms(4,5) by simp
  moreover have "io_Copy (lib_sha256 L)
      (newVerifyingReader (bytes_reader (body_rest (in_Body inp))) (f_Checksum f)) =
      (body_rest (in_Body inp), None)"
    using c(4,5)
    by (simp add: matches_def newVerifyingReader_def v_rest_def v_fin_def bytes_reader_def eof_nil_def)
  ultimately show ?thesis
    using c(4,5) by (fastforce simp: matches_def)
qed

theorem upload_open_roundtrip_witness:
  "\<exists>f b w1 g rc. Service_Upload demo_libs (model Some) demo_input demo_start = (Inr f, b, w1) \<and>
    Service_Open demo_libs (model Some) (f_ID f) w1 = (Inr (g, rc), w1) \<and>
    io_Copy (\<lambda>bs. bs) rc = ([1, 2, 3], None) \<and> f_SizeBytes g = 3"
proof -
  obtain f b w1 where up: "Service_Upload demo_libs (model Some) demo_input demo_start = (Inr f, b, w1)"
    "quiet w1"
    using demo_upload by blast
  have "lib_uuid_ok demo_libs (f_ID f)" "lib_sha256 demo_libs = (\<lambda>bs. bs)"
    "body_rest (in_Body demo_input) = [1, 2, 3]" "len64 [1, 2, 3 :: 8 word] = 3"
    by (simp_all add: demo_libs_def demo_input_def len64_def)
  then show ?thesis
    using up upload_open_roundtrip [OF up(1) demo_good(1,3) up(2)] by fastforce
qed

text \<open>What a failed upload leaves of the objects, with the key it drew not in use.\<close>

lemma dropped_store:
  assumes "stage L (model canon) inp w = (Inr f, b, w1)" and "fs.good w" and "honest_input inp"
    and "\<And>k. w_uuids w (Suc (w_next w)) = Inr k \<Longrightarrow> m_map (w_store w) k = None"
  shows "m_map (w_store (drop_object (model canon) (f_StorageKey f) (w1\<lparr>w_repo := d\<rparr>))) = m_map (w_store w)"
proof -
  have "fs.staged L inp w f w1"
    using fs.stage_ok [OF assms(1-3)] .
  then show ?thesis
    using assms(4) by (auto simp: fs.staged_def drop_object_model fun_upd_idem)
qed

lemma failed_upload_store:
  assumes "Service_Upload L (model canon) inp w = (Inl e, b, w')" and "fs.good w" and "honest_input inp"
    and "\<And>k. w_uuids w (Suc (w_next w)) = Inr k \<Longrightarrow> m_map (w_store w) k = None"
  shows "m_map (w_store w') = m_map (w_store w)"
proof -
  consider (stage) "stage L (model canon) inp w = (Inl e, b, w')"
    | (create) f w1 d where "stage L (model canon) inp w = (Inr f, b, w1)"
        "w' = drop_object (model canon) (f_StorageKey f) (w1\<lparr>w_repo := d\<rparr>)"
    using assms(1)
    by (auto simp: Service_Upload_def split: sum.splits prod.splits elim!: fs.on_repoE)
  then show ?thesis
    using stage_error_store dropped_store [OF _ assms(2-4)] by cases simp_all
qed

lemma failed_keyed_upload_store:
  assumes "Service_UploadIdempotent L (model canon) key inp w = (Inl e, b, w')" and "fs.good w" and "honest_input inp"
    and "\<And>k. w_uuids w (Suc (w_next w)) = Inr k \<Longrightarrow> m_map (w_store w) k = None"
  shows "m_map (w_store w') = m_map (w_store w)"
proof -
  obtain y d where cl: "pg_ClaimIdempotencyKey key (w_repo w) = (y, d)"
    by (metis surj_pair)
  let ?w = "w\<lparr>w_repo := d\<rparr>"
  have good: "fs.good ?w"
    using pg.Claim_frame [of "w_repo w" canon key y d] pg.Claim_ok [of "w_repo w" canon key _ d] cl assms(2)
    by (cases "\<exists>p. y = Inr (True, p)") (auto simp: fs.good_def)
  have rel: "w_store (release (model canon) key v) = w_store v" for v
    by (simp add: release_def on_repo_def split: prod.splits)
  have rep: "w_store v = w_store ?w" if "replay (model canon) ex ?w = (z, v)" for ex z v
    using that by (auto simp: replay_def on_repo_def split: option.splits bool.splits sum.splits prod.splits if_splits)
  note staged = dropped_store [OF _ good assms(3), simplified, OF _ assms(4)]
  consider "w' = ?w" | ex z where "replay (model canon) ex ?w = (z, w')"
    | e' b' w2 where "stage L (model canon) inp ?w = (Inl e', b', w2)" "w' = release (model canon) key w2"
    | f b' w2 d' where "stage L (model canon) inp ?w = (Inr f, b', w2)"
        "w' = release (model canon) key (drop_object (model canon) (f_StorageKey f) (w2\<lparr>w_repo := d'\<rparr>))"
    using assms(1) cl
    by (auto simp: Service_UploadIdempotent_def on_repo_def split: sum.splits prod.splits bool.splits)
  then show ?thesis
  proof cases
    case 3
    then show ?thesis
      using stage_error_store [OF 3(1)] by (simp add: rel)
  next
    case 4
    then show ?thesis
      using staged [OF 4(1)] by (simp add: rel)
  qed (simp_all add: rep)
qed

text \<open>C14. A failed upload, with or without an idempotency key, leaves nothing behind in the in-memory
  store, whose \<open>Delete\<close> does not fail, and in a database that acknowledges what it does: when it
  returns an error, the rows and the objects are what they were, provided that the key it drew was
  not in use.  What may remain is the claim of its idempotency key, pending, when its release fails.\<close>

theorem failed_upload_leaves_nothing:
  assumes "if key = '''' then Service_Upload L (model canon) inp w = (Inl e, b, w')
      else Service_UploadIdempotent L (model canon) key inp w = (Inl e, b, w')"
    and "fs.good w" and "honest_input inp"
    and "\<And>k. w_uuids w (Suc (w_next w)) = Inr k \<Longrightarrow> m_map (w_store w) k = None"
  shows "pg_rows (w_repo w') = pg_rows (w_repo w) \<and> m_map (w_store w') = m_map (w_store w) \<and>
    (pg_claims (w_repo w') = pg_claims (w_repo w) \<or>
     key \<noteq> '''' \<and> pg_claims (w_repo w) key = None \<and> pg_claims (w_repo w') = (pg_claims (w_repo w))
       (key \<mapsto> \<lparr>ir_Status = IdempotencyPending, ir_FileID = None\<rparr>))"
proof (cases "key = ''''")
  case True
  then have up: "Service_Upload L (model canon) inp w = (Inl e, b, w')"
    using assms(1) by simp
  show ?thesis
    using fs.Upload_error [OF up assms(2,3)] failed_upload_store [OF up assms(2-4)] by (auto simp: fs.not_stored_def)
next
  case False
  then have up: "Service_UploadIdempotent L (model canon) key inp w = (Inl e, b, w')"
    using assms(1) by simp
  have "m_map (w_store w') = m_map (w_store w)"
    by (rule failed_keyed_upload_store [OF up assms(2-4)])
  with up assms(2,3) False show ?thesis
    by (cases rule: fs.UploadIdempotent_cases) (auto simp: fs.not_stored_def)
qed

theorem failed_upload_leaves_nothing_witness:
  "\<exists>e b w. Service_Upload demo_libs (model Some) demo_input (start demo_uuids 0 [Lost ''timeout'']) =
      (Inl e, b, w) \<and> pg_rows (w_repo w) = Map.empty \<and> m_map (w_store w) = Map.empty"
proof -
  let ?w = "start demo_uuids 0 [Lost ''timeout'']"
  obtain f b w1 where "stage demo_libs (model Some) demo_input ?w = (Inr f, b, w1)"
    "w_repo w1 = w_repo ?w"
    by (rule demo_stage)
  then obtain e w where up: "Service_Upload demo_libs (model Some) demo_input ?w = (Inl e, b, w)"
    by (simp add: Service_Upload_def on_repo_def pg_Create_def insertFile_def send_def start_def Let_def)
  have "fs.good ?w"
    using start_consistent [OF demo_distinct, of "[Lost ''timeout'']"] by (simp add: fs.consistent_def)
  from failed_upload_leaves_nothing [of "[]" demo_libs Some demo_input ?w e b w] up this demo_good(3) have
    "pg_rows (w_repo w) = pg_rows (w_repo ?w)" "m_map (w_store w) = m_map (w_store ?w)"
    by (simp_all add: start_def mem_New_def)
  then show ?thesis
    using up by (auto simp: start_def mem_New_def pg_rows_def fun_eq_iff)
qed

text \<open>C34. A lost acknowledgement breaks the consistency: when the insert commits but its answer
  is lost, the upload reports an error and deletes the object, although the record is live.\<close>

theorem unacked_commit_loses_object:
  "\<exists>e b w f. Service_Upload demo_libs (model Some) demo_input
      (start demo_uuids 0 [Unacked ''connection reset'']) = (Inl e, b, w) \<and>
    pg_rows (w_repo w) '''' = Some f \<and> live f \<and> m_map (w_store w) (f_StorageKey f) = None"
proof -
  let ?w = "start demo_uuids 0 [Unacked ''connection reset'']"
  obtain f b w1 where s: "stage demo_libs (model Some) demo_input ?w = (Inr f, b, w1)"
    "f_ID f = ''''" "w_repo w1 = w_repo ?w"
    by (rule demo_stage)
  obtain e d g where c: "pg_Create Some f (w_repo w1) = (Inl e, d)" "pg_rows d '''' = Some g"
    "live g" "f_StorageKey g = f_StorageKey f"
    using s(2,3)
    by (cases "f_Metadata f")
      (simp_all add: pg_Create_def insertFile_def send_def sql_insert_file_def start_def Let_def pg_rows_def)
  show ?thesis
    using s(1) c by (simp add: Service_Upload_def on_repo_def drop_object_model)
qed

text \<open>C21. A failed idempotent upload gives its key back: when the database answers, the key is
  free again after the error, so the client can retry under it.\<close>

theorem failed_upload_frees_key:
  assumes "Service_UploadIdempotent L (model canon) key inp w = (Inl e, b, w')"
    and "fs.good w" and "honest_input inp" and "quiet w" and "pg_claims (w_repo w) key = None"
  shows "pg_claims (w_repo w') key = None"
proof -
  obtain d where cl: "pg_ClaimIdempotencyKey key (w_repo w) = (Inr (True, None), d)" "d_faults d = []"
    using assms(4,5) by (simp add: pg_Claim_quiet quiet_def)
  from pg_Claim_cases [OF cl(1)] assms(2) have own: "pg_good d"
    "pg_claims d key = Some \<lparr>ir_Status = IdempotencyPending, ir_FileID = None\<rparr>"
    by (auto simp: fs.good_def)
  let ?w = "w\<lparr>w_repo := d\<rparr>"
  have good: "fs.good ?w"
    using assms(2) own(1) by (simp add: fs.good_def)
  consider (stage) e' b' w2 where "stage L (model canon) inp ?w = (Inl e', b', w2)"
      "w' = release (model canon) key w2"
    | (create) f b' w2 d' e' where "stage L (model canon) inp ?w = (Inr f, b', w2)"
        "pg_CreateForKey canon f key (w_repo w2) = (Inl e', d')"
        "w' = release (model canon) key (drop_object (model canon) (f_StorageKey f) (w2\<lparr>w_repo := d'\<rparr>))"
    using assms(1) cl(1)
    by (auto simp: Service_UploadIdempotent_def on_repo_def split: sum.splits prod.splits)
  then show ?thesis
  proof cases
    case stage
    then have "w_repo w2 = d"
      using fs.stage_error [OF stage(1) good assms(3)] by simp
    then show ?thesis
      using stage(2) own cl(2) release_quiet [of w2 key] by (simp add: pg_good_def)
  next
    case create
    then have "w_repo w2 = d"
      using fs.stage_ok [OF create(1) good assms(3)] by (simp add: fs.staged_def)
    then have "pg_claims d' = pg_claims d" "pg_good d'" "d_faults d' = []"
      using create(2) pg_CreateForKey_error [of canon f key d e' d'] own(1) cl(2)
        pg_CreateForKey_faults [of canon f key d "Inl e'" d'] by simp_all
    then show ?thesis
      using create(3) own(2)
        release_quiet [of "drop_object (model canon) (f_StorageKey f) (w2\<lparr>w_repo := d'\<rparr>)" key]
      by (simp add: pg_good_def drop_object_model)
  qed
qed

definition broken_input :: uploadInput where
  "broken_input = demo_input\<lparr>in_Body :=
     Plain \<lparr>src_data = [1], src_final = UnexpectedEOF, src_sizes = [], src_eager = False\<rparr>\<rparr>"

lemma broken_input_facts: "body_fin (in_Body broken_input) \<noteq> EOF" "honest_input broken_input"
  by (simp_all add: broken_input_def honest_input_def honest_size_def demo_input_def)

theorem failed_upload_frees_key_witness:
  "\<exists>e b w. Service_UploadIdempotent demo_libs (model Some) ''k'' broken_input demo_start = (Inl e, b, w) \<and>
    pg_claims (w_repo w) ''k'' = None"
proof -
  have none: "pg_claims (w_repo demo_start) ''k'' = None"
    by (simp add: demo_start_def start_def pg_claims_def)
  obtain d where cl: "pg_ClaimIdempotencyKey ''k'' (w_repo demo_start) = (Inr (True, None), d)"
    using demo_good(2) none by (simp add: pg_Claim_quiet quiet_def)
  have "w_uuids (demo_start\<lparr>w_repo := d\<rparr>) (w_next (demo_start\<lparr>w_repo := d\<rparr>)) = Inr ''''"
    "w_uuids (demo_start\<lparr>w_repo := d\<rparr>) (Suc (w_next (demo_start\<lparr>w_repo := d\<rparr>))) = Inr ''a''"
    by (simp_all add: demo_start_def start_def demo_uuids_def)
  from stage_fails [OF this broken_input_facts(1), of demo_libs Some] obtain e b w where
    "stage demo_libs (model Some) broken_input (demo_start\<lparr>w_repo := d\<rparr>) = (Inl e, b, w)"
    by blast
  then obtain w' where
    "Service_UploadIdempotent demo_libs (model Some) ''k'' broken_input demo_start = (Inl e, b, w')"
    using cl by (simp add: Service_UploadIdempotent_def on_repo_def)
  with failed_upload_frees_key [OF this demo_good(1) broken_input_facts(2) demo_good(2) none] show ?thesis
    by blast
qed

text \<open>C36. A dropped connection strands the key.  The release runs under the context of the
  request: when the client's disconnection has cancelled it, the statement is not run, the
  claim stays pending, and every retry is answered with a conflict, although no upload is in
  progress.\<close>

theorem cancelled_request_strands_key:
  "\<exists>e b w. Service_UploadIdempotent demo_libs (model Some) ''k'' broken_input
      (start demo_uuids 0 [Fine, Lost ''context canceled'']) = (Inl e, b, w) \<and> quiet w \<and>
    (\<forall>inp. Service_UploadIdempotent demo_libs (model Some) ''k'' inp w =
      (Inl IdempotencyConflict, in_Body inp, w))"
proof -
  let ?w = "start demo_uuids 0 [Fine, Lost ''context canceled'']"
  obtain d where cl: "pg_ClaimIdempotencyKey ''k'' (w_repo ?w) = (Inr (True, None), d)"
    "d_faults d = [Lost ''context canceled'']"
    "pg_claims d ''k'' = Some \<lparr>ir_Status = IdempotencyPending, ir_FileID = None\<rparr>"
    by (simp add: start_def pg_ClaimIdempotencyKey_def send_def sql_claim_def pg_claims_def)
  let ?v = "?w\<lparr>w_repo := d\<rparr>"
  have "w_uuids ?v (w_next ?v) = Inr ''''" "w_uuids ?v (Suc (w_next ?v)) = Inr ''a''"
    by (simp_all add: start_def demo_uuids_def)
  from stage_fails [OF this broken_input_facts(1)] obtain e b where
    s: "stage demo_libs (model Some) broken_input ?v = (Inl e, b, ?v\<lparr>w_next := Suc (Suc (w_next ?v))\<rparr>)"
    by blast
  define w where "w = release (model Some) ''k'' (?v\<lparr>w_next := Suc (Suc (w_next ?v))\<rparr>)"
  have "w_repo w = pop d" "quiet w"
    using cl(2)
    by (simp_all add: w_def release_def on_repo_def pg_ReleaseIdempotencyKey_def send_def pop_def quiet_def)
  then have "\<forall>inp. Service_UploadIdempotent demo_libs (model Some) ''k'' inp w =
      (Inl IdempotencyConflict, in_Body inp, w)"
    using cl(3) conflict_quiet [of w "''k''" _ demo_libs Some] by simp
  moreover have "Service_UploadIdempotent demo_libs (model Some) ''k'' broken_input ?w = (Inl e, b, w)"
    using cl(1) s by (simp add: Service_UploadIdempotent_def on_repo_def w_def)
  ultimately show ?thesis
    using \<open>quiet w\<close> by blast
qed

text \<open>Deletion is final for readers: after a successful delete, whatever other calls are
  served, neither the record nor the bytes can be obtained under the identifier, while the
  object stays in the store for the collector.\<close>

theorem deleted_is_gone:
  assumes "Service_Delete L (model canon) i w = (Inr (), w1)" and "fs.good w"
    and "(service_step L (model canon))\<^sup>*\<^sup>* w1 w2"
  shows "m_map (w_store w1) = m_map (w_store w) \<and>
    (\<forall>f w3. Service_Metadata L (model canon) i w2 \<noteq> (Inr f, w3)) \<and>
    (\<forall>f rc w3. Service_Open L (model canon) i w2 \<noteq> (Inr (f, rc), w3))"
proof -
  obtain c f t where del: "canon i = Some c" "pg_rows (w_repo w1) c = Some (f\<lparr>f_DeletedAt := Some t\<rparr>)"
    "fs.good w1" "m_map (w_store w1) = m_map (w_store w)"
    using fs.Delete_facts [OF assms(1,2)] by auto
  obtain g where g: "pg_rows (w_repo w2) c = Some g" "\<not> live g" "fs.good w2"
    using fs.run_kept [OF assms(3) del(3), of "''''" "''''" c] del(2) by auto
  have "Service_Metadata L (model canon) i w2 \<noteq> (Inr h, w3)" for h w3
  proof
    assume "Service_Metadata L (model canon) i w2 = (Inr h, w3)"
    from fs.Metadata_facts [OF this g(3)] show False
      using g del(1) by auto
  qed
  moreover have "Service_Open L (model canon) i w2 \<noteq> (Inr (h, rc), w3)" for h rc w3
  proof
    assume "Service_Open L (model canon) i w2 = (Inr (h, rc), w3)"
    from fs.Open_facts [OF this g(3)] show False
      using g del(1) by auto
  qed
  ultimately show ?thesis
    using del(4) by blast
qed

theorem deleted_is_gone_witness:
  "\<exists>f b w w1. Service_Upload demo_libs (model Some) demo_input demo_start = (Inr f, b, w) \<and>
    Service_Delete demo_libs (model Some) (f_ID f) w = (Inr (), w1) \<and>
    (\<forall>g w2. Service_Metadata demo_libs (model Some) (f_ID f) w1 \<noteq> (Inr g, w2))"
proof -
  obtain f b w where up: "Service_Upload demo_libs (model Some) demo_input demo_start = (Inr f, b, w)"
    "quiet w"
    using demo_upload by blast
  obtain g where g: "pg_rows (w_repo w) (f_ID f) = Some g" "live g" "fs.good w"
    using fs.Upload_ok [OF up(1) demo_good(1,3)] by (auto simp: fs.stored_def)
  then obtain d where "pg_Delete Some (f_ID f) (w_repo w) = (Inr (), d)"
    using pg_Delete_quiet [of "w_repo w" Some "f_ID f"] up(2)
    by (auto simp: quiet_def fs.good_def pg_good_def)
  then have "Service_Delete demo_libs (model Some) (f_ID f) w = (Inr (), w\<lparr>w_repo := d\<rparr>)"
    by (simp add: Service_Delete_def validID_def demo_libs_def on_repo_def)
  from deleted_is_gone [OF this g(3) rtranclp.rtrancl_refl] show ?thesis
    using up(1) \<open>Service_Delete _ _ _ _ = _\<close> by blast
qed

end
