(* ===== verification/GcCollector.thy ===== *)
theory GcCollector
  imports FilesFacts
begin

text \<open>
  \<open>internal/gc/gc.go\<close>: the collector.  \<open>collector\<close> is the struct \<open>Collector\<close> (without its
  logger and its observer, whose calls \<open>Run\<close> returns as a list), \<open>gcStats\<close> is \<open>Stats\<close>.  A
  sweep works on the same \<open>world\<close> as the service.  Its context is the sequence of what the
  polls of \<open>ctx.Err()\<close> return, its clock the values of the two calls of \<open>time.Now()\<close>.

  The lemmas are proved in the locale \<open>gc_service\<close>, which extends the contract of the service
  by what a collector needs: that \<open>List\<close> visits the objects of the store, and what the
  repository promises of its purging methods.
\<close>

section \<open>The collector\<close>

record gcStats =
  st_Purged :: nat
  st_Orphans :: nat
  st_ExpiredKeys :: nat

definition no_stats :: gcStats where
  "no_stats = \<lparr>st_Purged = 0, st_Orphans = 0, st_ExpiredKeys = 0\<rparr>"

definition defaultBatch :: int64 where
  "defaultBatch = 500"

record ('s, 'd) collector =
  co_store :: "('s, uploadReader, gcStats) backend"
  co_repo :: "'d repository"
  co_interval :: int64
  co_grace :: int64
  co_idemTTL :: int64
  co_batch :: int64

definition gc_New ::
  "('s, uploadReader, gcStats) backend \<Rightarrow> 'd repository \<Rightarrow> int64 \<Rightarrow> int64 \<Rightarrow> int64 \<Rightarrow> ('s, 'd) collector" where
  "gc_New store repo interval grace idemTTL =
     \<lparr>co_store = store, co_repo = repo, co_interval = interval, co_grace = grace,
      co_idemTTL = idemTTL, co_batch = defaultBatch\<rparr>"

text \<open>\<open>t.Add(-d)\<close>.\<close>

definition time_before :: "int \<Rightarrow> int64 \<Rightarrow> int" where
  "time_before t d = t + sint (- d)"

text \<open>
  The loop over the deleted rows: the object first, then the row; a failure of either leaves
  the row for the next sweep.  It returns how many polls of the context it has made.
\<close>

fun purge_loop ::
  "('s, 'd) collector \<Rightarrow> ctx \<Rightarrow> nat \<Rightarrow> File list \<Rightarrow> gcStats \<Rightarrow> ('s, 'd) world \<Rightarrow>
    goerr option \<times> nat \<times> gcStats \<times> ('s, 'd) world" where
  "purge_loop c ctx i [] st w = (None, i, st, w)"
| "purge_loop c ctx i (f # fs) st w =
     (case ctx i of
        Some e \<Rightarrow> (Some e, Suc i, st, w)
      | None \<Rightarrow>
          (case on_store (b_Delete (co_store c) (f_StorageKey f)) w of
             (Inl _, w1) \<Rightarrow> purge_loop c ctx (Suc i) fs st w1
           | (Inr _, w1) \<Rightarrow>
               (case on_repo (r_Purge (co_repo c) (f_ID f)) w1 of
                  (Inl _, w2) \<Rightarrow> purge_loop c ctx (Suc i) fs st w2
                | (Inr _, w2) \<Rightarrow>
                    purge_loop c ctx (Suc i) fs (st\<lparr>st_Purged := Suc (st_Purged st)\<rparr>) w2)))"

definition purgeDeleted ::
  "('s, 'd) collector \<Rightarrow> ctx \<Rightarrow> gcStats \<Rightarrow> ('s, 'd) world \<Rightarrow>
    goerr option \<times> nat \<times> gcStats \<times> ('s, 'd) world" where
  "purgeDeleted c ctx st w =
     (case on_repo (r_ListDeleted (co_repo c) (co_batch c)) w of
        (Inl e, w1) \<Rightarrow> (Some e, 0, st, w1)
      | (Inr deleted, w1) \<Rightarrow> purge_loop c ctx 0 deleted st w1)"

text \<open>The callback of the enumeration.\<close>

definition visit ::
  "('s, 'd) collector \<Rightarrow> string set \<Rightarrow> int \<Rightarrow> storedObject \<Rightarrow> gcStats \<times> 's \<Rightarrow> unit res \<times> gcStats \<times> 's" where
  "visit c keys cutoff ob st_s =
     (case st_s of
        (st, s) \<Rightarrow>
          if so_key ob \<in> keys then (Inr (), st, s)
          else if cutoff < so_mtime ob then (Inr (), st, s)
          else (case b_Delete (co_store c) (so_key ob) s of
                  (Inl _, s') \<Rightarrow> (Inr (), st, s')
                | (Inr _, s') \<Rightarrow> (Inr (), st\<lparr>st_Orphans := Suc (st_Orphans st)\<rparr>, s')))"

definition reclaimOrphans ::
  "('s, 'd) collector \<Rightarrow> ctx \<Rightarrow> int \<Rightarrow> gcStats \<Rightarrow> ('s, 'd) world \<Rightarrow>
    goerr option \<times> gcStats \<times> ('s, 'd) world" where
  "reclaimOrphans c ctx now st w =
     (case on_repo (r_StorageKeys (co_repo c)) w of
        (Inl e, w1) \<Rightarrow> (Some e, st, w1)
      | (Inr keys, w1) \<Rightarrow>
          (case b_List (co_store c) ctx (visit c keys (time_before now (co_grace c))) (st, w_store w1) of
             (Inl e, st', s) \<Rightarrow> (Some e, st', w1\<lparr>w_store := s\<rparr>)
           | (Inr _, st', s) \<Rightarrow> (None, st', w1\<lparr>w_store := s\<rparr>)))"

definition expireIdempotencyKeys ::
  "('s, 'd) collector \<Rightarrow> int \<Rightarrow> gcStats \<Rightarrow> ('s, 'd) world \<Rightarrow>
    goerr option \<times> gcStats \<times> ('s, 'd) world" where
  "expireIdempotencyKeys c now st w =
     (if co_idemTTL c <=s 0 then (None, st, w)
      else case on_repo (r_PurgeIdempotencyKeys (co_repo c) (time_before now (co_idemTTL c))) w of
             (Inl e, w1) \<Rightarrow> (Some e, st, w1)
           | (Inr n, w1) \<Rightarrow> (None, st\<lparr>st_ExpiredKeys := n\<rparr>, w1))"

text \<open>\<open>now1\<close> and \<open>now2\<close> are the times at the two readings of the clock.\<close>

definition RunOnce ::
  "('s, 'd) collector \<Rightarrow> ctx \<Rightarrow> int \<Rightarrow> int \<Rightarrow> ('s, 'd) world \<Rightarrow>
    (gcStats \<times> goerr option) \<times> ('s, 'd) world" where
  "RunOnce c ctx now1 now2 w =
     (case purgeDeleted c ctx no_stats w of
        (Some e, _, st1, w1) \<Rightarrow> ((st1, Some e), w1)
      | (None, i, st1, w1) \<Rightarrow>
          (case reclaimOrphans c (\<lambda>j. ctx (i + j)) now1 st1 w1 of
             (Some e, st2, w2) \<Rightarrow> ((st2, Some e), w2)
           | (None, st2, w2) \<Rightarrow>
               (case expireIdempotencyKeys c now2 st2 w2 of
                  (e, st3, w3) \<Rightarrow> ((st3, e), w3))))"

text \<open>
  \<open>Run\<close>, driven by what its \<open>select\<close> receives: ticks, each with the context and the clock of
  its sweep, until the context is done.  The result is what the observer is called with.
\<close>

datatype event = Done | Tick ctx int int

fun run_loop :: "('s, 'd) collector \<Rightarrow> event list \<Rightarrow> ('s, 'd) world \<Rightarrow>
    (gcStats \<times> goerr option) list \<times> ('s, 'd) world" where
  "run_loop c [] w = ([], w)"
| "run_loop c (Done # es) w = ([], w)"
| "run_loop c (Tick ctx now1 now2 # es) w =
     (case RunOnce c ctx now1 now2 w of
        (x, w1) \<Rightarrow> (case run_loop c es w1 of (xs, w2) \<Rightarrow> (x # xs, w2)))"

definition Run :: "('s, 'd) collector \<Rightarrow> event list \<Rightarrow> ('s, 'd) world \<Rightarrow>
    (gcStats \<times> goerr option) list \<times> ('s, 'd) world" where
  "Run c events w = (if co_interval c <=s 0 then ([], w) else run_loop c events w)"

section \<open>What the collector relies on\<close>

text \<open>The enumeration visits every object of the store once, as it is.\<close>

definition lists_objects :: "(string \<rightharpoonup> object) \<Rightarrow> storedObject list \<Rightarrow> bool" where
  "lists_objects M obs \<longleftrightarrow>
     distinct (map so_key obs) \<and> so_key ` set obs = dom M \<and>
     (\<forall>ob\<in>set obs. \<exists>x. M (so_key ob) = Some x \<and> so_mtime ob = o_mtime x \<and> so_size ob = len64 (o_data x))"

text \<open>An enumeration hands out objects of the store, as they are when it starts.\<close>

definition listed :: "(string \<rightharpoonup> object) \<Rightarrow> storedObject \<Rightarrow> bool" where
  "listed M ob \<longleftrightarrow> (\<exists>x. M (so_key ob) = Some x \<and> so_mtime ob = o_mtime x)"

text \<open>The purging methods of the repository.\<close>

locale gc_repository = file_repository R canon rows claims dgood
  for R :: "'d repository" and canon and rows and claims and dgood +
  assumes ListDeleted_ok: "dgood d \<Longrightarrow> r_ListDeleted R n d = (Inr fs, d') \<Longrightarrow>
      (\<forall>f\<in>set fs. \<exists>c. rows d c = Some f \<and> \<not> live f)"
    and ListDeleted_frame: "dgood d \<Longrightarrow> r_ListDeleted R n d = (x, d') \<Longrightarrow>
      rows d' = rows d \<and> claims d' = claims d \<and> dgood d'"
    and Purge_frame: "dgood d \<Longrightarrow> r_Purge R i d = (y, d') \<Longrightarrow>
      (rows d' = rows d \<or> (\<exists>c f. canon i = Some c \<and> rows d c = Some f \<and> \<not> live f \<and>
        y = Inr () \<and> rows d' = (rows d)(c := None))) \<and> claims d' = claims d \<and> dgood d'"
    and StorageKeys_ok: "dgood d \<Longrightarrow> r_StorageKeys R d = (Inr ks, d') \<Longrightarrow> ks = f_StorageKey ` ran (rows d)"
    and StorageKeys_frame: "dgood d \<Longrightarrow> r_StorageKeys R d = (z, d') \<Longrightarrow>
      rows d' = rows d \<and> claims d' = claims d \<and> dgood d'"
    and PurgeKeys_frame: "dgood d \<Longrightarrow> r_PurgeIdempotencyKeys R t d = (v, d') \<Longrightarrow>
      rows d' = rows d \<and> (\<forall>k. claims d' k = claims d k \<or> claims d' k = None) \<and> dgood d'"
    and keys_unique: "dgood d \<Longrightarrow> rows d c = Some f \<Longrightarrow> rows d c' = Some f' \<Longrightarrow>
      f_StorageKey f = f_StorageKey f' \<Longrightarrow> c = c'"

text \<open>
  Whatever holds when the enumeration starts, and is kept by its callback on every object it hands
  out, holds when it ends, completed or not.
\<close>

locale gc_service = file_service B objs sane R canon rows claims dgood L + gc_repository R canon rows claims dgood
  for B :: "('s, uploadReader, gcStats) backend" and objs and sane
    and R :: "'d repository" and canon and rows and claims and dgood and L +
  assumes List_visits: "sane s \<Longrightarrow> b_List B ctx fn (c, s) = (x, cs') \<Longrightarrow>
      (\<And>s1. sane s1 \<Longrightarrow> objs s1 = objs s \<Longrightarrow> P (c, s1)) \<Longrightarrow>
      (\<And>ob cs y cs''. listed (objs s) ob \<Longrightarrow> P cs \<Longrightarrow> fn ob cs = (y, cs'') \<Longrightarrow> P cs'') \<Longrightarrow> P cs'"
begin

subsection \<open>What a sweep may do\<close>

text \<open>
  Objects under the keys of \<open>K\<close> may go, soft-deleted rows may go, idempotency keys may go,
  and nothing else changes.
\<close>

definition shrunk :: "string set \<Rightarrow> ('s, 'd) world \<Rightarrow> ('s, 'd) world \<Rightarrow> bool" where
  "shrunk K w w' \<longleftrightarrow>
     good w' \<and> same_supply w w' \<and>
     (\<forall>c. w_rows w' c = w_rows w c \<or>
        (w_rows w' c = None \<and> (\<exists>f. w_rows w c = Some f \<and> \<not> live f))) \<and>
     (\<forall>k. w_objs w' k = w_objs w k \<or> (k \<in> K \<and> w_objs w' k = None)) \<and>
     (\<forall>k. w_claims w' k = w_claims w k \<or> w_claims w' k = None)"

lemma shrunk_refl: "good w \<Longrightarrow> shrunk K w w"
  by (simp add: shrunk_def same_supply_def)

lemma shrunk_trans:
  assumes "shrunk K w v" and "shrunk K v u"
  shows "shrunk K w u"
  unfolding shrunk_def
proof (intro conjI allI)
  show "good u" "same_supply w u"
    using assms by (auto simp: shrunk_def same_supply_def)
  show "w_rows u c = w_rows w c \<or> (w_rows u c = None \<and> (\<exists>f. w_rows w c = Some f \<and> \<not> live f))" for c
    using assms unfolding shrunk_def by metis
  show "w_objs u k = w_objs w k \<or> (k \<in> K \<and> w_objs u k = None)" for k
    using assms unfolding shrunk_def by metis
  show "w_claims u k = w_claims w k \<or> w_claims u k = None" for k
    using assms unfolding shrunk_def by metis
qed

lemma shrunk_mono: "shrunk K w w' \<Longrightarrow> K \<subseteq> K' \<Longrightarrow> shrunk K' w w'"
  by (fastforce simp: shrunk_def)

abbreviation gc :: "int64 \<Rightarrow> int64 \<Rightarrow> int64 \<Rightarrow> ('s, 'd) collector" where
  "gc interval grace idemTTL \<equiv> gc_New B R interval grace idemTTL"

lemma gc_sel [simp]:
  "co_store (gc iv gr ttl) = B" "co_repo (gc iv gr ttl) = R" "co_grace (gc iv gr ttl) = gr"
  "co_idemTTL (gc iv gr ttl) = ttl" "co_interval (gc iv gr ttl) = iv"
  "co_batch (gc iv gr ttl) = defaultBatch"
  by (simp_all add: gc_New_def)

lemma delete_shrunk:
  assumes "on_store (b_Delete B k) w = (x, w')" and "good w" and "k \<in> K"
  shows "shrunk K w w'"
proof -
  obtain s where s: "b_Delete B k (w_store w) = (x, s)" "w' = w\<lparr>w_store := s\<rparr>"
    using assms(1) by (auto elim: on_storeE)
  with store.Delete_shrinks [OF _ s(1)] store.Delete_sane [OF _ s(1)] assms(2,3) show ?thesis
    by (auto simp: shrunk_def good_def same_supply_def split: if_splits)
qed

lemma purge_shrunk:
  assumes "on_repo (r_Purge R i) w = (x, w')" and "good w"
  shows "shrunk K w w'"
proof -
  obtain d where d: "r_Purge R i (w_repo w) = (x, d)" "w' = w\<lparr>w_repo := d\<rparr>"
    using assms(1) by (auto elim: on_repoE)
  with Purge_frame [OF _ d(1)] assms(2) show ?thesis
    by (auto simp: shrunk_def good_def same_supply_def split: if_splits)
qed

lemma purge_loop_shrunk:
  assumes "purge_loop (gc iv gr ttl) ctx i fs st w = (e, j, st', w')" and "good w"
    and "\<forall>f\<in>set fs. f_StorageKey f \<in> K"
  shows "shrunk K w w'"
  using assms
proof (induction fs arbitrary: i st w)
  case Nil
  then show ?case
    by (simp add: shrunk_refl)
next
  case (Cons f fs)
  show ?case
  proof (cases "ctx i")
    case (Some x)
    then show ?thesis
      using Cons.prems by (simp add: shrunk_refl)
  next
    case None
    obtain x w1 where d: "on_store (b_Delete B (f_StorageKey f)) w = (x, w1)"
      by (cases "on_store (b_Delete B (f_StorageKey f)) w") auto
    have s1: "shrunk K w w1"
      using delete_shrunk [OF d Cons.prems(2)] Cons.prems(3) by simp
    then have g1: "good w1"
      by (simp add: shrunk_def)
    obtain y w2 where p: "on_repo (r_Purge R (f_ID f)) w1 = (y, w2)"
      by (cases "on_repo (r_Purge R (f_ID f)) w1") auto
    have s2: "shrunk K w1 w2"
      by (rule purge_shrunk [OF p g1])
    then have g2: "good w2"
      by (simp add: shrunk_def)
    note IH = Cons.IH [OF _ g1] Cons.IH [OF _ g2]
    have K: "\<forall>f\<in>set fs. f_StorageKey f \<in> K"
      using Cons.prems(3) by simp
    have "shrunk K w1 w' \<or> shrunk K w2 w'"
      using Cons.prems(1) None d p IH K by (auto split: sum.splits)
    then show ?thesis
      using s1 s2 shrunk_trans by blast
  qed
qed

text \<open>The keys of the soft-deleted rows, and the objects no row refers to, by age.\<close>

definition dead_keys :: "('s, 'd) world \<Rightarrow> string set" where
  "dead_keys w = {f_StorageKey f |f. f \<in> ran (w_rows w) \<and> \<not> live f}"

definition stale :: "int \<Rightarrow> ('s, 'd) world \<Rightarrow> string set" where
  "stale t w = {k. k \<notin> f_StorageKey ` ran (w_rows w) \<and> (\<exists>ob. w_objs w k = Some ob \<and> o_mtime ob \<le> t)}"

lemma purgeDeleted_shrunk:
  assumes "purgeDeleted (gc iv gr ttl) ctx st w = (e, j, st', w')" and "good w"
  shows "shrunk (dead_keys w) w w'"
proof -
  obtain x w1 where l: "on_repo (r_ListDeleted R defaultBatch) w = (x, w1)"
    by (cases "on_repo (r_ListDeleted R defaultBatch) w") auto
  then obtain d where d: "r_ListDeleted R defaultBatch (w_repo w) = (x, d)" "w1 = w\<lparr>w_repo := d\<rparr>"
    by (auto elim: on_repoE)
  have dg: "dgood (w_repo w)" "sane (w_store w)"
    using assms(2) by (simp_all add: good_def)
  have s1: "shrunk (dead_keys w) w w1"
    using ListDeleted_frame [OF dg(1) d(1)] dg d(2) by (simp add: shrunk_def good_def same_supply_def)
  show ?thesis
  proof (cases x)
    case (Inl e)
    then show ?thesis
      using assms(1) l s1 by (auto simp: purgeDeleted_def)
  next
    case (Inr fs)
    have "\<forall>f\<in>set fs. f_StorageKey f \<in> dead_keys w"
      using ListDeleted_ok [OF dg(1)] d(1) Inr by (fastforce simp: dead_keys_def ran_def)
    moreover have "purge_loop (gc iv gr ttl) ctx 0 fs st w1 = (e, j, st', w')"
      using assms(1) l Inr by (simp add: purgeDeleted_def)
    moreover have "good w1"
      using s1 by (simp add: shrunk_def)
    ultimately show ?thesis
      using purge_loop_shrunk shrunk_trans [OF s1] by blast
  qed
qed

lemma visits_shrunk:
  assumes "b_List B ctx (visit (gc iv gr ttl) keys t) (st, w_store w) = (x, st', s)" and "good w"
    and "keys = f_StorageKey ` ran (w_rows w)"
  shows "shrunk (stale t w) w (w\<lparr>w_store := s\<rparr>)"
proof -
  have sane: "sane (w_store w)"
    using assms(2) by (simp add: good_def)
  define P where "P = (\<lambda>cs :: gcStats \<times> 's. shrunk (stale t w) w (w\<lparr>w_store := snd cs\<rparr>))"
  have "P (st', s)"
  proof (rule List_visits [OF sane assms(1)])
    fix s1 assume "sane s1" and "objs s1 = objs (w_store w)"
    then show "P (st, s1)"
      using assms(2) by (simp add: P_def shrunk_def good_def same_supply_def)
  next
    fix ob cs y cs'
    assume ob: "listed (w_objs w) ob" and "P cs" and v: "visit (gc iv gr ttl) keys t ob cs = (y, cs')"
    obtain st0 s0 where cs: "cs = (st0, s0)"
      by (cases cs) auto
    with \<open>P cs\<close> have P0: "shrunk (stale t w) w (w\<lparr>w_store := s0\<rparr>)"
      by (simp add: P_def)
    show "P cs'"
    proof (cases "so_key ob \<in> keys \<or> t < so_mtime ob")
      case True
      then show ?thesis
        using v cs \<open>P cs\<close> by (auto simp: visit_def P_def split: if_splits)
    next
      case False
      then have k: "so_key ob \<in> stale t w"
        using ob assms(3) by (fastforce simp: listed_def stale_def)
      obtain z s1 where d: "b_Delete B (so_key ob) s0 = (z, s1)"
        by (cases "b_Delete B (so_key ob) s0") auto
      then have "on_store (b_Delete B (so_key ob)) (w\<lparr>w_store := s0\<rparr>) = (z, w\<lparr>w_store := s1\<rparr>)"
        by (simp add: on_store_def)
      moreover have "good (w\<lparr>w_store := s0\<rparr>)"
        using P0 by (simp add: shrunk_def)
      ultimately have "shrunk (stale t w) (w\<lparr>w_store := s0\<rparr>) (w\<lparr>w_store := s1\<rparr>)"
        using delete_shrunk k by blast
      from shrunk_trans [OF P0 this] have "shrunk (stale t w) w (w\<lparr>w_store := s1\<rparr>)" .
      moreover have "snd cs' = s1"
        using v cs False d by (auto simp: visit_def split: sum.splits)
      ultimately show ?thesis
        by (simp add: P_def)
    qed
  qed
  then show ?thesis
    by (simp add: P_def)
qed

lemma stale_cong: "w_rows v = w_rows w \<Longrightarrow> w_objs v = w_objs w \<Longrightarrow> stale t v = stale t w"
  by (simp add: stale_def)

lemma reclaim_shrunk:
  assumes "reclaimOrphans (gc iv gr ttl) ctx now st w = (e, st', w')" and "good w"
  shows "shrunk (stale (time_before now gr) w) w w' \<and> w_rows w' = w_rows w"
proof -
  let ?t = "time_before now gr"
  obtain x w1 where l: "on_repo (r_StorageKeys R) w = (x, w1)"
    by (cases "on_repo (r_StorageKeys R) w") auto
  then obtain d where d: "r_StorageKeys R (w_repo w) = (x, d)" "w1 = w\<lparr>w_repo := d\<rparr>"
    by (auto elim: on_repoE)
  have dg: "dgood (w_repo w)" "sane (w_store w)"
    using assms(2) by (simp_all add: good_def)
  have s1: "shrunk (stale ?t w) w w1" "w_rows w1 = w_rows w" "w_store w1 = w_store w"
    using StorageKeys_frame [OF dg(1) d(1)] dg d(2) by (simp_all add: shrunk_def good_def same_supply_def)
  then have g1: "good w1"
    by (simp add: shrunk_def)
  show ?thesis
  proof (cases x)
    case (Inl y)
    then show ?thesis
      using assms(1) l s1 by (auto simp: reclaimOrphans_def)
  next
    case (Inr keys)
    then have keys: "keys = f_StorageKey ` ran (w_rows w1)"
      using StorageKeys_ok [OF dg(1)] d(1) s1(2) by simp
    obtain y st1 s where b: "b_List B ctx (visit (gc iv gr ttl) keys ?t) (st, w_store w1) = (y, st1, s)"
      by (cases "b_List B ctx (visit (gc iv gr ttl) keys ?t) (st, w_store w1)") auto
    have "w' = w1\<lparr>w_store := s\<rparr>"
      using assms(1) l Inr b by (auto simp: reclaimOrphans_def split: sum.splits)
    then show ?thesis
      using visits_shrunk [OF b g1 keys] shrunk_trans [OF s1(1)] stale_cong [of w1 w ?t] s1(2,3) by simp
  qed
qed

lemma expire_shrunk:
  assumes "expireIdempotencyKeys (gc iv gr ttl) now st w = (e, st', w')" and "good w"
  shows "shrunk K w w' \<and> w_rows w' = w_rows w \<and> w_store w' = w_store w"
proof (cases "ttl <=s 0")
  case True
  then show ?thesis
    using assms by (simp add: expireIdempotencyKeys_def shrunk_refl)
next
  case False
  obtain x d where d: "r_PurgeIdempotencyKeys R (time_before now ttl) (w_repo w) = (x, d)"
    by (cases "r_PurgeIdempotencyKeys R (time_before now ttl) (w_repo w)") auto
  then have "w' = w\<lparr>w_repo := d\<rparr>"
    using assms(1) False by (auto simp: expireIdempotencyKeys_def on_repo_def split: sum.splits)
  then show ?thesis
    using PurgeKeys_frame [OF _ d] assms(2) by (simp add: shrunk_def good_def same_supply_def)
qed

text \<open>A whole sweep, however far it gets.\<close>

lemma RunOnce_shrunk:
  assumes "RunOnce (gc iv gr ttl) ctx now1 now2 w = (r, w')" and "good w"
  shows "shrunk (dead_keys w \<union> stale (time_before now1 gr) w) w w'"
proof -
  let ?K = "dead_keys w \<union> stale (time_before now1 gr) w"
  obtain e1 i st1 w1 where p: "purgeDeleted (gc iv gr ttl) ctx no_stats w = (e1, i, st1, w1)"
    by (cases "purgeDeleted (gc iv gr ttl) ctx no_stats w") auto
  have s1: "shrunk (dead_keys w) w w1"
    by (rule purgeDeleted_shrunk [OF p assms(2)])
  then have g1: "good w1" and K1: "shrunk ?K w w1"
    by (auto simp: shrunk_def)
  show ?thesis
  proof (cases e1)
    case (Some x)
    then show ?thesis
      using assms(1) p K1 by (auto simp: RunOnce_def)
  next
    case None
    obtain e2 st2 w2 where r: "reclaimOrphans (gc iv gr ttl) (\<lambda>j. ctx (i + j)) now1 st1 w1 = (e2, st2, w2)"
      by (cases "reclaimOrphans (gc iv gr ttl) (\<lambda>j. ctx (i + j)) now1 st1 w1") auto
    have "stale (time_before now1 gr) w1 \<subseteq> ?K"
    proof
      fix k assume k: "k \<in> stale (time_before now1 gr) w1"
      then obtain ob where ob: "w_objs w1 k = Some ob" "o_mtime ob \<le> time_before now1 gr"
        "k \<notin> f_StorageKey ` ran (w_rows w1)"
        by (auto simp: stale_def)
      moreover have "w_objs w k = Some ob"
        using s1 ob(1) unfolding shrunk_def by (metis option.distinct(1))
      moreover have "k \<in> dead_keys w" if ref: "k \<in> f_StorageKey ` ran (w_rows w)"
      proof -
        obtain c f where cf: "w_rows w c = Some f" "f_StorageKey f = k"
          using ref by (auto simp: ran_def)
        then have "w_rows w1 c \<noteq> w_rows w c"
          using ob(3) by (auto intro: ranI)
        then show ?thesis
          using s1 cf unfolding shrunk_def dead_keys_def by (auto intro: ranI) (metis option.inject ranI)
      qed
      ultimately show "k \<in> ?K"
        by (auto simp: stale_def)
    qed
    then have s2: "shrunk ?K w w2" "good w2"
      using reclaim_shrunk [OF r g1] shrunk_trans [OF K1] shrunk_mono by (blast, auto simp: shrunk_def)
    obtain e3 st3 w3 where x: "expireIdempotencyKeys (gc iv gr ttl) now2 st2 w2 = (e3, st3, w3)"
      by (cases "expireIdempotencyKeys (gc iv gr ttl) now2 st2 w2") auto
    have "shrunk ?K w w3"
      using expire_shrunk [OF x s2(2)] shrunk_trans [OF s2(1)] by blast
    then show ?thesis
      using assms(1) p None r x s2(1) by (auto simp: RunOnce_def split: option.splits)
  qed
qed

lemma live_key_spared:
  assumes "good w" and "w_rows w c = Some f" and "live f"
  shows "f_StorageKey f \<notin> dead_keys w \<union> stale t w"
proof -
  have "f_StorageKey f \<notin> dead_keys w"
  proof
    assume "f_StorageKey f \<in> dead_keys w"
    then obtain c' g where "w_rows w c' = Some g" "\<not> live g" "f_StorageKey f = f_StorageKey g"
      by (auto simp: dead_keys_def ran_def)
    then show False
      using keys_unique [OF _ assms(2), of c' g] assms by (auto simp: good_def)
  qed
  moreover have "f_StorageKey f \<notin> stale t w"
    using assms(2) by (auto simp: stale_def intro: ranI)
  ultimately show ?thesis
    by simp
qed

lemma consistent_shrunk:
  assumes "consistent w" and "shrunk (dead_keys w \<union> stale t w) w w'"
  shows "consistent w'"
proof -
  have "\<exists>ob. w_objs w' (f_StorageKey f) = Some ob \<and> matches L f ob"
    if f: "w_rows w' c = Some f" "live f" for c f
  proof -
    have row: "w_rows w c = Some f"
      using assms(2) f(1) unfolding shrunk_def by (metis option.distinct(1))
    then obtain ob where ob: "w_objs w (f_StorageKey f) = Some ob" "matches L f ob"
      using assms(1) f(2) by (auto simp: consistent_def backed_def)
    have "f_StorageKey f \<notin> dead_keys w \<union> stale t w"
      using live_key_spared [OF consistent_good [OF assms(1)] row f(2)] .
    then have "w_objs w' (f_StorageKey f) = w_objs w (f_StorageKey f)"
      using assms(2) unfolding shrunk_def by blast
    then show ?thesis
      using ob by auto
  qed
  then have "backed L (w_objs w') (w_rows w')"
    by (auto simp: backed_def)
  moreover have "drawn (w_rows w') w'"
  proof (rule drawn_mono)
    show "drawn (w_rows w) w" "same_supply w w'"
      using assms by (auto simp: consistent_def shrunk_def)
    fix f assume "f \<in> ran (w_rows w')"
    then obtain c where "w_rows w' c = Some f"
      by (auto simp: ran_def)
    then have "w_rows w c = Some f"
      using assms(2) unfolding shrunk_def by (metis option.distinct(1))
    then show "(\<exists>g\<in>ran (w_rows w). f_StorageKey f = f_StorageKey g) \<or>
        (\<exists>n<w_next w'. w_uuids w' n = Inr (f_StorageKey f))"
      by (auto intro: ranI)
  qed
  ultimately show ?thesis
    using assms by (auto simp: consistent_def shrunk_def same_supply_def)
qed

text \<open>A row is purged only after its object is gone, so a failed delete leaks nothing.\<close>

definition own_ids :: "('s, 'd) world \<Rightarrow> bool" where
  "own_ids w \<longleftrightarrow> (\<forall>c f. w_rows w c = Some f \<longrightarrow> canon (f_ID f) = Some c)"

definition no_leak :: "('s, 'd) world \<Rightarrow> ('s, 'd) world \<Rightarrow> bool" where
  "no_leak w w' \<longleftrightarrow>
     (\<forall>c f. w_rows w c = Some f \<and> w_rows w' c = None \<longrightarrow> w_objs w' (f_StorageKey f) = None)"

lemma no_leak_trans:
  assumes "no_leak w v" and "no_leak v u" and "shrunk K w v" and "shrunk K' v u"
  shows "no_leak w u"
  unfolding no_leak_def
proof (intro allI impI)
  fix c f assume f: "w_rows w c = Some f \<and> w_rows u c = None"
  show "w_objs u (f_StorageKey f) = None"
  proof (cases "w_rows v c")
    case None
    then have "w_objs v (f_StorageKey f) = None"
      using assms(1) f unfolding no_leak_def by blast
    then show ?thesis
      using assms(4) unfolding shrunk_def by metis
  next
    case (Some g)
    then have "g = f"
      using assms(3) f unfolding shrunk_def by (metis option.distinct(1) option.inject)
    then show ?thesis
      using assms(2) f Some unfolding no_leak_def by blast
  qed
qed

lemma no_leak_same_rows: "w_rows w' = w_rows w \<Longrightarrow> no_leak w w'"
  by (auto simp: no_leak_def)

lemma purge_one_no_leak:
  assumes "on_store (b_Delete B (f_StorageKey f)) w = (Inr u, w1)"
    and "on_repo (r_Purge R (f_ID f)) w1 = (y, w2)" and "good w"
    and "\<forall>c g. w_rows w c = Some g \<and> canon (f_ID f) = Some c \<longrightarrow> f_StorageKey g = f_StorageKey f"
  shows "no_leak w w2"
proof -
  obtain s where s: "b_Delete B (f_StorageKey f) (w_store w) = (Inr (), s)" "w1 = w\<lparr>w_store := s\<rparr>"
    using assms(1) by (auto elim: on_storeE)
  obtain d where d: "r_Purge R (f_ID f) (w_repo w) = (y, d)" "w2 = w1\<lparr>w_repo := d\<rparr>"
    using assms(2) s(2) by (auto elim: on_repoE)
  have "w_objs w2 = (w_objs w)(f_StorageKey f := None)"
    using store.Delete_ok [OF _ s(1)] assms(3) s(2) d(2) by (simp add: good_def)
  moreover have "rows d = w_rows w \<or> (\<exists>c. canon (f_ID f) = Some c \<and> rows d = (w_rows w)(c := None))"
    using Purge_frame [OF _ d(1)] assms(3) by (auto simp: good_def)
  ultimately show ?thesis
    using assms(4) d(2) by (auto simp: no_leak_def split: if_splits)
qed

lemma purge_loop_no_leak:
  assumes "purge_loop (gc iv gr ttl) ctx i fs st w = (e, j, st', w')" and "good w"
    and "\<forall>f\<in>set fs. \<forall>c g. w_rows w c = Some g \<and> canon (f_ID f) = Some c \<longrightarrow>
      f_StorageKey g = f_StorageKey f"
  shows "no_leak w w'"
  using assms
proof (induction fs arbitrary: i st w)
  case Nil
  then show ?case
    by (simp add: no_leak_same_rows)
next
  case (Cons f fs)
  show ?case
  proof (cases "ctx i")
    case (Some x)
    then show ?thesis
      using Cons.prems by (simp add: no_leak_same_rows)
  next
    case None
    obtain x w1 where d: "on_store (b_Delete B (f_StorageKey f)) w = (x, w1)"
      by (cases "on_store (b_Delete B (f_StorageKey f)) w") auto
    have s1: "shrunk UNIV w w1"
      using delete_shrunk [OF d Cons.prems(2)] by simp
    then have g1: "good w1"
      by (simp add: shrunk_def)
    obtain y w2 where p: "on_repo (r_Purge R (f_ID f)) w1 = (y, w2)"
      by (cases "on_repo (r_Purge R (f_ID f)) w1") auto
    have s2: "shrunk UNIV w w2"
      using shrunk_trans [OF s1] purge_shrunk [OF p g1] by blast
    have keep: "\<forall>f\<in>set fs. \<forall>c g. w_rows v c = Some g \<and> canon (f_ID f) = Some c \<longrightarrow>
        f_StorageKey g = f_StorageKey f" if v: "shrunk UNIV w v" for v
      using Cons.prems(3) v unfolding shrunk_def by (metis list.set_intros(2) option.distinct(1))
    consider (failed) st1 e' where "x = Inl e'" "purge_loop (gc iv gr ttl) ctx (Suc i) fs st1 w1 = (e, j, st', w')"
      | (deleted) u st1 where "x = Inr u"
          "purge_loop (gc iv gr ttl) ctx (Suc i) fs st1 w2 = (e, j, st', w')"
      using Cons.prems(1) None d p by (auto split: sum.splits)
    then show ?thesis
    proof cases
      case failed
      have "no_leak w w1"
        by (rule no_leak_same_rows) (use d in \<open>auto elim: on_storeE\<close>)
      moreover have "no_leak w1 w'"
        by (rule Cons.IH [OF failed(2) g1 keep [OF s1]])
      moreover have "shrunk UNIV w1 w'"
        using purge_loop_shrunk [OF failed(2) g1] by simp
      ultimately show ?thesis
        using no_leak_trans [OF _ _ s1] by simp
    next
      case deleted
      have g2: "good w2"
        using s2 by (simp add: shrunk_def)
      have "\<forall>c g. w_rows w c = Some g \<and> canon (f_ID f) = Some c \<longrightarrow> f_StorageKey g = f_StorageKey f"
        using Cons.prems(3) by (meson list.set_intros(1))
      then have "no_leak w w2"
        by (rule purge_one_no_leak [OF d [unfolded deleted(1)] p Cons.prems(2)])
      moreover have "no_leak w2 w'"
        by (rule Cons.IH [OF deleted(2) g2 keep [OF s2]])
      moreover have "shrunk UNIV w2 w'"
        using purge_loop_shrunk [OF deleted(2) g2] by simp
      ultimately show ?thesis
        using no_leak_trans [OF _ _ s2] by simp
    qed
  qed
qed

lemma RunOnce_no_leak:
  assumes "RunOnce (gc iv gr ttl) ctx now1 now2 w = (r, w')" and "good w" and "own_ids w"
  shows "no_leak w w'"
proof -
  obtain e1 i st1 w1 where p: "purgeDeleted (gc iv gr ttl) ctx no_stats w = (e1, i, st1, w1)"
    by (cases "purgeDeleted (gc iv gr ttl) ctx no_stats w") auto
  have s1: "shrunk (dead_keys w) w w1"
    by (rule purgeDeleted_shrunk [OF p assms(2)])
  have n1: "no_leak w w1"
  proof -
    obtain x d where l: "r_ListDeleted R defaultBatch (w_repo w) = (x, d)"
      by (cases "r_ListDeleted R defaultBatch (w_repo w)") auto
    let ?v = "w\<lparr>w_repo := d\<rparr>"
    have fr: "rows d = w_rows w" "good ?v"
      using ListDeleted_frame [OF _ l] assms(2) by (simp_all add: good_def)
    show ?thesis
    proof (cases x)
      case (Inl e)
      then have "w1 = ?v"
        using p l by (simp add: purgeDeleted_def on_repo_def)
      then show ?thesis
        using fr by (intro no_leak_same_rows) simp
    next
      case (Inr fs)
      then have loop: "purge_loop (gc iv gr ttl) ctx 0 fs no_stats ?v = (e1, i, st1, w1)"
        using p l by (simp add: purgeDeleted_def on_repo_def)
      have "\<forall>f\<in>set fs. \<exists>c. w_rows w c = Some f"
        using ListDeleted_ok [of "w_repo w" defaultBatch fs d] l Inr assms(2) by (auto simp: good_def)
      then have "\<forall>f\<in>set fs. \<forall>c g. w_rows ?v c = Some g \<and> canon (f_ID f) = Some c \<longrightarrow>
          f_StorageKey g = f_StorageKey f"
        using assms(3) fr(1) unfolding own_ids_def by fastforce
      from purge_loop_no_leak [OF loop fr(2) this] show ?thesis
        using fr(1) by (simp add: no_leak_def)
    qed
  qed
  show ?thesis
  proof (cases e1)
    case (Some x)
    then show ?thesis
      using assms(1) p n1 by (simp add: RunOnce_def)
  next
    case None
    obtain e2 st2 w2 where r: "reclaimOrphans (gc iv gr ttl) (\<lambda>j. ctx (i + j)) now1 st1 w1 = (e2, st2, w2)"
      by (cases "reclaimOrphans (gc iv gr ttl) (\<lambda>j. ctx (i + j)) now1 st1 w1") auto
    have g1: "good w1"
      using s1 by (simp add: shrunk_def)
    note r' = reclaim_shrunk [OF r g1]
    then have g2: "good w2"
      by (simp add: shrunk_def)
    obtain e3 st3 w3 where x: "expireIdempotencyKeys (gc iv gr ttl) now2 st2 w2 = (e3, st3, w3)"
      by (cases "expireIdempotencyKeys (gc iv gr ttl) now2 st2 w2") auto
    note x' = expire_shrunk [OF x g2, of UNIV]
    have "w' = w2 \<or> w' = w3"
      using assms(1) p None r x by (auto simp: RunOnce_def split: option.splits)
    moreover have "no_leak w w2"
      using no_leak_trans [OF n1 no_leak_same_rows s1] r' by blast
    moreover have "no_leak w w3"
      using calculation(2) x' by (simp add: no_leak_def)
    ultimately show ?thesis
      by blast
  qed
qed

end

end
