(* ===== verification/GcModel.thy ===== *)
theory GcModel
  imports ServiceModel GcCollector
begin

text \<open>
  The collector over the in-memory store and the SQL tables: the purging methods of
  \<open>internal/metadata/postgres/gc.go\<close> satisfy what the collector relies on, so every lemma of
  \<open>GcCollector\<close> holds of it.  The service and the collector then run together: any sequence
  of service calls and sweeps keeps every live record backed by its object.
\<close>

section \<open>The purging methods\<close>

lemma pg_ListDeleted_cases:
  assumes "pg_ListDeleted n d = (x, d')" and "pg_good d"
  shows "pg_rows d' = pg_rows d \<and> pg_claims d' = pg_claims d \<and> pg_good d' \<and>
    (\<forall>fs. x = Inr fs \<longrightarrow> (\<forall>f\<in>set fs. f \<in> set (d_files d) \<and> \<not> live f))"
proof -
  define n' where "n' = (if n <=s 0 then 500 else n)"
  have good: "acked d" "pg_good (pop d)"
    using assms(2) by (simp_all add: pg_good_def)
  obtain y d1 where s: "send (sql_rows (sql_list_deleted n')) d = (y, d1)"
    by (cases "send (sql_rows (sql_list_deleted n')) d") auto
  have "d1 = pop d \<and> (\<forall>fs. y = Inr fs \<longrightarrow> fs = sql_list_deleted n' (pop d))"
    using send_acked [OF good(1) s] by (auto simp: sql_rows_def)
  moreover have "set (sql_list_deleted n' (pop d)) \<subseteq> {f \<in> set (d_files d). \<not> live f}"
    by (auto simp: sql_list_deleted_def dest!: in_set_takeD)
  ultimately show ?thesis
    using assms(1) s good(2) by (auto simp: pg_ListDeleted_def n'_def Let_def split: sum.splits)
qed

lemma pg_StorageKeys_cases:
  assumes "pg_StorageKeys d = (x, d')" and "pg_good d"
  shows "pg_rows d' = pg_rows d \<and> pg_claims d' = pg_claims d \<and> pg_good d' \<and>
    (\<forall>ks. x = Inr ks \<longrightarrow> ks = f_StorageKey ` ran (pg_rows d))"
proof -
  have good: "acked d" "pg_good (pop d)" "tables_ok d"
    using assms(2) by (simp_all add: pg_good_def)
  obtain y d1 where s: "send (sql_rows (\<lambda>d. set (map f_StorageKey (d_files d)))) d = (y, d1)"
    by (cases "send (sql_rows (\<lambda>d. set (map f_StorageKey (d_files d)))) d") auto
  have "d1 = pop d \<and> (\<forall>ks. y = Inr ks \<longrightarrow> ks = f_StorageKey ` set (d_files d))"
    using send_acked [OF good(1) s] by (auto simp: sql_rows_def)
  then show ?thesis
    using assms(1) s good(2) ran_pg_rows [OF good(3)]
    by (auto simp: pg_StorageKeys_def split: sum.splits)
qed

lemma sql_purge_ok:
  assumes "sql_purge canon i d = (Inr u, d')" and "tables_ok d"
  shows "(\<exists>c. canon i = Some c \<and>
      pg_rows d' = (case pg_rows d c of
          Some f \<Rightarrow> if live f then pg_rows d else (pg_rows d)(c := None)
        | None \<Rightarrow> pg_rows d)) \<and>
    pg_claims d' = pg_claims d \<and> tables_ok d' \<and> d_faults d' = d_faults d"
proof -
  obtain c where c: "canon i = Some c"
    "d' = d\<lparr>d_files := filter (\<lambda>f. \<not> (f_ID f = c \<and> f_DeletedAt f \<noteq> None)) (d_files d)\<rparr>"
    using assms(1) by (auto simp: sql_purge_def split: option.splits)
  have dist: "distinct (map f_ID (d_files d))"
    using assms(2) by (simp add: tables_ok_def)
  have "pg_rows d' b = (case pg_rows d c of
      Some f \<Rightarrow> if live f then pg_rows d else (pg_rows d)(c := None) | None \<Rightarrow> pg_rows d) b" for b
  proof -
    have "pg_rows d' b = (case pg_rows d b of None \<Rightarrow> None
        | Some f \<Rightarrow> if \<not> (f_ID f = c \<and> f_DeletedAt f \<noteq> None) then Some f else None)"
      by (simp add: c(2) pg_rows_def find_filter_key [OF dist] cong: option.case_cong)
    then show ?thesis
      using pg_rows_SomeD [of d b] by (cases "pg_rows d b"; cases "b = c") (auto split: option.splits)
  qed
  moreover have "tables_ok d'"
    using assms(2) by (auto simp: c(2) tables_ok_def distinct_map_filter)
  ultimately show ?thesis
    using c by (auto simp: pg_claims_def fun_eq_iff)
qed

lemma pg_Purge_cases:
  assumes "pg_Purge canon i d = (x, d')" and "pg_good d"
  shows "(pg_rows d' = pg_rows d \<or> (\<exists>c f. canon i = Some c \<and> pg_rows d c = Some f \<and> \<not> live f \<and>
      x = Inr () \<and> pg_rows d' = (pg_rows d)(c := None))) \<and> pg_claims d' = pg_claims d \<and> pg_good d'"
proof -
  have good: "acked d" "pg_good (pop d)" "tables_ok d"
    using assms(2) by (simp_all add: pg_good_def)
  obtain y d1 where s: "send (sql_purge canon i) d = (y, d1)"
    by (cases "send (sql_purge canon i) d") auto
  show ?thesis
  proof (cases y)
    case (Inl e)
    then have "d1 = pop d"
      using send_acked [OF good(1) s] by (auto simp: sql_purge_def split: option.splits)
    then show ?thesis
      using assms(1) s Inl good by (auto simp: pg_Purge_def)
  next
    case (Inr u)
    from sql_purge_ok [OF send_Inr [OF s [unfolded Inr]]] good(3) show ?thesis
      using assms(1) s Inr good acked_cong [of d1 "pop d"]
      by (auto simp: pg_Purge_def pg_good_def split: option.splits if_splits)
  qed
qed

lemma sql_purge_keys_ok:
  assumes "tables_ok d"
  shows "tables_ok (snd (sql_purge_keys t d)) \<and> pg_rows (snd (sql_purge_keys t d)) = pg_rows d \<and>
    (\<forall>k. pg_claims (snd (sql_purge_keys t d)) k = pg_claims d k \<or>
         pg_claims (snd (sql_purge_keys t d)) k = None)"
proof -
  have dist: "distinct (map k_Key (d_idem d))"
    using assms by (simp add: tables_ok_def)
  show ?thesis
    using assms
    by (auto simp: sql_purge_keys_def tables_ok_def pg_rows_def pg_claims_def fun_eq_iff
        distinct_map_filter find_filter_key [OF dist] split: option.splits)
qed

lemma pg_PurgeKeys_cases:
  assumes "pg_PurgeIdempotencyKeys t d = (x, d')" and "pg_good d"
  shows "pg_rows d' = pg_rows d \<and> (\<forall>k. pg_claims d' k = pg_claims d k \<or> pg_claims d' k = None) \<and>
    pg_good d'"
proof -
  have good: "acked d" "pg_good (pop d)" "tables_ok (pop d)"
    using assms(2) by (simp_all add: pg_good_def)
  obtain y d1 where s: "send (sql_purge_keys t) d = (y, d1)"
    by (cases "send (sql_purge_keys t) d") auto
  have "d' = d1"
    using assms(1) s by (auto simp: pg_PurgeIdempotencyKeys_def split: sum.splits)
  moreover have "d1 = pop d \<or> d1 = snd (sql_purge_keys t (pop d))"
    using send_acked [OF good(1) s] by auto
  moreover have "d_faults (snd (sql_purge_keys t (pop d))) = d_faults (pop d)"
    by (simp add: sql_purge_keys_def)
  ultimately show ?thesis
    using sql_purge_keys_ok [OF good(3), of t] good acked_cong [of d' "pop d"]
    by (auto simp: pg_good_def)
qed

lemma snapshot_lists: "m_sane s \<Longrightarrow> lists_objects (m_map s) (snapshot s)"
  unfolding lists_objects_def
proof (intro conjI ballI)
  assume s: "m_sane s"
  have keys: "map so_key (snapshot s) = map fst (m_objects s)"
    by (simp add: snapshot_def comp_def split_def)
  then show "distinct (map so_key (snapshot s))" "so_key ` set (snapshot s) = dom (m_map s)"
    using s by (simp_all add: m_sane_def dom_map_of_conv_image_fst flip: set_map)
  fix ob assume "ob \<in> set (snapshot s)"
  then obtain k x where "(k, x) \<in> set (m_objects s)"
    "ob = \<lparr>so_key = k, so_size = len64 (o_data x), so_mtime = o_mtime x\<rparr>"
    by (auto simp: snapshot_def)
  then show "\<exists>x. m_map s (so_key ob) = Some x \<and> so_mtime ob = o_mtime x \<and> so_size ob = len64 (o_data x)"
    using s by (auto simp: m_sane_def)
qed

interpretation pg_gc: gc_repository "pg_repo canon" canon pg_rows pg_claims pg_good
  for canon :: "string \<Rightarrow> string option"
proof
  fix d n fs d'
  assume "pg_good d" and "r_ListDeleted (pg_repo canon) n d = (Inr fs, d')"
  then show "\<forall>f\<in>set fs. \<exists>c. pg_rows d c = Some f \<and> \<not> live f"
    using pg_ListDeleted_cases [of n d "Inr fs" d'] pg_rows_mem [of d] by (fastforce simp: pg_good_def)
next
  fix d n x d'
  assume "pg_good d" and "r_ListDeleted (pg_repo canon) n d = (x, d')"
  then show "pg_rows d' = pg_rows d \<and> pg_claims d' = pg_claims d \<and> pg_good d'"
    using pg_ListDeleted_cases [of n d x d'] by simp
next
  fix d i y d'
  assume "pg_good d" and "r_Purge (pg_repo canon) i d = (y, d')"
  then show "(pg_rows d' = pg_rows d \<or> (\<exists>c f. canon i = Some c \<and> pg_rows d c = Some f \<and> \<not> live f \<and>
      y = Inr () \<and> pg_rows d' = (pg_rows d)(c := None))) \<and> pg_claims d' = pg_claims d \<and> pg_good d'"
    using pg_Purge_cases [of canon i d y d'] by simp
next
  fix d ks d'
  assume "pg_good d" and "r_StorageKeys (pg_repo canon) d = (Inr ks, d')"
  then show "ks = f_StorageKey ` ran (pg_rows d)"
    using pg_StorageKeys_cases [of d "Inr ks" d'] by simp
next
  fix d z d'
  assume "pg_good d" and "r_StorageKeys (pg_repo canon) d = (z, d')"
  then show "pg_rows d' = pg_rows d \<and> pg_claims d' = pg_claims d \<and> pg_good d'"
    using pg_StorageKeys_cases [of d z d'] by simp
next
  fix d t v d'
  assume "pg_good d" and "r_PurgeIdempotencyKeys (pg_repo canon) t d = (v, d')"
  then show "pg_rows d' = pg_rows d \<and> (\<forall>k. pg_claims d' k = pg_claims d k \<or> pg_claims d' k = None) \<and>
      pg_good d'"
    using pg_PurgeKeys_cases [of t d v d'] by simp
next
  fix d c f c' f'
  assume "pg_good d" and f: "pg_rows d c = Some f" "pg_rows d c' = Some f'"
    "f_StorageKey f = f_StorageKey f'"
  then have "inj_on f_StorageKey (set (d_files d))"
    by (simp add: pg_good_def tables_ok_def distinct_map)
  then have "f = f'"
    using f pg_rows_SomeD by (fastforce dest: inj_onD)
  then show "c = c'"
    using f by (auto dest: pg_rows_SomeD)
qed

interpretation sweep: gc_service "mem_backend upload_ReadAll" m_map m_sane
  "pg_repo canon" canon pg_rows pg_claims pg_good L
  for canon :: "string \<Rightarrow> string option" and L :: libs
proof
  fix s ctx fn c x cs' and P :: "gcStats \<times> memstore \<Rightarrow> bool"
  assume s: "m_sane s" and l: "b_List (mem_backend upload_ReadAll) ctx fn (c, s) = (x, cs')"
    and start: "\<And>s1. m_sane s1 \<Longrightarrow> m_map s1 = m_map s \<Longrightarrow> P (c, s1)"
    and step: "\<And>ob cs y cs''. listed (m_map s) ob \<Longrightarrow> P cs \<Longrightarrow> fn ob cs = (y, cs'') \<Longrightarrow> P cs''"
  have "listed (m_map s) ob" if "ob \<in> set (snapshot s)" for ob
    using snapshot_lists [OF s] that unfolding lists_objects_def listed_def by metis
  moreover have "list_loop ctx fn 0 (snapshot s) (c, s) = (x, cs')"
    using l by (simp add: mem_List_def)
  ultimately show "P cs'"
    using list_loop_invariant [of ctx fn 0 "snapshot s" "(c, s)" x cs' P] start [OF s refl] step by blast
qed

section \<open>Sweeps over a database that does not fail\<close>

abbreviation gc_model ::
  "(string \<Rightarrow> string option) \<Rightarrow> int64 \<Rightarrow> int64 \<Rightarrow> int64 \<Rightarrow> (memstore, db) collector" where
  "gc_model canon \<equiv> gc_New (mem_backend upload_ReadAll) (pg_repo canon)"

lemma pg_Purge_quiet:
  assumes "d_faults d = []" and "canon i = Some c"
  shows "pg_Purge canon i d =
    (Inr (), d\<lparr>d_files := filter (\<lambda>f. \<not> (f_ID f = c \<and> f_DeletedAt f \<noteq> None)) (d_files d)\<rparr>)"
  using assms by (simp add: pg_Purge_def send_quiet sql_purge_def)

lemma m_map_without: "m_map (s\<lparr>m_objects := AList.delete k (m_objects s)\<rparr>) = (m_map s)(k := None)"
  by (simp add: delete_conv')

text \<open>Every row of the batch goes, and its object with it.\<close>

lemma purge_loop_quiet:
  assumes "\<forall>f\<in>set fs. canon (f_ID f) = Some (f_ID f)" and "d_faults (w_repo w) = []"
    and never: "\<And>i. ctx i = None"
  shows "\<exists>s. purge_loop (gc_model canon iv gr ttl) ctx i fs st w =
      (None, i + length fs, st\<lparr>st_Purged := st_Purged st + length fs\<rparr>,
       w\<lparr>w_store := s, w_repo := (w_repo w)\<lparr>d_files :=
         filter (\<lambda>f. \<not> (f_ID f \<in> f_ID ` set fs \<and> f_DeletedAt f \<noteq> None)) (d_files (w_repo w))\<rparr>\<rparr>) \<and>
    m_map s = m_map (w_store w) |` (- f_StorageKey ` set fs) \<and> (m_sane (w_store w) \<longrightarrow> m_sane s)"
  using assms(1,2)
proof (induction fs arbitrary: i st w)
  case Nil
  then show ?case
    by (intro exI [of _ "w_store w"]) simp
next
  case (Cons f fs)
  let ?s = "(w_store w)\<lparr>m_objects := AList.delete (f_StorageKey f) (m_objects (w_store w))\<rparr>"
  let ?d = "(w_repo w)\<lparr>d_files :=
    filter (\<lambda>g. \<not> (f_ID g = f_ID f \<and> f_DeletedAt g \<noteq> None)) (d_files (w_repo w))\<rparr>"
  let ?w = "w\<lparr>w_store := ?s, w_repo := ?d\<rparr>"
  have c: "canon (f_ID f) = Some (f_ID f)"
    using Cons.prems(1) by simp
  have step: "purge_loop (gc_model canon iv gr ttl) ctx i (f # fs) st w =
      purge_loop (gc_model canon iv gr ttl) ctx (Suc i) fs
        (st\<lparr>st_Purged := Suc (st_Purged st)\<rparr>) ?w"
    using pg_Purge_quiet [of "w_repo w" canon "f_ID f" "f_ID f"] Cons.prems(2) c
    by (simp add: never [of i] on_store_def on_repo_def mem_Delete_def gc_New_def)
  obtain s where IH: "purge_loop (gc_model canon iv gr ttl) ctx (Suc i) fs
        (st\<lparr>st_Purged := Suc (st_Purged st)\<rparr>) ?w =
      (None, Suc i + length fs, st\<lparr>st_Purged := Suc (st_Purged st) + length fs\<rparr>,
       ?w\<lparr>w_store := s, w_repo := ?d\<lparr>d_files :=
         filter (\<lambda>f. \<not> (f_ID f \<in> f_ID ` set fs \<and> f_DeletedAt f \<noteq> None)) (d_files ?d)\<rparr>\<rparr>)"
    "m_map s = m_map ?s |` (- f_StorageKey ` set fs)" "m_sane ?s \<longrightarrow> m_sane s"
    using Cons.IH [of ?w "Suc i" "st\<lparr>st_Purged := Suc (st_Purged st)\<rparr>"] Cons.prems by auto
  have "filter (\<lambda>f. \<not> (f_ID f \<in> f_ID ` set fs \<and> f_DeletedAt f \<noteq> None)) (d_files ?d) =
      filter (\<lambda>g. \<not> (f_ID g \<in> f_ID ` set (f # fs) \<and> f_DeletedAt g \<noteq> None)) (d_files (w_repo w))"
    by (auto intro!: filter_cong)
  moreover have "m_map s = m_map (w_store w) |` (- f_StorageKey ` set (f # fs))"
    using IH(2) by (auto simp: delete_conv' restrict_map_def fun_eq_iff)
  ultimately show ?case
    using step IH(1,3) m_sane_delete [of "w_store w" "f_StorageKey f"]
    by (intro exI [of _ s]) simp
qed

text \<open>The enumeration deletes what it should, and counts it.\<close>

definition reclaimable :: "string set \<Rightarrow> int \<Rightarrow> storedObject \<Rightarrow> bool" where
  "reclaimable keys t ob \<longleftrightarrow> so_key ob \<notin> keys \<and> so_mtime ob \<le> t"

lemma visit_quiet:
  "visit (gc_model canon iv gr ttl) keys t ob (st, s) =
    (Inr (), if reclaimable keys t ob
             then (st\<lparr>st_Orphans := Suc (st_Orphans st)\<rparr>,
                   s\<lparr>m_objects := AList.delete (so_key ob) (m_objects s)\<rparr>)
             else (st, s))"
  by (auto simp: visit_def reclaimable_def gc_New_def mem_Delete_def)

lemma visits_quiet:
  assumes never: "\<And>i. ctx i = None"
  shows "\<exists>s'. list_loop ctx (visit (gc_model canon iv gr ttl) keys t) i obs (st, s) =
      (Inr (), st\<lparr>st_Orphans := st_Orphans st + length (filter (reclaimable keys t) obs)\<rparr>, s') \<and>
    m_map s' = m_map s |` (- so_key ` set (filter (reclaimable keys t) obs))"
proof (induction obs arbitrary: i st s)
  case Nil
  then show ?case by simp
next
  case (Cons ob obs)
  show ?case
  proof (cases "reclaimable keys t ob")
    case True
    let ?s = "s\<lparr>m_objects := AList.delete (so_key ob) (m_objects s)\<rparr>"
    let ?st = "st\<lparr>st_Orphans := Suc (st_Orphans st)\<rparr>"
    obtain s' where "list_loop ctx (visit (gc_model canon iv gr ttl) keys t) (Suc i) obs (?st, ?s) =
        (Inr (), ?st\<lparr>st_Orphans := st_Orphans ?st + length (filter (reclaimable keys t) obs)\<rparr>, s')"
      "m_map s' = m_map ?s |` (- so_key ` set (filter (reclaimable keys t) obs))"
      using Cons.IH [of "Suc i" ?st ?s] by blast
    then show ?thesis
      using True
      by (intro exI [of _ s'])
        (auto simp: never [of i] visit_quiet delete_conv' restrict_map_def fun_eq_iff split: if_splits)
  next
    case False
    obtain s' where "list_loop ctx (visit (gc_model canon iv gr ttl) keys t) (Suc i) obs (st, s) =
        (Inr (), st\<lparr>st_Orphans := st_Orphans st + length (filter (reclaimable keys t) obs)\<rparr>, s')"
      "m_map s' = m_map s |` (- so_key ` set (filter (reclaimable keys t) obs))"
      using Cons.IH [of "Suc i" st s] by blast
    then show ?thesis
      using False by (intro exI [of _ s']) (simp add: never [of i] visit_quiet)
  qed
qed

text \<open>The batch holds every soft-deleted row when there are at most 500.\<close>

lemma sql_list_deleted_all:
  assumes "length (filter (\<lambda>f. \<not> live f) (d_files d)) \<le> 500"
  shows "set (sql_list_deleted 500 d) = {f \<in> set (d_files d). \<not> live f}"
    "length (sql_list_deleted 500 d) = length (filter (\<lambda>f. \<not> live f) (d_files d))"
  using assms by (auto simp: sql_list_deleted_def)

lemma listed_keys:
  assumes "lists_objects M obs"
  shows "so_key ` set (filter (reclaimable keys t) obs) =
      {k. k \<notin> keys \<and> (\<exists>ob. M k = Some ob \<and> o_mtime ob \<le> t)}"
    "length (filter (reclaimable keys t) obs) =
      card {k. k \<notin> keys \<and> (\<exists>ob. M k = Some ob \<and> o_mtime ob \<le> t)}"
proof -
  have lists: "distinct (map so_key obs)" "so_key ` set obs = dom M"
    "\<forall>ob\<in>set obs. \<exists>x. M (so_key ob) = Some x \<and> so_mtime ob = o_mtime x"
    using assms by (auto simp: lists_objects_def)
  show eq: "so_key ` set (filter (reclaimable keys t) obs) =
      {k. k \<notin> keys \<and> (\<exists>ob. M k = Some ob \<and> o_mtime ob \<le> t)}" (is "?A = ?B")
  proof
    show "?A \<subseteq> ?B"
      using lists(3) by (auto simp: reclaimable_def)
    show "?B \<subseteq> ?A"
    proof
      fix k assume k: "k \<in> ?B"
      then have "k \<in> so_key ` set obs"
        using lists(2) by auto
      then obtain ob where "ob \<in> set obs" "so_key ob = k"
        by auto
      then show "k \<in> ?A"
        using k lists(3) by (auto simp: reclaimable_def)
    qed
  qed
  have "distinct (map so_key (filter (reclaimable keys t) obs))"
    using lists(1) by (rule distinct_map_filter)
  then show "length (filter (reclaimable keys t) obs) =
      card {k. k \<notin> keys \<and> (\<exists>ob. M k = Some ob \<and> o_mtime ob \<le> t)}"
    unfolding eq [symmetric] by (metis distinct_card length_map set_map)
qed

text \<open>What the three jobs of an undisturbed sweep do.\<close>

lemma purgeDeleted_quiet:
  assumes "quiet w" and "fs.good w" and "\<forall>f\<in>set (d_files (w_repo w)). canon (f_ID f) = Some (f_ID f)"
    and "length (filter (\<lambda>f. \<not> live f) (d_files (w_repo w))) \<le> 500" and "\<And>i. ctx i = None"
  shows "\<exists>n s. purgeDeleted (gc_model canon iv gr ttl) ctx st w =
      (None, n, st\<lparr>st_Purged := st_Purged st + length (filter (\<lambda>f. \<not> live f) (d_files (w_repo w)))\<rparr>,
       w\<lparr>w_store := s, w_repo := (w_repo w)\<lparr>d_files := filter live (d_files (w_repo w))\<rparr>\<rparr>) \<and>
    m_map s = m_map (w_store w) |` (- {f_StorageKey f |f. f \<in> set (d_files (w_repo w)) \<and> \<not> live f}) \<and>
    m_sane s"
proof -
  let ?fs = "sql_list_deleted 500 (w_repo w)"
  note all = sql_list_deleted_all [OF assms(4)]
  have listed: "on_repo (pg_ListDeleted 500) w = (Inr ?fs, w)"
    using assms(1) by (simp add: on_repo_def pg_ListDeleted_def send_quiet quiet_def sql_rows_def
        word_sle_eq)
  obtain s where loop: "purge_loop (gc_model canon iv gr ttl) ctx 0 ?fs st w =
      (None, 0 + length ?fs, st\<lparr>st_Purged := st_Purged st + length ?fs\<rparr>,
       w\<lparr>w_store := s, w_repo := (w_repo w)\<lparr>d_files :=
         filter (\<lambda>f. \<not> (f_ID f \<in> f_ID ` set ?fs \<and> f_DeletedAt f \<noteq> None)) (d_files (w_repo w))\<rparr>\<rparr>)"
    "m_map s = m_map (w_store w) |` (- f_StorageKey ` set ?fs)" "m_sane s"
    using purge_loop_quiet [of ?fs canon w ctx iv gr ttl 0 st] assms all(1)
    by (auto simp: quiet_def fs.good_def)
  have "filter (\<lambda>f. \<not> (f_ID f \<in> f_ID ` set ?fs \<and> f_DeletedAt f \<noteq> None)) (d_files (w_repo w)) =
      filter live (d_files (w_repo w))"
    unfolding all(1) by (auto intro!: filter_cong)
  moreover have "f_StorageKey ` set ?fs = {f_StorageKey f |f. f \<in> set (d_files (w_repo w)) \<and> \<not> live f}"
    unfolding all(1) by auto
  ultimately show ?thesis
    using loop listed all(2)
    by (intro exI [of _ "length ?fs"] exI [of _ s]) (simp add: purgeDeleted_def gc_New_def defaultBatch_def)
qed

lemma reclaimOrphans_quiet:
  fixes now :: int and gr :: int64
  assumes "quiet w" and "m_sane (w_store w)" and "\<And>i. ctx i = None"
  defines "keys \<equiv> f_StorageKey ` set (d_files (w_repo w))"
  defines "gone \<equiv> {k. k \<notin> keys \<and> (\<exists>ob. m_map (w_store w) k = Some ob \<and> o_mtime ob \<le> time_before now gr)}"
  shows "\<exists>s. reclaimOrphans (gc_model canon iv gr ttl) ctx now st w =
      (None, st\<lparr>st_Orphans := st_Orphans st + card gone\<rparr>, w\<lparr>w_store := s\<rparr>) \<and>
    m_map s = m_map (w_store w) |` (- gone)"
proof -
  have keys: "on_repo pg_StorageKeys w = (Inr keys, w)"
    using assms(1) by (simp add: on_repo_def pg_StorageKeys_def send_quiet quiet_def sql_rows_def keys_def)
  let ?obs = "snapshot (w_store w)"
  let ?t = "time_before now gr"
  obtain s where v: "list_loop ctx (visit (gc_model canon iv gr ttl) keys ?t) 0 ?obs (st, w_store w) =
      (Inr (), st\<lparr>st_Orphans := st_Orphans st + length (filter (reclaimable keys ?t) ?obs)\<rparr>, s)"
    "m_map s = m_map (w_store w) |` (- so_key ` set (filter (reclaimable keys ?t) ?obs))"
    using visits_quiet [of ctx, OF assms(3)] by blast
  have "b_List (co_store (gc_model canon iv gr ttl)) ctx (visit (gc_model canon iv gr ttl) keys ?t)
      (st, w_store w) = list_loop ctx (visit (gc_model canon iv gr ttl) keys ?t) 0 ?obs (st, w_store w)"
    by (simp add: gc_New_def mem_List_def)
  moreover have "co_repo (gc_model canon iv gr ttl) = pg_repo canon" "co_grace (gc_model canon iv gr ttl) = gr"
    by (simp_all add: gc_New_def)
  moreover note listed_keys [OF snapshot_lists [OF assms(2)], of keys ?t, folded gone_def]
  ultimately show ?thesis
    using keys v by (intro exI [of _ s]) (simp add: reclaimOrphans_def)
qed

lemma expire_quiet:
  assumes "quiet w" and "0 < sint ttl"
  shows "expireIdempotencyKeys (gc_model canon iv gr ttl) now st w =
    (None, st\<lparr>st_ExpiredKeys :=
        length (filter (\<lambda>r. k_CreatedAt r < time_before now ttl) (d_idem (w_repo w)))\<rparr>,
     w\<lparr>w_repo := (w_repo w)\<lparr>d_idem :=
        filter (\<lambda>r. \<not> k_CreatedAt r < time_before now ttl) (d_idem (w_repo w))\<rparr>\<rparr>)"
  using assms
  by (simp add: expireIdempotencyKeys_def gc_New_def on_repo_def pg_PurgeIdempotencyKeys_def send_quiet
      quiet_def sql_purge_keys_def word_sle_eq)

section \<open>The service and the collector together\<close>

definition set_clock :: "int \<Rightarrow> (memstore, db) world \<Rightarrow> (memstore, db) world" where
  "set_clock t w = w\<lparr>w_store := (w_store w)\<lparr>m_now := t\<rparr>, w_repo := (w_repo w)\<lparr>d_now := t\<rparr>\<rparr>"

text \<open>A call of the service, a sweep of the collector, or the passing of time.\<close>

inductive app_step ::
  "libs \<Rightarrow> (string \<Rightarrow> string option) \<Rightarrow> (memstore, db) collector \<Rightarrow>
    (memstore, db) world \<Rightarrow> (memstore, db) world \<Rightarrow> bool"
  for L :: libs and canon :: "string \<Rightarrow> string option" and c :: "(memstore, db) collector" where
  app_call: "service_step L (model canon) w w' \<Longrightarrow> app_step L canon c w w'"
| app_sweep: "RunOnce c ctx now1 now2 w = (r, w') \<Longrightarrow> app_step L canon c w w'"
| app_clock: "app_step L canon c w (set_clock t w)"

lemma set_clock_consistent: "fs.consistent L w \<Longrightarrow> fs.consistent L (set_clock t w)"
  by (auto simp: set_clock_def fs.consistent_def fs.good_def m_sane_def pg_good_def tables_ok_def acked_def
      pg_rows_def drawn_def ran_def backed_def)

lemma app_run_consistent:
  "(app_step L canon (gc_model canon iv gr ttl))\<^sup>*\<^sup>* w w' \<Longrightarrow> fs.consistent L w \<Longrightarrow> fs.consistent L w'"
proof (induction rule: rtranclp_induct)
  case (step v u)
  then have v: "fs.consistent L v"
    by simp
  from step(2) show ?case
  proof cases
    case app_call
    then show ?thesis
      using fs.consistent_step v by blast
  next
    case (app_sweep ctx now1 now2 r)
    then show ?thesis
      using sweep.consistent_shrunk [OF v sweep.RunOnce_shrunk] v by (simp add: fs.consistent_def)
  next
    case (app_clock t)
    then show ?thesis
      using set_clock_consistent v by simp
  qed
qed

section \<open>Properties\<close>

text \<open>The objects of soft-deleted rows, and the objects of no row that are last modified by \<open>t\<close>.\<close>

definition dead_objects :: "db \<Rightarrow> string set" where
  "dead_objects d = f_StorageKey ` set (filter (\<lambda>f. \<not> live f) (d_files d))"

definition stale_objects :: "int \<Rightarrow> (memstore, db) world \<Rightarrow> string set" where
  "stale_objects t w =
     fst ` set (filter (\<lambda>(k, ob). k \<notin> f_StorageKey ` set (d_files (w_repo w)) \<and> o_mtime ob \<le> t)
       (m_objects (w_store w)))"

lemma stale_objects_iff:
  assumes "m_sane (w_store w)"
  shows "k \<in> stale_objects t w \<longleftrightarrow>
    k \<notin> f_StorageKey ` set (d_files (w_repo w)) \<and> (\<exists>ob. m_map (w_store w) k = Some ob \<and> o_mtime ob \<le> t)"
  using assms by (force simp: stale_objects_def m_sane_def)

text \<open>C3. Whatever the service and the collector have done, in whatever order and with whatever
  failures of uploads and of the database short of a lost acknowledgement, every live record
  has its object, of the recorded size and hash.\<close>

theorem reachable_backed:
  assumes "(app_step L canon (gc_model canon iv gr ttl))\<^sup>*\<^sup>* (start u now faults) w"
    and "distinct_supply u" and "\<forall>e. Unacked e \<notin> set faults"
  shows "backed L (m_map (w_store w)) (pg_rows (w_repo w))"
  using app_run_consistent [OF assms(1) start_consistent [OF assms(2,3)]]
  by (simp add: fs.consistent_def)

lemma demo_run:
  "\<exists>f b w r w'. Service_Upload demo_libs (model Some) demo_input demo_start = (Inr f, b, w) \<and> quiet w \<and>
    RunOnce (gc_model Some 1 0 0) background 100 100 w = (r, w') \<and>
    (app_step demo_libs Some (gc_model Some 1 0 0))\<^sup>*\<^sup>* (start demo_uuids 0 []) w'"
proof -
  obtain f b w where up: "Service_Upload demo_libs (model Some) demo_input demo_start = (Inr f, b, w)"
    "quiet w"
    using demo_upload by blast
  obtain r w' where sw: "RunOnce (gc_model Some 1 0 0) background 100 100 w = (r, w')"
    by (cases "RunOnce (gc_model Some 1 0 0) background 100 100 w") auto
  have "service_step demo_libs (model Some) demo_start w"
    using up(1) demo_good(3) by (rule step_Upload [rotated])
  then have s1: "app_step demo_libs Some (gc_model Some 1 0 0) (start demo_uuids 0 []) w"
    by (simp add: demo_start_def app_call)
  have s2: "app_step demo_libs Some (gc_model Some 1 0 0) w w'"
    by (rule app_sweep [OF sw])
  have "(app_step demo_libs Some (gc_model Some 1 0 0))\<^sup>*\<^sup>* (start demo_uuids 0 []) w'"
    by (rule converse_rtranclp_into_rtranclp [where b = w]) (auto intro: s1 s2)
  with up sw show ?thesis
    by (intro exI conjI)
qed

theorem reachable_backed_witness:
  "\<exists>f b w r w'. Service_Upload demo_libs (model Some) demo_input demo_start = (Inr f, b, w) \<and>
    RunOnce (gc_model Some 1 0 0) background 100 100 w = (r, w') \<and>
    backed demo_libs (m_map (w_store w')) (pg_rows (w_repo w'))"
proof -
  obtain f b w r w' where d: "Service_Upload demo_libs (model Some) demo_input demo_start = (Inr f, b, w)"
    "RunOnce (gc_model Some 1 0 0) background 100 100 w = (r, w')"
    "(app_step demo_libs Some (gc_model Some 1 0 0))\<^sup>*\<^sup>* (start demo_uuids 0 []) w'"
    using demo_run by blast
  from reachable_backed [OF d(3) demo_distinct] show ?thesis
    using d(1,2) by auto
qed

text \<open>C15. In such a state every download verifies: the stream ends without a mismatch, with as
  many bytes as the record says.\<close>

theorem reachable_download_verifies:
  assumes "(app_step L canon (gc_model canon iv gr ttl))\<^sup>*\<^sup>* (start u now faults) w"
    and "distinct_supply u" and "\<forall>e. Unacked e \<notin> set faults"
    and "Service_Open L (model canon) i w = (Inr (f, rc), w')"
  shows "\<exists>bs. io_Copy (lib_sha256 L) rc = (bs, None) \<and> len64 bs = f_SizeBytes f \<and>
    hex_encode (lib_sha256 L bs) = f_Checksum f"
proof -
  have "fs.consistent L w"
    using app_run_consistent [OF assms(1) start_consistent [OF assms(2,3)]] .
  then obtain ob src where o: "matches L f ob" "delivers src (o_data ob)"
    "rc = newVerifyingReader src (f_Checksum f)"
    using fs.Open_matches [OF _ assms(4)] by blast
  moreover have "src_final src = EOF"
    using assms(4) o(3) Open_source by blast
  ultimately show ?thesis
    using delivers_all [of src] by (auto simp: matches_def newVerifyingReader_def v_rest_def v_fin_def eof_nil_def)
qed

theorem reachable_download_verifies_witness:
  "\<exists>f b w g rc bs. Service_Upload demo_libs (model Some) demo_input demo_start = (Inr f, b, w) \<and>
    Service_Open demo_libs (model Some) (f_ID f) w = (Inr (g, rc), w) \<and>
    io_Copy (lib_sha256 demo_libs) rc = (bs, None) \<and> len64 bs = f_SizeBytes g"
proof -
  obtain f b w1 where up: "Service_Upload demo_libs (model Some) demo_input demo_start = (Inr f, b, w1)"
    "quiet w1"
    using demo_upload by blast
  then have "service_step demo_libs (model Some) demo_start w1"
    using demo_good(3) by (auto intro: step_Upload)
  then have run: "(app_step demo_libs Some (gc_model Some 1 0 0))\<^sup>*\<^sup>* (start demo_uuids 0 []) w1"
    by (simp add: demo_start_def r_into_rtranclp app_call)
  obtain c g ob where "f_ID f = c" "pg_rows (w_repo w1) c = Some g" "live g" "fs.good w1"
    "m_map (w_store w1) (f_StorageKey g) = Some ob"
    using fs.Upload_ok [OF up(1) demo_good(1,3)] by (auto simp: fs.stored_def)
  then have "Service_Open demo_libs (model Some) (f_ID f) w1 =
      (Inr (g, newVerifyingReader (bytes_reader (o_data ob)) (f_Checksum g)), w1)"
    using Open_quiet [of w1 demo_libs c Some c g ob] up(2) by (simp add: demo_libs_def)
  with reachable_download_verifies [OF run demo_distinct _ this] show ?thesis
    using up(1) by auto
qed

lemma sweep_runs:
  assumes "fs.good w" and "quiet w"
    and "\<forall>f\<in>set (d_files (w_repo w)). canon (f_ID f) = Some (f_ID f)"
    and "length (filter (\<lambda>f. \<not> live f) (d_files (w_repo w))) \<le> 500"
    and "\<And>i. ctx i = None" and "0 \<le> sint gr" and "0 < sint ttl"
  shows "\<exists>w'. RunOnce (gc_model canon iv gr ttl) ctx now1 now2 w =
      ((\<lparr>st_Purged = length (filter (\<lambda>f. \<not> live f) (d_files (w_repo w))),
         st_Orphans = card (stale_objects (now1 - sint gr) w),
         st_ExpiredKeys = length (filter (\<lambda>r. k_CreatedAt r < now2 - sint ttl) (d_idem (w_repo w)))\<rparr>,
        None), w') \<and>
    d_files (w_repo w') = filter live (d_files (w_repo w)) \<and>
    d_idem (w_repo w') = filter (\<lambda>r. \<not> k_CreatedAt r < now2 - sint ttl) (d_idem (w_repo w)) \<and>
    m_map (w_store w') =
      m_map (w_store w) |` (- (dead_objects (w_repo w) \<union> stale_objects (now1 - sint gr) w))"
proof -
  let ?dead = "dead_objects (w_repo w)" and ?stale = "stale_objects (now1 - sint gr) w"
  have dead: "?dead = {f_StorageKey f |f. f \<in> set (d_files (w_repo w)) \<and> \<not> live f}"
    by (auto simp: dead_objects_def)
  obtain n s1 where p: "purgeDeleted (gc_model canon iv gr ttl) ctx no_stats w =
      (None, n, no_stats\<lparr>st_Purged := st_Purged no_stats + length (filter (\<lambda>f. \<not> live f) (d_files (w_repo w)))\<rparr>,
       w\<lparr>w_store := s1, w_repo := (w_repo w)\<lparr>d_files := filter live (d_files (w_repo w))\<rparr>\<rparr>)"
    "m_map s1 = m_map (w_store w) |` (- ?dead)" "m_sane s1"
    using purgeDeleted_quiet [where ctx = ctx, OF assms(2,1,3,4,5), folded dead] by blast
  let ?w1 = "w\<lparr>w_store := s1, w_repo := (w_repo w)\<lparr>d_files := filter live (d_files (w_repo w))\<rparr>\<rparr>"
  have q1: "quiet ?w1" "m_sane (w_store ?w1)"
    using assms(2) p(3) by (simp_all add: quiet_def)
  have t: "time_before now1 gr = now1 - sint gr" "time_before now2 ttl = now2 - sint ttl"
    using assms(6,7) sint64_neg [of gr] sint64_neg [of ttl] by (simp_all add: time_before_def)
  have gone: "{k. k \<notin> f_StorageKey ` set (d_files (w_repo ?w1)) \<and>
      (\<exists>ob. m_map (w_store ?w1) k = Some ob \<and> o_mtime ob \<le> now1 - sint gr)} = ?stale"
    using assms(1)
    by (auto simp: stale_objects_iff fs.good_def p(2) dead restrict_map_def split: if_splits)
  let ?st1 = "no_stats\<lparr>st_Purged := length (filter (\<lambda>f. \<not> live f) (d_files (w_repo w)))\<rparr>"
  obtain s2 where r: "reclaimOrphans (gc_model canon iv gr ttl) (\<lambda>j. ctx (n + j)) now1 ?st1 ?w1 =
      (None, ?st1\<lparr>st_Orphans := st_Orphans ?st1 + card ?stale\<rparr>, ?w1\<lparr>w_store := s2\<rparr>)"
    "m_map s2 = m_map (w_store ?w1) |` (- ?stale)"
    using reclaimOrphans_quiet [OF q1, where ctx = "\<lambda>j. ctx (n + j)" and now = now1 and gr = gr]
      assms(5) unfolding t gone by blast
  have "m_map s2 = m_map (w_store w) |` (- (?dead \<union> ?stale))"
    using r(2) p(2) by (auto simp: restrict_map_def fun_eq_iff)
  moreover have "quiet (?w1\<lparr>w_store := s2\<rparr>)"
    using q1(1) by (simp add: quiet_def)
  note expire_quiet [OF this assms(7), of canon iv gr now2, unfolded t]
  ultimately show ?thesis
    using p(1) r(1) by (simp add: RunOnce_def no_stats_def)
qed

text \<open>A world with something for each job: a live file, a soft-deleted one, an old object that no row
  refers to and a young one, an expired key and a fresh one.\<close>

definition demo_file :: "string \<Rightarrow> int option \<Rightarrow> File" where
  "demo_file k del = \<lparr>f_ID = k, f_StorageKey = k, f_Filename = [], f_ContentType = [], f_SizeBytes = 0,
     f_Checksum = [], f_Metadata = Some [], f_CreatedAt = 0, f_UpdatedAt = None,
     f_DeletedAt = del\<rparr>"

definition demo_key :: "string \<Rightarrow> int \<Rightarrow> idemRow" where
  "demo_key k t = \<lparr>k_Key = k, k_FileID = None, k_Status = IdempotencyPending, k_CreatedAt = t\<rparr>"

definition demo_world :: "(memstore, db) world" where
  "demo_world =
     \<lparr>w_store = \<lparr>m_objects = map (\<lambda>(k, t). (k, \<lparr>o_data = [], o_ctype = [], o_mtime = t\<rparr>))
          [(''live'', 0), (''dead'', 0), (''old'', 0), (''young'', 90)], m_now = 100\<rparr>,
      w_repo = \<lparr>d_files = [demo_file ''live'' None, demo_file ''dead'' (Some 50)],
          d_idem = [demo_key ''k'' 10, demo_key ''l'' 95], d_now = 100, d_faults = []\<rparr>,
      w_uuids = demo_uuids, w_next = 0\<rparr>"

lemma background_never: "background i = None"
  by (simp add: background_def)

lemma demo_world_good: "fs.good demo_world" "quiet demo_world"
  by (simp_all add: demo_world_def fs.good_def m_sane_def pg_good_def tables_ok_def acked_def quiet_def
      demo_file_def demo_key_def)

lemma demo_world_rows:
  "pg_rows (w_repo demo_world) ''dead'' = Some (demo_file ''dead'' (Some 50))"
  "pg_rows (w_repo demo_world) ''live'' = Some (demo_file ''live'' None)"
  by (simp_all add: demo_world_def pg_rows_def demo_file_def)

lemma demo_world_files:
  "d_files (w_repo demo_world) = [demo_file ''live'' None, demo_file ''dead'' (Some 50)]"
  by (simp add: demo_world_def)

lemma demo_world_stale: "stale_objects 40 demo_world = {''old''}"
  by (simp add: stale_objects_def demo_world_def demo_file_def)

lemma demo_world_dead: "dead_objects (w_repo demo_world) = {''dead''}"
  by (simp add: dead_objects_def demo_world_def demo_file_def)

text \<open>C8. A sweep spares what is in use: however far it gets and whatever fails, every live record
  and its object stay as they are, only soft-deleted rows go, and an object goes only if a
  soft-deleted row refers to it, or no row does and it is at least the grace period old.\<close>

theorem sweep_spares_live:
  assumes "RunOnce (gc_model canon iv gr ttl) ctx now1 now2 w = (r, w')" and "fs.good w"
    and "0 \<le> sint gr"
  shows "(\<forall>c f. pg_rows (w_repo w) c = Some f \<and> live f \<longrightarrow>
        pg_rows (w_repo w') c = Some f \<and>
        m_map (w_store w') (f_StorageKey f) = m_map (w_store w) (f_StorageKey f)) \<and>
    (\<forall>c. pg_rows (w_repo w') c = pg_rows (w_repo w) c \<or> pg_rows (w_repo w') c = None) \<and>
    (\<forall>k ob. m_map (w_store w) k = Some ob \<and> m_map (w_store w') k \<noteq> Some ob \<longrightarrow>
        (\<exists>f\<in>ran (pg_rows (w_repo w)). f_StorageKey f = k \<and> \<not> live f) \<or>
        k \<notin> f_StorageKey ` ran (pg_rows (w_repo w)) \<and> o_mtime ob + sint gr \<le> now1)"
proof (intro conjI allI impI)
  let ?t = "time_before now1 gr"
  have s: "sweep.shrunk (sweep.dead_keys w \<union> sweep.stale ?t w) w w'"
    by (rule sweep.RunOnce_shrunk [OF assms(1,2)])
  have t: "?t = now1 - sint gr"
    using assms(3) sint64_neg [of gr] by (simp add: time_before_def)
  show "pg_rows (w_repo w') c = pg_rows (w_repo w) c \<or> pg_rows (w_repo w') c = None" for c
    using s unfolding sweep.shrunk_def by metis
  show "pg_rows (w_repo w') c = Some f" if f: "pg_rows (w_repo w) c = Some f \<and> live f" for c f
    using s f unfolding sweep.shrunk_def by (metis option.inject)
  show "m_map (w_store w') (f_StorageKey f) = m_map (w_store w) (f_StorageKey f)"
    if f: "pg_rows (w_repo w) c = Some f \<and> live f" for c f
    using s sweep.live_key_spared [OF assms(2), of c f ?t] f unfolding sweep.shrunk_def by metis
  fix k ob assume ob: "m_map (w_store w) k = Some ob \<and> m_map (w_store w') k \<noteq> Some ob"
  then have "k \<in> sweep.dead_keys w \<union> sweep.stale ?t w"
    using s unfolding sweep.shrunk_def by metis
  then show "(\<exists>f\<in>ran (pg_rows (w_repo w)). f_StorageKey f = k \<and> \<not> live f) \<or>
      k \<notin> f_StorageKey ` ran (pg_rows (w_repo w)) \<and> o_mtime ob + sint gr \<le> now1"
    using ob t by (auto simp: sweep.dead_keys_def sweep.stale_def)
qed

theorem sweep_spares_live_witness:
  "\<exists>r w'. RunOnce (gc_model Some 1 60 30) background 100 100 demo_world = (r, w') \<and>
    pg_rows (w_repo w') ''live'' = Some (demo_file ''live'' None) \<and>
    m_map (w_store w') ''live'' = m_map (w_store demo_world) ''live'' \<and>
    m_map (w_store w') ''young'' = m_map (w_store demo_world) ''young''"
proof -
  obtain r w' where r: "RunOnce (gc_model Some 1 60 30) background 100 100 demo_world = (r, w')"
    by (cases "RunOnce (gc_model Some 1 60 30) background 100 100 demo_world") auto
  have g: "0 \<le> sint (60 :: int64)" "sint (60 :: int64) = 60"
    by simp_all
  have young: "m_map (w_store demo_world) ''young'' = Some \<lparr>o_data = [], o_ctype = [], o_mtime = 90\<rparr>"
    by (simp add: demo_world_def)
  have "\<not> (\<exists>f\<in>ran (pg_rows (w_repo demo_world)). f_StorageKey f = ''young'' \<and> \<not> live f)"
    by (auto simp: ran_def demo_world_def demo_file_def dest!: pg_rows_SomeD)
  with sweep_spares_live [OF r demo_world_good(1) g(1)] young
  have "m_map (w_store w') ''young'' = m_map (w_store demo_world) ''young''"
    unfolding g(2) by force
  moreover have "pg_rows (w_repo w') ''live'' = Some (demo_file ''live'' None) \<and>
      m_map (w_store w') ''live'' = m_map (w_store demo_world) ''live''"
    using sweep_spares_live [OF r demo_world_good(1) g(1)] demo_world_rows(2)
    by (force simp: demo_file_def)
  ultimately show ?thesis
    using r by blast
qed

text \<open>C9. A row is purged only after its object is gone: whatever fails during a sweep, a row it
  removes leaves no object behind.\<close>

theorem purge_leaks_nothing:
  assumes "RunOnce (gc_model canon iv gr ttl) ctx now1 now2 w = (r, w')" and "fs.good w"
    and "\<forall>f\<in>set (d_files (w_repo w)). canon (f_ID f) = Some (f_ID f)"
    and "pg_rows (w_repo w) c = Some f" and "pg_rows (w_repo w') c = None"
  shows "m_map (w_store w') (f_StorageKey f) = None"
proof -
  have "sweep.own_ids canon w"
    using assms(3) pg_rows_SomeD unfolding sweep.own_ids_def by blast
  from sweep.RunOnce_no_leak [OF assms(1,2) this] show ?thesis
    using assms(4,5) unfolding sweep.no_leak_def by blast
qed

theorem purge_leaks_nothing_witness:
  "\<exists>r w'. RunOnce (gc_model Some 1 60 30) background 100 100 demo_world = (r, w') \<and>
    pg_rows (w_repo w') ''dead'' = None \<and> m_map (w_store w') ''dead'' = None"
proof -
  have g: "0 \<le> sint (60 :: int64)" "0 < sint (30 :: int64)"
    by simp_all
  have ids: "\<forall>f\<in>set (d_files (w_repo demo_world)). Some (f_ID f) = Some (f_ID f)"
    by simp
  have few: "length (filter (\<lambda>f. \<not> live f) (d_files (w_repo demo_world))) \<le> 500"
    by (simp add: demo_world_files)
  obtain r w' where r: "RunOnce (gc_model Some 1 60 30) background 100 100 demo_world = (r, w')"
    "d_files (w_repo w') = filter live (d_files (w_repo demo_world))"
    using sweep_runs [where ctx = background and iv = 1 and ?now1.0 = 100 and ?now2.0 = 100, OF demo_world_good ids few background_never g] by blast
  have "pg_rows (w_repo w') ''dead'' = None"
    by (simp add: r(2) demo_world_files demo_file_def pg_rows_def)
  with purge_leaks_nothing [OF r(1) demo_world_good(1) ids demo_world_rows(1)] r(1) show ?thesis
    by (auto simp: demo_file_def)
qed

text \<open>C24. An undisturbed sweep does its three jobs: with a database that answers, no cancellation
  and at most a batch of soft-deleted rows, it succeeds, removes exactly the soft-deleted rows,
  their objects, the unreferenced objects of at least the grace period's age and the expired
  keys, and counts them.\<close>

theorem sweep_completes:
  assumes "fs.good w" and "quiet w"
    and "\<forall>f\<in>set (d_files (w_repo w)). canon (f_ID f) = Some (f_ID f)"
    and "length (filter (\<lambda>f. \<not> live f) (d_files (w_repo w))) \<le> 500"
    and "\<And>i. ctx i = None" and "0 \<le> sint gr" and "0 < sint ttl"
  shows "\<exists>w'. RunOnce (gc_model canon iv gr ttl) ctx now1 now2 w =
      ((\<lparr>st_Purged = length (filter (\<lambda>f. \<not> live f) (d_files (w_repo w))),
         st_Orphans = card (stale_objects (now1 - sint gr) w),
         st_ExpiredKeys = length (filter (\<lambda>r. k_CreatedAt r < now2 - sint ttl) (d_idem (w_repo w)))\<rparr>,
        None), w') \<and>
    d_files (w_repo w') = filter live (d_files (w_repo w)) \<and>
    d_idem (w_repo w') = filter (\<lambda>r. \<not> k_CreatedAt r < now2 - sint ttl) (d_idem (w_repo w)) \<and>
    m_map (w_store w') =
      m_map (w_store w) |` (- (dead_objects (w_repo w) \<union> stale_objects (now1 - sint gr) w))"
  using assms by (rule sweep_runs)

theorem sweep_completes_witness:
  "\<exists>w'. RunOnce (gc_model Some 1 60 30) background 100 100 demo_world =
      ((\<lparr>st_Purged = 1, st_Orphans = 1, st_ExpiredKeys = 1\<rparr>, None), w') \<and>
    d_files (w_repo w') = [demo_file ''live'' None] \<and> d_idem (w_repo w') = [demo_key ''l'' 95] \<and>
    dom (m_map (w_store w')) = {''live'', ''young''}"
proof -
  have g: "0 \<le> sint (60 :: int64)" "0 < sint (30 :: int64)" "100 - sint (60 :: int64) = 40"
    "100 - sint (30 :: int64) = 70"
    by simp_all
  have ids: "\<forall>f\<in>set (d_files (w_repo demo_world)). Some (f_ID f) = Some (f_ID f)"
    by simp
  have few: "length (filter (\<lambda>f. \<not> live f) (d_files (w_repo demo_world))) \<le> 500"
    by (simp add: demo_world_files)
  have idem: "d_idem (w_repo demo_world) = [demo_key ''k'' 10, demo_key ''l'' 95]"
    "dom (m_map (w_store demo_world)) = {''live'', ''dead'', ''old'', ''young''}"
    by (auto simp: demo_world_def)
  obtain w' where w': "RunOnce (gc_model Some 1 60 30) background 100 100 demo_world =
      ((\<lparr>st_Purged = length (filter (\<lambda>f. \<not> live f) (d_files (w_repo demo_world))),
         st_Orphans = card (stale_objects (100 - sint (60 :: int64)) demo_world),
         st_ExpiredKeys = length (filter (\<lambda>r. k_CreatedAt r < 100 - sint (30 :: int64)) (d_idem (w_repo demo_world)))\<rparr>,
        None), w')"
    "d_files (w_repo w') = filter live (d_files (w_repo demo_world))"
    "d_idem (w_repo w') = filter (\<lambda>r. \<not> k_CreatedAt r < 100 - sint (30 :: int64)) (d_idem (w_repo demo_world))"
    "m_map (w_store w') = m_map (w_store demo_world) |`
      (- (dead_objects (w_repo demo_world) \<union> stale_objects (100 - sint (60 :: int64)) demo_world))"
    using sweep_completes [where ctx = background and iv = 1 and ?now1.0 = 100 and ?now2.0 = 100, OF demo_world_good ids few background_never g(1,2)]
    by blast
  have "dom (m_map (w_store w')) = {''live'', ''young''}"
    by (auto simp: w'(4) g(3) demo_world_stale demo_world_dead idem(2) simp del: dom_map_of_conv_image_fst)
  with w'(1-3) show ?thesis
    unfolding g(3,4) demo_world_stale demo_world_files idem(1)
    by (intro exI [of _ w']) (simp add: demo_file_def demo_key_def)
qed

end
