(* ===== verification/FileMap.thy ===== *)
theory FileMap
  imports GcModel
begin

text \<open>
  What the program is for its users, as an abstract specification: a map from identifiers to
  files, each a body with a name, a content type and tags.  \<open>spec\<close> says what each call may
  answer and do to the map; \<open>perform\<close> is the call on the model of the program, with the sweep
  of the collector among the calls.  \<open>files_of\<close> reads the map off the rows and the objects.  The
  refinement, that every call of the program is a step of the specification, is proved in the locale
  \<open>file_map\<close> from the contracts of the store and the repository; \<open>Startup\<close> uses it over S3.
\<close>

section \<open>The specification\<close>

record fileView =
  vw_Bytes :: bytes
  vw_Filename :: string
  vw_ContentType :: string
  vw_Tags :: tags

type_synonym fileMap = "string \<rightharpoonup> fileView"

datatype call =
    UploadFile uploadInput
  | UploadOnce string uploadInput
  | ReadRecord string
  | OpenFile string
  | ReadRange string int64 int64
  | LinkFile string int64
  | ListFiles listFilter
  | EditTags string tags bool
  | RemoveFile string
  | Sweep ctx int int

datatype reply =
    Failed goerr
  | Created File
  | Replayed File
  | Found File
  | Streaming File download
  | Ranged File source
  | Link File string
  | Listed "File list"
  | Removed
  | Swept

text \<open>A record describes a file.\<close>

definition tags_of :: "File \<Rightarrow> tags" where
  "tags_of f = (case f_Metadata f of None \<Rightarrow> [] | Some t \<Rightarrow> t)"

definition describes :: "libs \<Rightarrow> File \<Rightarrow> fileView \<Rightarrow> bool" where
  "describes L f x \<longleftrightarrow>
     f_Filename f = vw_Filename x \<and> f_ContentType f = vw_ContentType x \<and> tags_of f = vw_Tags x \<and>
     f_SizeBytes f = len64 (vw_Bytes x) \<and> f_Checksum f = hex_encode (lib_sha256 L (vw_Bytes x))"

text \<open>
  A stream hands over \<open>bs\<close>: all of it and without an error when the handle of the store ends
  cleanly, else a part of it and the handle's error.
\<close>

fun handle_of :: "download \<Rightarrow> source" where
  "handle_of (Raw s) = s"
| "handle_of (Verifying v) = v_rc v"

definition hands_over :: "libs \<Rightarrow> download \<Rightarrow> bytes \<Rightarrow> bool" where
  "hands_over L rc bs \<longleftrightarrow>
     (if src_final (handle_of rc) = EOF then io_Copy (lib_sha256 L) rc = (bs, None)
      else \<exists>part more. bs = part @ more \<and> io_Copy (lib_sha256 L) rc = (part, Some (src_final (handle_of rc))))"

text \<open>The file an upload makes; the identifier stands in for a missing name.\<close>

definition uploaded :: "libs \<Rightarrow> uploadInput \<Rightarrow> string \<Rightarrow> fileView" where
  "uploaded L inp i =
     \<lparr>vw_Bytes = body_rest (in_Body inp),
      vw_Filename = (if in_Filename inp = '''' then i else in_Filename inp),
      vw_ContentType = (if in_ContentType inp = ''''
        then lib_DetectContentType L (take 512 (body_rest (in_Body inp))) else in_ContentType inp),
      vw_Tags = (case in_Tags inp of None \<Rightarrow> [] | Some t \<Rightarrow> t)\<rparr>"

definition created ::
  "libs \<Rightarrow> (string \<Rightarrow> string option) \<Rightarrow> uploadInput \<Rightarrow> File \<Rightarrow> fileMap \<Rightarrow> fileMap \<Rightarrow> bool" where
  "created L canon inp f A A' \<longleftrightarrow>
     body_fin (in_Body inp) = EOF \<and> describes L f (uploaded L inp (f_ID f)) \<and>
     (\<exists>c. canon (f_ID f) = Some c \<and> A c = None \<and> A' = A(c \<mapsto> uploaded L inp (f_ID f)))"

text \<open>The identifier names a file that the record describes and of which \<open>Q\<close> holds.\<close>

definition names_file ::
  "libs \<Rightarrow> (string \<Rightarrow> string option) \<Rightarrow> string \<Rightarrow> File \<Rightarrow> (fileView \<Rightarrow> bool) \<Rightarrow> fileMap \<Rightarrow> bool" where
  "names_file L canon i f Q A \<longleftrightarrow>
     (\<exists>x. canon i = Some (f_ID f) \<and> A (f_ID f) = Some x \<and> describes L f x \<and> Q x)"

definition in_window :: "int64 \<Rightarrow> int64 \<Rightarrow> bytes \<Rightarrow> bool" where
  "in_window off len bs \<longleftrightarrow>
     0 \<le> sint off \<and> 0 < sint len \<and> sint off + sint len \<le> int (length bs) \<and> int (length bs) < 2 ^ 63"

text \<open>
  An upload creates a file under an identifier that is not in use, and only from a complete body;
  with an idempotency key it may answer with a file that is there.  Reads answer with what the
  map holds, edits and deletions apply to files that are there; sweeps and failures change nothing.
\<close>

fun spec :: "libs \<Rightarrow> (string \<Rightarrow> string option) \<Rightarrow> call \<Rightarrow> reply \<Rightarrow> fileMap \<Rightarrow> fileMap \<Rightarrow> bool" where
  "spec L canon (UploadFile inp) r A A' \<longleftrightarrow>
     (case r of Failed e \<Rightarrow> A' = A | Created f \<Rightarrow> created L canon inp f A A' | _ \<Rightarrow> False)"
| "spec L canon (UploadOnce key inp) r A A' \<longleftrightarrow>
     (case r of
        Failed e \<Rightarrow> A' = A
      | Created f \<Rightarrow> created L canon inp f A A'
      | Replayed f \<Rightarrow> (\<exists>x. A (f_ID f) = Some x \<and> describes L f x) \<and> A' = A
      | _ \<Rightarrow> False)"
| "spec L canon (ReadRecord i) r A A' \<longleftrightarrow>
     A' = A \<and> (case r of Failed e \<Rightarrow> True | Found f \<Rightarrow> names_file L canon i f (\<lambda>x. True) A | _ \<Rightarrow> False)"
| "spec L canon (OpenFile i) r A A' \<longleftrightarrow>
     A' = A \<and>
     (case r of
        Failed e \<Rightarrow> True
      | Streaming f rc \<Rightarrow> names_file L canon i f (\<lambda>x. hands_over L rc (vw_Bytes x)) A
      | _ \<Rightarrow> False)"
| "spec L canon (ReadRange i off len) r A A' \<longleftrightarrow>
     A' = A \<and>
     (case r of
        Failed e \<Rightarrow> True
      | Ranged f src \<Rightarrow> names_file L canon i f (\<lambda>x. in_window off len (vw_Bytes x) \<longrightarrow>
          delivers src (take (nat (sint len)) (drop (nat (sint off)) (vw_Bytes x)))) A
      | _ \<Rightarrow> False)"
| "spec L canon (LinkFile i ttl) r A A' \<longleftrightarrow>
     A' = A \<and> (case r of Failed e \<Rightarrow> True | Link f url \<Rightarrow> names_file L canon i f (\<lambda>x. True) A | _ \<Rightarrow> False)"
| "spec L canon (ListFiles flt) r A A' \<longleftrightarrow>
     A' = A \<and>
     (case r of
        Failed e \<Rightarrow> True
      | Listed fs \<Rightarrow> distinct (map f_ID fs) \<and> (\<forall>f\<in>set fs. \<exists>x. A (f_ID f) = Some x \<and> describes L f x)
      | _ \<Rightarrow> False)"
| "spec L canon (EditTags i tags mrg) r A A' \<longleftrightarrow>
     (case r of
        Failed e \<Rightarrow> A' = A
      | Found f \<Rightarrow> (\<exists>c x x'. canon i = Some c \<and> A c = Some x \<and> f_ID f = c \<and> describes L f x' \<and>
          x' = x\<lparr>vw_Tags := if mrg then jsonb_concat (vw_Tags x) tags else tags\<rparr> \<and> A' = A(c \<mapsto> x'))
      | _ \<Rightarrow> False)"
| "spec L canon (RemoveFile i) r A A' \<longleftrightarrow>
     (case r of
        Failed e \<Rightarrow> A' = A
      | Removed \<Rightarrow> (\<exists>c. canon i = Some c \<and> A c \<noteq> None \<and> A' = A(c := None))
      | _ \<Rightarrow> False)"
| "spec L canon (Sweep ctx now1 now2) r A A' \<longleftrightarrow> r = Swept \<and> A' = A"

section \<open>The program\<close>

definition answer :: "('a \<Rightarrow> reply) \<Rightarrow> 'a res \<Rightarrow> reply" where
  "answer ok x = (case x of Inl e \<Rightarrow> Failed e | Inr a \<Rightarrow> ok a)"

text \<open>A range is read as the handler does it: the record first, then the window of its object.\<close>

fun perform ::
  "libs \<Rightarrow> ('s, 'd, 'c) service \<Rightarrow> ('s, 'd) collector \<Rightarrow> call \<Rightarrow> ('s, 'd) world \<Rightarrow>
    reply \<times> ('s, 'd) world" where
  "perform L sv c (UploadFile inp) w =
     (case Service_Upload L sv inp w of (x, _, w') \<Rightarrow> (answer Created x, w'))"
| "perform L sv c (UploadOnce key inp) w =
     (case Service_UploadIdempotent L sv key inp w of
        (x, _, w') \<Rightarrow> (answer (\<lambda>(f, replayed). if replayed then Replayed f else Created f) x, w'))"
| "perform L sv c (ReadRecord i) w =
     (case Service_Metadata L sv i w of (x, w') \<Rightarrow> (answer Found x, w'))"
| "perform L sv c (OpenFile i) w =
     (case Service_Open L sv i w of (x, w') \<Rightarrow> (answer (\<lambda>(f, rc). Streaming f rc) x, w'))"
| "perform L sv c (ReadRange i off len) w =
     (case Service_Metadata L sv i w of
        (Inl e, w1) \<Rightarrow> (Failed e, w1)
      | (Inr f, w1) \<Rightarrow> (case Service_OpenRange sv f off len w1 of (x, w') \<Rightarrow> (answer (Ranged f) x, w')))"
| "perform L sv c (LinkFile i ttl) w =
     (case Service_Presign L sv i ttl w of (x, w') \<Rightarrow> (answer (\<lambda>(f, url). Link f url) x, w'))"
| "perform L sv c (ListFiles flt) w =
     (case Service_List L sv flt w of (x, w') \<Rightarrow> (answer Listed x, w'))"
| "perform L sv c (EditTags i tags mrg) w =
     (case Service_UpdateMetadata L sv i tags mrg w of (x, w') \<Rightarrow> (answer Found x, w'))"
| "perform L sv c (RemoveFile i) w =
     (case Service_Delete L sv i w of (x, w') \<Rightarrow> (answer (\<lambda>_. Removed) x, w'))"
| "perform L sv c (Sweep ctx now1 now2) w =
     (case RunOnce c ctx now1 now2 w of (_, w') \<Rightarrow> (Swept, w'))"

fun honest_call :: "call \<Rightarrow> bool" where
  "honest_call (UploadFile inp) = honest_input inp"
| "honest_call (UploadOnce key inp) = honest_input inp"
| "honest_call _ = True"

section \<open>The abstraction\<close>

definition view_of :: "File \<Rightarrow> object \<Rightarrow> fileView" where
  "view_of f ob =
     \<lparr>vw_Bytes = o_data ob, vw_Filename = f_Filename f, vw_ContentType = f_ContentType f,
      vw_Tags = tags_of f\<rparr>"

lemma view_describes: "describes L f (view_of f ob) \<longleftrightarrow> matches L f ob"
  by (auto simp: describes_def view_of_def matches_def)

definition files_of :: "(string \<rightharpoonup> object) \<Rightarrow> (string \<rightharpoonup> File) \<Rightarrow> fileMap" where
  "files_of M R c =
     (case R c of
        None \<Rightarrow> None
      | Some f \<Rightarrow> if live f then map_option (view_of f) (M (f_StorageKey f)) else None)"

definition files_view :: "('s \<Rightarrow> string \<rightharpoonup> object) \<Rightarrow> ('s, db) world \<Rightarrow> fileMap" where
  "files_view objs w = files_of (objs (w_store w)) (pg_rows (w_repo w))"

lemma files_of_Some:
  "files_of M R c = Some x \<longleftrightarrow>
     (\<exists>f ob. R c = Some f \<and> live f \<and> M (f_StorageKey f) = Some ob \<and> x = view_of f ob)"
  by (auto simp: files_of_def split: option.splits)

lemma verified_handle:
  assumes "delivers src bs" and "f_Checksum f = hex_encode (lib_sha256 L bs)"
  shows "hands_over L (newVerifyingReader src (f_Checksum f)) bs"
proof (cases "src_final src = EOF")
  case True
  then have "src_data src = bs"
    using assms(1) by (simp add: delivers_all)
  then show ?thesis
    using assms(2) True by (simp add: hands_over_def newVerifyingReader_def v_rest_def v_fin_def eof_nil_def)
next
  case False
  then show ?thesis
    using assms(1) by (simp add: hands_over_def delivers_def newVerifyingReader_def v_rest_def v_fin_def eof_nil_def)
qed

text \<open>The map does not see dead rows, nor objects without a live row.\<close>

lemma files_of_cong:
  assumes "\<And>c. R' c = R c \<or> (R' c = None \<and> (\<exists>f. R c = Some f \<and> \<not> live f))"
    and "\<And>c f. R c = Some f \<Longrightarrow> live f \<Longrightarrow> M' (f_StorageKey f) = M (f_StorageKey f)"
  shows "files_of M' R' = files_of M R"
proof
  fix c
  show "files_of M' R' c = files_of M R c"
    using assms(1) [of c] assms(2) [of c] by (auto simp: files_of_def split: option.splits)
qed

lemma files_of_added:
  assumes "M' = M(f_StorageKey g \<mapsto> ob)" and "\<forall>r\<in>ran R. f_StorageKey r \<noteq> f_StorageKey g" and "live g"
  shows "files_of M' (R(c \<mapsto> g)) = (files_of M R)(c \<mapsto> view_of g ob)"
proof
  fix a
  have "f_StorageKey f \<noteq> f_StorageKey g" if "R a = Some f" for f
    using that assms(2) by (auto intro: ranI)
  then show "files_of M' (R(c \<mapsto> g)) a = ((files_of M R)(c \<mapsto> view_of g ob)) a"
    using assms(1,3) by (auto simp: files_of_def split: option.splits)
qed

lemma files_of_removed: "\<not> live g \<Longrightarrow> files_of M (R(c \<mapsto> g)) = (files_of M R)(c := None)"
  by (auto simp: files_of_def fun_eq_iff)

lemma files_of_edited:
  "R c = Some f \<Longrightarrow> M (f_StorageKey f) = Some ob \<Longrightarrow> live g \<Longrightarrow> f_StorageKey g = f_StorageKey f \<Longrightarrow>
    files_of M (R(c \<mapsto> g)) = (files_of M R)(c \<mapsto> view_of g ob)"
  by (auto simp: files_of_def fun_eq_iff)

section \<open>The refinement\<close>

text \<open>What the specification needs of listings and of identifiers.\<close>

locale listing_repository = gc_repository R canon rows claims dgood
  for R :: "'d repository" and canon and rows and claims and dgood +
  assumes List_ok: "dgood d \<Longrightarrow> r_List R flt d = (Inr fs, d') \<Longrightarrow>
      distinct (map f_ID fs) \<and> (\<forall>f\<in>set fs. live f \<and> rows d (f_ID f) = Some f)"
    and row_ids: "rows d c = Some f \<Longrightarrow> f_ID f = c"

text \<open>One store, as the service and as the collector use it, and one repository.\<close>

locale file_map = file_service B objs sane R canon rows claims dgood L +
  gcs: gc_service B' objs sane R canon rows claims dgood L +
  listing_repository R canon rows claims dgood
  for B :: "('s, uploadReader, 'c) backend" and objs and sane
    and R :: "'d repository" and canon and rows and claims and dgood and L
    and B' :: "('s, uploadReader, gcStats) backend"
begin

definition files_in :: "('s, 'd) world \<Rightarrow> fileMap" where
  "files_in w = files_of (w_objs w) (w_rows w)"

lemma files_in_unchanged: "unchanged w w' \<Longrightarrow> files_in w' = files_in w"
  by (simp add: unchanged_def files_in_def)

lemma files_in_stored:
  assumes "stored inp w g w'" and "consistent w"
  shows "created L canon inp g (files_in w) (files_in w')"
proof -
  obtain c ob where s: "canon (f_ID g) = Some c" "w_rows w c = None"
    "w_rows w' = (w_rows w)(c \<mapsto> g\<lparr>f_ID := c, f_DeletedAt := None\<rparr>)"
    "w_objs w' = (w_objs w)(f_StorageKey g \<mapsto> ob)" "o_data ob = body_rest (in_Body inp)" "matches L g ob"
    using assms(1) by (auto simp: stored_def)
  let ?g = "g\<lparr>f_ID := c, f_DeletedAt := None\<rparr>"
  have "view_of ?g ob = uploaded L inp (f_ID g)" and v: "view_of g ob = uploaded L inp (f_ID g)"
    using assms(1) s(5) by (simp_all add: stored_def view_of_def uploaded_def tags_of_def split: option.splits)
  moreover have "files_in w' = (files_in w)(c \<mapsto> view_of ?g ob)"
    unfolding files_in_def s(3)
    by (rule files_of_added) (use assms(1) s(4) in \<open>simp_all add: stored_def\<close>)
  moreover have "files_in w c = None"
    using s(2) by (simp add: files_in_def files_of_def)
  moreover have "describes L g (uploaded L inp (f_ID g))"
    using s(6) by (simp add: view_describes flip: v)
  ultimately show ?thesis
    using s(1) assms(1) by (auto simp: stored_def created_def)
qed

lemma files_in_not_stored:
  assumes "not_stored w w'" and "consistent w"
  shows "files_in w' = files_in w"
proof -
  have "w_objs w' (f_StorageKey f) = w_objs w (f_StorageKey f)"
    if "w_rows w c = Some f" for c f
  proof -
    have "w_uuids w (Suc (w_next w)) \<noteq> Inr (f_StorageKey f)"
      using fresh_key [of w "w_rows w"] assms(2) that by (auto simp: consistent_def intro: ranI)
    then show ?thesis
      using assms(1) by (simp add: not_stored_def)
  qed
  moreover have "w_rows w' = w_rows w"
    using assms(1) by (simp add: not_stored_def)
  ultimately show ?thesis
    unfolding files_in_def by (intro files_of_cong) simp_all
qed

text \<open>A live row of a consistent state is a file, and the record describes it.\<close>

lemma files_in_live:
  assumes "consistent w" and "w_rows w c = Some f" and "live f"
  obtains ob where "w_objs w (f_StorageKey f) = Some ob" "matches L f ob"
    "files_in w c = Some (view_of f ob)"
proof -
  obtain ob where "w_objs w (f_StorageKey f) = Some ob" "matches L f ob"
    using assms by (fastforce simp: consistent_def backed_def)
  with that [of ob] assms(2,3) show thesis
    by (simp add: files_in_def files_of_def)
qed

lemma read_file:
  assumes "consistent w" and "Service_Metadata L sv i w = (Inr f, w')"
  obtains ob where "w_objs w (f_StorageKey f) = Some ob" "unchanged w w'"
    "\<forall>Q. Q (view_of f ob) \<longrightarrow> names_file L canon i f Q (files_in w)"
proof -
  note facts = Metadata_facts [OF assms(2) consistent_good [OF assms(1)]]
  then obtain c where c: "canon i = Some c" "w_rows w c = Some f" "live f"
    by auto
  obtain ob where "w_objs w (f_StorageKey f) = Some ob" "matches L f ob" "files_in w c = Some (view_of f ob)"
    using files_in_live [OF assms(1) c(2,3)] by blast
  then show thesis
    using that [of ob] c(1) row_ids [OF c(2)] facts by (auto simp: names_file_def view_describes)
qed

lemma names_file_read:
  assumes "consistent w" and "Service_Metadata L sv i w = (Inr f, w')"
  shows "names_file L canon i f (\<lambda>x. True) (files_in w)"
  by (rule read_file [OF assms]) simp

lemma upload_refines:
  assumes "consistent w" and "honest_input inp" and "Service_Upload L sv inp w = (x, b, w')"
  shows "spec L canon (UploadFile inp) (answer Created x) (files_in w) (files_in w')"
proof (cases x)
  case (Inl e)
  then have "not_stored w w'"
    using Upload_error [OF assms(3) [unfolded Inl] consistent_good [OF assms(1)] assms(2)] by simp
  then show ?thesis
    using files_in_not_stored [OF _ assms(1)] Inl by (simp add: answer_def)
next
  case (Inr g)
  then have "stored inp w g w'"
    using Upload_ok [OF assms(3) [unfolded Inr] consistent_good [OF assms(1)] assms(2)] by simp
  then show ?thesis
    using files_in_stored [OF _ assms(1)] Inr by (simp add: answer_def)
qed

lemma upload_once_refines:
  assumes "consistent w" and "honest_input inp"
    and "Service_UploadIdempotent L sv key inp w = (x, b, w')"
  shows "spec L canon (UploadOnce key inp)
    (answer (\<lambda>(f, replayed). if replayed then Replayed f else Created f) x) (files_in w) (files_in w')"
  using assms(3) consistent_good [OF assms(1)] assms(2)
proof (cases rule: UploadIdempotent_cases)
  case (created g)
  then show ?thesis
    using files_in_stored [OF _ assms(1)] by (simp add: answer_def)
next
  case (replayed g i c)
  obtain ob where "files_in w c = Some (view_of g ob)" "matches L g ob"
    using files_in_live [OF assms(1) replayed(10,11)] by blast
  moreover have "files_in w' = files_in w"
    using replayed(3,4) by (simp add: files_in_def)
  ultimately show ?thesis
    using replayed(1) row_ids [OF replayed(10)] by (auto simp: answer_def view_describes)
next
  case (failed e)
  then show ?thesis
    using files_in_not_stored [OF _ assms(1)] by (simp add: answer_def)
qed

lemma read_refines:
  assumes "consistent w" and r: "Service_Metadata L sv i w = (x, w')"
  shows "spec L canon (ReadRecord i) (answer Found x) (files_in w) (files_in w')"
proof -
  have same: "files_in w' = files_in w"
    using Metadata_facts [OF r consistent_good [OF assms(1)]] by (simp add: files_in_unchanged)
  show ?thesis
  proof (cases x)
    case (Inr f)
    then show ?thesis
      using names_file_read [OF assms(1) r [unfolded Inr]] by (simp add: answer_def same)
  qed (simp add: answer_def same)
qed

lemma open_refines:
  assumes "consistent w" and o: "Service_Open L sv i w = (x, w')"
  shows "spec L canon (OpenFile i) (answer (\<lambda>(f, rc). Streaming f rc) x) (files_in w) (files_in w')"
proof -
  note facts = Open_facts [OF o consistent_good [OF assms(1)]]
  then have same: "files_in w' = files_in w"
    by (simp add: files_in_unchanged)
  show ?thesis
  proof (cases x)
    case (Inr p)
    obtain f rc where p: "p = (f, rc)"
      by (cases p)
    then obtain c ob src where c: "canon i = Some c" "w_rows w c = Some f" "live f"
      "w_objs w (f_StorageKey f) = Some ob" "delivers src (o_data ob)"
      "rc = newVerifyingReader src (f_Checksum f)"
      using facts Inr by auto
    obtain ob' where ob: "w_objs w (f_StorageKey f) = Some ob'" "matches L f ob'"
      "files_in w c = Some (view_of f ob')"
      using files_in_live [OF assms(1) c(2,3)] by blast
    have "hands_over L rc (o_data ob)"
      unfolding c(6) using ob(1,2) c(4) by (intro verified_handle [OF c(5)]) (simp add: matches_def)
    then have "hands_over L rc (vw_Bytes (view_of f ob'))" "describes L f (view_of f ob')"
      using c(4) ob(1,2) by (simp_all add: view_describes) (simp add: view_of_def)
    then show ?thesis
      using Inr p c(1) ob(3) row_ids [OF c(2)] by (simp add: answer_def same names_file_def)
  qed (simp add: answer_def same)
qed

lemma range_refines:
  assumes "consistent w" and r: "perform L sv gc (ReadRange i off len) w = (r, w')"
  shows "spec L canon (ReadRange i off len) r (files_in w) (files_in w')"
proof -
  obtain y w1 where m: "Service_Metadata L sv i w = (y, w1)"
    by (cases "Service_Metadata L sv i w") auto
  have u: "unchanged w w1" "good w1"
    using Metadata_facts [OF m] consistent_good [OF assms(1)] by (simp_all add: unchanged_def)
  show ?thesis
  proof (cases y)
    case (Inl e)
    then show ?thesis
      using r m files_in_unchanged [OF u(1)] by auto
  next
    case (Inr f)
    obtain ob where f: "w_objs w (f_StorageKey f) = Some ob"
      "\<forall>Q. Q (view_of f ob) \<longrightarrow> names_file L canon i f Q (files_in w)"
      by (rule read_file [OF assms(1) m [unfolded Inr]])
    obtain z where z: "Service_OpenRange sv f off len w1 = (z, w')" "r = answer (Ranged f) z"
      using r m Inr by (auto split: prod.splits)
    have same: "files_in w' = files_in w"
      using OpenRange_frame [OF z(1) u(2)] files_in_unchanged u(1) by metis
    show ?thesis
    proof (cases z)
      case (Inl e)
      then show ?thesis
        by (simp add: z(2) answer_def same)
    next
      case (Inr src)
      have "delivers src (take (nat (sint len)) (drop (nat (sint off)) (vw_Bytes (view_of f ob))))"
        if "in_window off len (vw_Bytes (view_of f ob))"
        using that f(1) u(1) OpenRange_window [OF z(1) [unfolded Inr] u(2), of ob]
        by (simp add: in_window_def view_of_def unchanged_def)
      then show ?thesis
        using f(2) Inr by (simp add: z(2) answer_def same)
    qed
  qed
qed

lemma link_refines:
  assumes "consistent w" and l: "Service_Presign L sv i ttl w = (x, w')"
  shows "spec L canon (LinkFile i ttl) (answer (\<lambda>(f, url). Link f url) x) (files_in w) (files_in w')"
proof -
  have same: "files_in w' = files_in w"
    using Presign_frame [OF l consistent_good [OF assms(1)]] by (simp add: files_in_unchanged)
  show ?thesis
  proof (cases x)
    case (Inr p)
    then obtain f url w1 where f: "p = (f, url)" "Service_Metadata L sv i w = (Inr f, w1)"
      using l by (auto simp: Service_Presign_def split: sum.splits prod.splits)
    then show ?thesis
      using names_file_read [OF assms(1) f(2)] Inr by (simp add: answer_def same)
  qed (simp add: answer_def same)
qed

lemma list_refines:
  assumes "consistent w" and l: "Service_List L sv flt w = (x, w')"
  shows "spec L canon (ListFiles flt) (answer Listed x) (files_in w) (files_in w')"
proof -
  have good: "good w"
    by (rule consistent_good [OF assms(1)])
  have same: "files_in w' = files_in w"
    using List_frame [OF l good] by (simp add: files_in_unchanged)
  show ?thesis
  proof (cases x)
    case (Inr fs)
    obtain d where "r_List R flt (w_repo w) = (Inr fs, d)"
      using l Inr by (auto simp: Service_List_def split: if_splits sum.splits prod.splits elim!: on_repoE)
    then have fs: "distinct (map f_ID fs)" "\<forall>f\<in>set fs. live f \<and> w_rows w (f_ID f) = Some f"
      using List_ok good by (auto simp: good_def)
    then have "\<forall>f\<in>set fs. \<exists>x. files_in w (f_ID f) = Some x \<and> describes L f x"
      using files_in_live [OF assms(1)] by (metis view_describes)
    then show ?thesis
      using Inr fs(1) by (simp add: answer_def same)
  qed (simp add: answer_def same)
qed

lemma edit_refines:
  assumes "consistent w" and "Service_UpdateMetadata L sv i tags mrg w = (x, w')"
  shows "spec L canon (EditTags i tags mrg) (answer Found x) (files_in w) (files_in w')"
proof -
  note facts = UpdateMetadata_facts [OF assms(2) consistent_good [OF assms(1)]]
  show ?thesis
  proof (cases x)
    case (Inl e)
    then show ?thesis
      using facts by (simp add: answer_def files_in_def)
  next
    case (Inr g)
    then obtain c f t where c: "canon i = Some c" "w_rows w c = Some f" "live f"
      "g = f\<lparr>f_Metadata := Some (edited_tags f tags mrg), f_UpdatedAt := Some t\<rparr>"
      "w_rows w' = (w_rows w)(c \<mapsto> g)" "w_objs w' = w_objs w"
      using facts by auto
    obtain ob where ob: "w_objs w (f_StorageKey f) = Some ob" "matches L f ob"
      "files_in w c = Some (view_of f ob)"
      using files_in_live [OF assms(1) c(2,3)] by blast
    have "files_in w' = (files_in w)(c \<mapsto> view_of g ob)"
      unfolding files_in_def c(5,6) by (rule files_of_edited) (use c(2-4) ob(1) in simp_all)
    moreover have "view_of g ob = (view_of f ob)\<lparr>vw_Tags := if mrg
        then jsonb_concat (vw_Tags (view_of f ob)) tags else tags\<rparr>"
      by (simp add: c(4) view_of_def edited_tags_def tags_of_def)
    moreover have "describes L g (view_of g ob)"
      using ob(2) by (simp add: c(4) view_describes matches_def)
    moreover have "f_ID g = c"
      using row_ids [OF c(2)] by (simp add: c(4))
    ultimately show ?thesis
      using Inr c(1) ob(3) by (auto simp: answer_def)
  qed
qed

lemma remove_refines:
  assumes "consistent w" and "Service_Delete L sv i w = (x, w')"
  shows "spec L canon (RemoveFile i) (answer (\<lambda>_. Removed) x) (files_in w) (files_in w')"
proof -
  note facts = Delete_facts [OF assms(2) consistent_good [OF assms(1)]]
  show ?thesis
  proof (cases x)
    case (Inl e)
    then show ?thesis
      using facts by (simp add: answer_def files_in_def)
  next
    case (Inr u)
    then obtain c f t where c: "canon i = Some c" "w_rows w c = Some f" "live f"
      "w_rows w' = (w_rows w)(c \<mapsto> f\<lparr>f_DeletedAt := Some t\<rparr>)" "w_objs w' = w_objs w"
      using facts by auto
    obtain ob where "files_in w c = Some (view_of f ob)"
      using files_in_live [OF assms(1) c(2,3)] by blast
    moreover have "files_in w' = (files_in w)(c := None)"
      unfolding files_in_def c(4,5) by (rule files_of_removed) simp
    ultimately show ?thesis
      using Inr c(1) by (auto simp: answer_def)
  qed
qed

lemma sweep_refines:
  assumes "consistent w" and r: "RunOnce (gcs.gc iv gr ttl) ctx now1 now2 w = (x, w')"
  shows "files_in w' = files_in w"
proof -
  have good: "good w"
    by (rule consistent_good [OF assms(1)])
  let ?K = "gcs.dead_keys w \<union> gcs.stale (time_before now1 gr) w"
  have sh: "gcs.shrunk ?K w w'"
    by (rule gcs.RunOnce_shrunk [OF r good])
  show ?thesis
    unfolding files_in_def
  proof (rule files_of_cong)
    show "w_rows w' c = w_rows w c \<or> (w_rows w' c = None \<and> (\<exists>f. w_rows w c = Some f \<and> \<not> live f))" for c
      using sh unfolding gcs.shrunk_def by blast
    fix c f assume f: "w_rows w c = Some f" "live f"
    have "f_StorageKey f \<notin> ?K"
      by (rule gcs.live_key_spared [OF good f])
    then show "w_objs w' (f_StorageKey f) = w_objs w (f_StorageKey f)"
      using sh unfolding gcs.shrunk_def by blast
  qed
qed

lemma perform_refines:
  assumes "consistent w" and "honest_call call" and "perform L sv (gcs.gc iv gr ttl) call w = (r, w')"
  shows "spec L canon call r (files_in w) (files_in w')"
proof (cases call)
  case (ReadRange i off len)
  then show ?thesis
    using range_refines [OF assms(1)] assms(3) by blast
next
  case (Sweep ctx now1 now2)
  then show ?thesis
    using sweep_refines [OF assms(1)] assms(3) by (auto split: prod.splits)
qed (use assms(2,3) in \<open>auto simp: upload_refines [OF assms(1)] upload_once_refines [OF assms(1)]
    read_refines [OF assms(1)] open_refines [OF assms(1)] link_refines [OF assms(1)] list_refines [OF assms(1)]
    edit_refines [OF assms(1)] remove_refines [OF assms(1)] simp del: spec.simps split: prod.splits\<close>)

end

text \<open>The program over the in-memory store and the SQL tables.\<close>

lemma sql_list_ok:
  assumes "sql_list canon flt d = (Inr fs, d')" and "tables_ok d"
  shows "distinct (map f_ID fs)" "\<forall>f\<in>set fs. live f \<and> pg_rows d (f_ID f) = Some f"
proof -
  obtain n cur where fs: "fs = take n (newest_first (filter (list_cond flt cur) (d_files d)))"
    using assms(1) by (auto simp: sql_list_def Let_def split: if_splits option.splits)
  have "distinct (map f_ID (filter (list_cond flt cur) (d_files d)))"
    using assms(2) by (simp add: tables_ok_def distinct_map_filter)
  then have "distinct (map f_ID (newest_first (filter (list_cond flt cur) (d_files d))))"
    by (auto simp: newest_first_def distinct_map simp flip: rev_map)
  then show "distinct (map f_ID fs)"
    by (simp add: fs distinct_take flip: take_map)
  show "\<forall>f\<in>set fs. live f \<and> pg_rows d (f_ID f) = Some f"
    using pg_rows_mem [OF assms(2)] by (auto simp: fs newest_first_def list_cond_def dest!: in_set_takeD)
qed

interpretation pg_list: listing_repository "pg_repo canon" canon pg_rows pg_claims pg_good
  for canon :: "string \<Rightarrow> string option"
proof
  fix d flt fs d'
  assume g: "pg_good d" and "r_List (pg_repo canon) flt d = (Inr fs, d')"
  then obtain d1 where s: "send (sql_list canon flt) d = (Inr fs, d1)"
    by (auto simp: pg_List_def split: sum.splits prod.splits)
  have "acked d" "tables_ok (pop d)"
    using g by (simp_all add: pg_good_def)
  then show "distinct (map f_ID fs) \<and> (\<forall>f\<in>set fs. live f \<and> pg_rows d (f_ID f) = Some f)"
    using sql_list_ok [OF send_Inr [OF s]] by simp
qed (use pg_rows_SomeD in blast)

interpretation fm: file_map "mem_backend upload_ReadAll" m_map m_sane "pg_repo canon" canon pg_rows pg_claims
  pg_good L "mem_backend upload_ReadAll"
  for canon :: "string \<Rightarrow> string option" and L :: libs ..

section \<open>Properties\<close>

text \<open>C1. The program refines the file map.  From every reachable state, whatever the database does
  short of losing acknowledgements, every call answers as the specification says and does to the
  files exactly what it says: a new file, one file removed or retagged, or nothing; failures and
  sweeps are invisible.\<close>

theorem program_refines_file_map:
  assumes "(app_step L canon (gc_model canon iv gr ttl))\<^sup>*\<^sup>* (start u now faults) w"
    and "distinct_supply u" and "\<forall>e. Unacked e \<notin> set faults" and "honest_call call"
    and "perform L (model canon) (gc_model canon iv gr ttl) call w = (r, w')"
  shows "spec L canon call r (files_view m_map w) (files_view m_map w')"
  using fm.perform_refines [OF app_run_consistent [OF assms(1) start_consistent [OF assms(2,3)]] assms(4,5)]
  by (simp add: files_view_def fm.files_in_def)

theorem program_refines_file_map_witness:
  "\<exists>f w' c. perform demo_libs (model Some) (gc_model Some 1 0 0) (UploadFile demo_input) demo_start =
      (Created f, w') \<and>
    files_view m_map w' = (files_view m_map demo_start)(c \<mapsto> uploaded demo_libs demo_input (f_ID f))"
proof -
  obtain f b w' where up: "Service_Upload demo_libs (model Some) demo_input demo_start = (Inr f, b, w')"
    using demo_upload by blast
  then have p: "perform demo_libs (model Some) (gc_model Some 1 0 0) (UploadFile demo_input) demo_start =
      (Created f, w')"
    by (simp add: answer_def)
  have "(app_step demo_libs Some (gc_model Some 1 0 0))\<^sup>*\<^sup>* (start demo_uuids 0 []) demo_start"
    by (simp add: demo_start_def)
  from program_refines_file_map [OF this demo_distinct _ _ p] show ?thesis
    using p demo_good(3) by (auto simp: created_def)
qed

end
