(* ===== verification/SqlProgram.thy ===== *)
theory SqlProgram
  imports RepoExact FileMap
begin

text \<open>
  The program over the statements as text.  Service and collector with the repository of \<open>RepoSql\<close>
  in place of the one of \<open>PostgresRepo\<close> give the same replies and worlds: \<open>rows_ok\<close>, under which the
  statements are exact, is kept by every call, as long as the tags that calls bring in have each key
  once, as Go maps do.
\<close>

section \<open>The tables stay readable\<close>

lemma rows_ok_send:
  assumes "rows_ok d" and "\<And>d'. d_files d' = d_files d \<Longrightarrow> rows_ok (snd (f d'))"
  shows "rows_ok (snd (send f d))"
proof (cases "d_faults d")
  case (Cons x xs)
  then show ?thesis
    using assms(1) assms(2) [of "d\<lparr>d_faults := xs\<rparr>"] by (cases x) (simp_all add: send_def Let_def rows_ok_def)
qed (simp add: send_def assms(2))

lemma rows_ok_files: "d_files d' = d_files d \<Longrightarrow> rows_ok d' = rows_ok d"
  by (simp add: rows_ok_def)

definition tags_fit :: "tags option \<Rightarrow> bool" where
  "tags_fit m \<longleftrightarrow> (case m of None \<Rightarrow> True | Some t \<Rightarrow> distinct (map fst t))"

lemma insert_rows_ok:
  assumes "rows_ok d" and "tags_fit (f_Metadata f)"
  shows "rows_ok (snd (insertFile canon f d))"
proof -
  define g where "g = (if f_Metadata f = None then f\<lparr>f_Metadata := Some []\<rparr> else f)"
  have g: "row_ok (g\<lparr>f_ID := c, f_CreatedAt := t, f_UpdatedAt := None, f_DeletedAt := None\<rparr>)" for c t
    using assms(2) by (auto simp: g_def row_ok_def tags_fit_def)
  have "rows_ok (snd (send (sql_insert_file canon g) d))"
    using assms(1) g by (intro rows_ok_send) (auto simp: sql_insert_file_def rows_ok_def split: option.splits)
  moreover have "snd (insertFile canon f d) = snd (send (sql_insert_file canon g) d)"
    by (simp add: insertFile_def Let_def g_def [symmetric] split: prod.splits sum.splits)
  ultimately show ?thesis
    by simp
qed

lemma update_live_rows_ok:
  assumes "rows_ok d" and "\<And>d f. row_ok f \<Longrightarrow> row_ok (g d f)"
  shows "rows_ok (snd (send (sql_update_live canon g i) d))"
  using assms by (intro rows_ok_send) (auto simp: sql_update_live_def rows_ok_def split: option.splits)

lemma repo_rows_ok:
  assumes "rows_ok d"
  shows "tags_fit (f_Metadata f) \<Longrightarrow> rows_ok (snd (pg_Create canon f d))"
    "rows_ok (snd (pg_Get canon i d))" "rows_ok (snd (pg_List canon flt d))"
    "distinct (map fst tags) \<Longrightarrow> rows_ok (snd (pg_UpdateMetadata canon i tags mrg d))"
    "rows_ok (snd (pg_Delete canon i d))" "rows_ok (snd (pg_ListDeleted n d))" "rows_ok (snd (pg_Purge canon i d))"
    "rows_ok (snd (pg_StorageKeys d))" "rows_ok (snd (pg_ClaimIdempotencyKey k d))"
    "rows_ok (snd (pg_ReleaseIdempotencyKey k d))" "rows_ok (snd (pg_PurgeIdempotencyKeys t d))"
proof -
  have rows: "rows_ok (snd (send (sql_rows h) d))" for h :: "db \<Rightarrow> 'x"
    using assms by (intro rows_ok_send) (simp_all add: sql_rows_def rows_ok_def)
  show "tags_fit (f_Metadata f) \<Longrightarrow> rows_ok (snd (pg_Create canon f d))"
    using insert_rows_ok [OF assms] by (simp add: pg_Create_def)
  have "rows_ok (snd (send (sql_get canon i) d))"
    using assms by (intro rows_ok_send) (auto simp: sql_get_def rows_ok_def split: option.splits)
  then show "rows_ok (snd (pg_Get canon i d))"
    by (auto simp: pg_Get_def split: prod.splits sum.splits)
  have "rows_ok (snd (send (sql_list canon flt) d))"
    using assms by (intro rows_ok_send) (auto simp: sql_list_def Let_def rows_ok_def split: option.splits)
  then show "rows_ok (snd (pg_List canon flt d))"
    by (auto simp: pg_List_def split: prod.splits sum.splits)
  show "rows_ok (snd (pg_UpdateMetadata canon i tags mrg d))" if "distinct (map fst tags)"
    using update_live_rows_ok [OF assms, of "\<lambda>d f. f\<lparr>f_Metadata := Some (edited_tags f tags mrg),
        f_UpdatedAt := Some (d_now d)\<rparr>" canon i] edited_row_ok that
    by (auto simp: pg_UpdateMetadata_def Let_def split: prod.splits sum.splits list.splits)
  show "rows_ok (snd (pg_Delete canon i d))"
    using update_live_rows_ok [OF assms, of "\<lambda>d f. f\<lparr>f_DeletedAt := Some (d_now d)\<rparr>" canon i]
    by (auto simp: pg_Delete_def row_ok_def split: prod.splits sum.splits)
  show "rows_ok (snd (pg_ListDeleted n d))"
    using rows [of "sql_list_deleted (if n <=s 0 then 500 else n)"]
    by (auto simp: pg_ListDeleted_def Let_def split: prod.splits sum.splits)
  have "rows_ok (snd (send (sql_purge canon i) d))"
    using assms by (intro rows_ok_send) (auto simp: sql_purge_def rows_ok_def split: option.splits)
  then show "rows_ok (snd (pg_Purge canon i d))"
    by (auto simp: pg_Purge_def split: prod.splits sum.splits)
  show "rows_ok (snd (pg_StorageKeys d))"
    using rows [of "\<lambda>d. set (map f_StorageKey (d_files d))"] by (auto simp: pg_StorageKeys_def split: prod.splits sum.splits)
  have c: "rows_ok (snd (send (sql_claim k) d))"
    using assms by (intro rows_ok_send) (auto simp: sql_claim_def rows_ok_def)
  have "rows_ok (snd (send (sql_read_idem k) d'))" if "rows_ok d'" for d'
    using that by (intro rows_ok_send) (auto simp: sql_read_idem_def rows_ok_def split: option.splits)
  with c show "rows_ok (snd (pg_ClaimIdempotencyKey k d))"
    by (fastforce simp: pg_ClaimIdempotencyKey_def split: prod.splits sum.splits)
  have "rows_ok (snd (send (sql_release k) d))"
    using assms by (intro rows_ok_send) (simp_all add: sql_release_def rows_ok_def)
  then show "rows_ok (snd (pg_ReleaseIdempotencyKey k d))"
    by (auto simp: pg_ReleaseIdempotencyKey_def split: prod.splits sum.splits)
  have "rows_ok (snd (send (sql_purge_keys t) d))"
    using assms by (intro rows_ok_send) (simp_all add: sql_purge_keys_def rows_ok_def)
  then show "rows_ok (snd (pg_PurgeIdempotencyKeys t d))"
    by (auto simp: pg_PurgeIdempotencyKeys_def split: prod.splits sum.splits)
qed

lemma create_for_key_rows_ok:
  assumes "rows_ok d" and "tags_fit (f_Metadata f)"
  shows "rows_ok (snd (pg_CreateForKey canon f k d))"
proof -
  obtain x0 d0 where s0: "send (sql_rows (\<lambda>_. ())) d = (x0, d0)"
    by (metis surj_pair)
  have d0: "rows_ok d0"
    using rows_ok_send [of d "sql_rows (\<lambda>_. ())"] assms(1) s0 by (simp add: sql_rows_def rows_ok_def)
  obtain x1 d1 where s1: "insertFile canon f d0 = (x1, d1)"
    by (metis surj_pair)
  have d1: "rows_ok d1"
    using insert_rows_ok [OF d0 assms(2), of canon] s1 by simp
  obtain x2 d2 where s2: "send (sql_complete k (f_ID f)) d1 = (x2, d2)"
    by (metis surj_pair)
  have d2: "rows_ok d2"
    using rows_ok_send [OF d1, of "sql_complete k (f_ID f)"] d1 s2 by (simp add: sql_complete_def rows_ok_def)
  have undone: "rows_ok (rollback d0 d')" for d'
    using d0 by (simp add: rollback_def rows_ok_def)
  have "rows_ok (snd (commit d0 d2))"
    unfolding commit_def by (rule rows_ok_send [OF undone]) (use d2 in \<open>simp add: rows_ok_def\<close>)
  then show ?thesis
    using s0 s1 s2 d0 undone
    by (auto simp: pg_CreateForKey_def split: prod.splits sum.splits)
qed

section \<open>The same program\<close>

lemma sql_repo_sel:
  "r_Create (sql_repo canon) = pg_Create canon" "r_Delete (sql_repo canon) = pg_Delete canon"
  "r_Purge (sql_repo canon) = pg_Purge canon" "r_StorageKeys (sql_repo canon) = pg_StorageKeys"
  "r_ClaimIdempotencyKey (sql_repo canon) = pg_ClaimIdempotencyKey"
  "r_CreateForKey (sql_repo canon) = pg_CreateForKey canon"
  "r_ReleaseIdempotencyKey (sql_repo canon) = pg_ReleaseIdempotencyKey"
  "r_PurgeIdempotencyKeys (sql_repo canon) = pg_PurgeIdempotencyKeys"
  "r_Get (sql_repo canon) = Repo_Get canon" "r_List (sql_repo canon) = Repo_List canon"
  "r_UpdateMetadata (sql_repo canon) = Repo_UpdateMetadata canon"
  "r_ListDeleted (sql_repo canon) = Repo_ListDeleted canon"
  by (simp_all add: sql_repo_def fun_eq_iff Repo_Create_def pg_Create_def insert_exact delete_exact purge_exact
      keys_exact claim_exact create_for_key_exact release_exact purge_keys_exact)

text \<open>Service and collector, over the texts and over the rows.\<close>

abbreviation on_sql :: "('s, uploadReader, 'c) backend \<Rightarrow> (string \<Rightarrow> string option) \<Rightarrow> ('s, db, 'c) service" where
  "on_sql B canon \<equiv> files_New B (sql_repo canon)"

abbreviation on_pg :: "('s, uploadReader, 'c) backend \<Rightarrow> (string \<Rightarrow> string option) \<Rightarrow> ('s, db, 'c) service" where
  "on_pg B canon \<equiv> files_New B (pg_repo canon)"

lemma service_sel: "sv_repo (files_New B R) = R" "sv_backend (files_New B R) = B"
  by (simp_all add: files_New_def)

lemmas repo_sel = service_sel sql_repo_sel pg_repo_sel

lemma stage_same: "stage L (on_sql B canon) = stage L (on_pg B canon)"
  "drop_object (on_sql B canon) = drop_object (on_pg B canon)" "release (on_sql B canon) = release (on_pg B canon)"
proof -
  show drop: "drop_object (on_sql B canon) = drop_object (on_pg B canon)"
    unfolding fun_eq_iff drop_object_def repo_sel by simp
  show "release (on_sql B canon) = release (on_pg B canon)"
    unfolding fun_eq_iff release_def repo_sel by simp
  have size: "resolve_size (on_sql B canon) = resolve_size (on_pg B canon)"
    unfolding fun_eq_iff resolve_size_def repo_sel drop by simp
  show "stage L (on_sql B canon) = stage L (on_pg B canon)"
    unfolding fun_eq_iff stage_def repo_sel size by simp
qed

lemma on_repo_same: "f (w_repo w) = g (w_repo w) \<Longrightarrow> on_repo f w = on_repo g w"
  by (simp add: on_repo_def)

lemma reads_same:
  assumes "rows_ok (w_repo w)"
  shows "on_repo (Repo_Get canon i) w = on_repo (pg_Get canon i) w"
    "on_repo (Repo_List canon flt) w = on_repo (pg_List canon flt) w"
    "on_repo (Repo_ListDeleted canon n) w = on_repo (pg_ListDeleted n) w"
    "distinct (map fst tags) \<Longrightarrow> on_repo (Repo_UpdateMetadata canon i tags mrg) w = on_repo (pg_UpdateMetadata canon i tags mrg) w"
  using get_exact [OF assms] list_exact [OF assms] list_deleted_exact [OF assms] update_exact [OF assms]
  by (auto intro!: on_repo_same)

lemma claim_rows: "on_repo (pg_ClaimIdempotencyKey k) w = (x, w') \<Longrightarrow> rows_ok (w_repo w) \<Longrightarrow> rows_ok (w_repo w')"
  using repo_rows_ok(9) [of "w_repo w" k] by (auto simp: on_repo_def split: prod.splits)

lemma replay_same: "rows_ok (w_repo w) \<Longrightarrow> replay (on_sql B canon) ex w = replay (on_pg B canon) ex w"
  unfolding replay_def repo_sel by (simp only: reads_same(1))

text \<open>What calls bring in.\<close>

fun tags_ok :: "call \<Rightarrow> bool" where
  "tags_ok (UploadFile inp) = tags_fit (in_Tags inp)"
| "tags_ok (UploadOnce key inp) = tags_fit (in_Tags inp)"
| "tags_ok (EditTags i tags mrg) = distinct (map fst tags)"
| "tags_ok _ = True"

abbreviation gc_sql where "gc_sql B canon iv gr ttl \<equiv> gc_New B (sql_repo canon) iv gr ttl"

abbreviation gc_pg where "gc_pg B canon iv gr ttl \<equiv> gc_New B (pg_repo canon) iv gr ttl"

lemma collector_sel: "co_store (gc_New B R iv gr ttl) = B" "co_repo (gc_New B R iv gr ttl) = R"
  "co_grace (gc_New B R iv gr ttl) = gr" "co_idemTTL (gc_New B R iv gr ttl) = ttl"
  "co_batch (gc_New B R iv gr ttl) = defaultBatch"
  by (simp_all add: gc_New_def)

lemma purge_loop_same: "purge_loop (gc_sql B canon iv gr ttl) ctx i fs st w = purge_loop (gc_pg B canon iv gr ttl) ctx i fs st w"
proof (induction fs arbitrary: i st w)
  case (Cons f fs)
  then show ?case
    unfolding purge_loop.simps collector_sel repo_sel Cons.IH by simp
qed simp

lemma visit_same: "visit (gc_sql B canon iv gr ttl) = visit (gc_pg B canon iv gr ttl)"
  unfolding fun_eq_iff visit_def collector_sel by simp

lemma sweep_same:
  assumes "rows_ok (w_repo w)"
  shows "RunOnce (gc_sql B canon iv gr ttl) ctx now1 now2 w = RunOnce (gc_pg B canon iv gr ttl) ctx now1 now2 w"
proof -
  have deleted: "purgeDeleted (gc_sql B canon iv gr ttl) ctx st w = purgeDeleted (gc_pg B canon iv gr ttl) ctx st w" for st
    unfolding purgeDeleted_def collector_sel repo_sel purge_loop_same reads_same(3) [OF assms] by simp
  have orphans: "reclaimOrphans (gc_sql B canon iv gr ttl) = reclaimOrphans (gc_pg B canon iv gr ttl)"
    unfolding fun_eq_iff reclaimOrphans_def visit_same collector_sel repo_sel by simp
  have keys: "expireIdempotencyKeys (gc_sql B canon iv gr ttl) = expireIdempotencyKeys (gc_pg B canon iv gr ttl)"
    unfolding fun_eq_iff expireIdempotencyKeys_def collector_sel repo_sel by simp
  show ?thesis
    unfolding RunOnce_def deleted orphans keys by (rule refl)
qed

lemma once_same:
  assumes "rows_ok (w_repo w)"
  shows "Service_UploadIdempotent L (on_sql B canon) key inp w = Service_UploadIdempotent L (on_pg B canon) key inp w"
proof -
  obtain x w1 where c: "on_repo (pg_ClaimIdempotencyKey key) w = (x, w1)"
    by (metis surj_pair)
  show ?thesis
    unfolding Service_UploadIdempotent_def repo_sel c stage_same prod.case replay_same [OF claim_rows [OF c assms]] by (rule refl)
qed

lemma perform_same:
  assumes "rows_ok (w_repo w)" and "tags_ok call"
  shows "perform L (on_sql B canon) (gc_sql B' canon iv gr ttl) call w =
    perform L (on_pg B canon) (gc_pg B' canon iv gr ttl) call w"
proof -
  note same = reads_same [OF assms(1)]
  have meta: "Service_Metadata L (on_sql B canon) i w = Service_Metadata L (on_pg B canon) i w" for i
    unfolding Service_Metadata_def repo_sel same by (rule refl)
  have range: "Service_OpenRange (on_sql B canon) = Service_OpenRange (on_pg B canon)"
    unfolding fun_eq_iff Service_OpenRange_def repo_sel by simp
  show ?thesis
  proof (cases call)
    case (UploadFile inp)
    show ?thesis
      unfolding UploadFile perform.simps Service_Upload_def stage_same repo_sel by (rule refl)
  next
    case (EditTags i tags mrg)
    with assms(2) same(4) show ?thesis
      unfolding EditTags perform.simps Service_UpdateMetadata_def repo_sel by simp
  next
    case (OpenFile i)
    show ?thesis
      unfolding OpenFile perform.simps Service_Open_def meta repo_sel by (rule refl)
  next
    case (LinkFile i ttl)
    show ?thesis
      unfolding LinkFile perform.simps Service_Presign_def meta repo_sel by (rule refl)
  next
    case (ListFiles flt)
    show ?thesis
      unfolding ListFiles perform.simps Service_List_def same repo_sel by (rule refl)
  next
    case (RemoveFile i)
    show ?thesis
      unfolding RemoveFile perform.simps Service_Delete_def repo_sel by (rule refl)
  next
    case (ReadRange i off len)
    show ?thesis
      unfolding ReadRange perform.simps meta range by (rule refl)
  qed (simp_all add: meta once_same [OF assms(1)] sweep_same [OF assms(1)])
qed

section \<open>Calls keep the tables readable\<close>

abbreviation fit :: "('s, db) world \<Rightarrow> bool" where
  "fit w \<equiv> rows_ok (w_repo w)"

lemma fit_repo: "on_repo f w = (x, w') \<Longrightarrow> rows_ok (snd (f (w_repo w))) \<Longrightarrow> fit w'"
  by (auto simp: on_repo_def split: prod.splits)

lemma fit_store: "on_store f w = (x, w') \<Longrightarrow> fit w' = fit w"
  by (auto simp: on_store_def split: prod.splits)

lemma fit_drop: "fit (drop_object sv k w) = fit w"
  by (simp add: drop_object_def on_store_def split: prod.splits)

lemma fit_release: "fit w \<Longrightarrow> fit (release (on_pg B canon) k w)"
  using repo_rows_ok(10) [of "w_repo w" k] unfolding release_def repo_sel
  by (auto simp: on_repo_def split: prod.splits)

lemma fit_undo: "fit w \<Longrightarrow> fit (release (on_pg B canon) k (drop_object sv j w))"
  by (simp add: fit_release fit_drop)

lemma upload_fit:
  assumes "Service_Upload L (on_pg B canon) inp w = (x, b, w')" and "fit w" and "tags_fit (in_Tags inp)"
  shows "fit w'"
proof -
  obtain y b1 w1 where s: "stage L (on_pg B canon) inp w = (y, b1, w1)"
    by (metis prod_cases3)
  show ?thesis
  proof (cases y)
    case (Inl e)
    then show ?thesis
      using assms s stage_repo [OF s] by (simp add: Service_Upload_def)
  next
    case (Inr f)
    obtain z w2 where c: "on_repo (pg_Create canon f) w1 = (z, w2)"
      by (metis surj_pair)
    have "fit w2"
      using fit_repo [OF c] repo_rows_ok(1) [of "w_repo w1" f canon] assms(2,3) stage_repo [OF s] stage_tags [OF s [unfolded Inr]] by simp
    then show ?thesis
      using assms(1) s Inr c unfolding Service_Upload_def repo_sel
      by (auto simp: fit_drop split: sum.splits)
  qed
qed

lemma once_fit:
  assumes "Service_UploadIdempotent L (on_pg B canon) key inp w = (x, b, w')" and "fit w" and "tags_fit (in_Tags inp)"
  shows "fit w'"
proof -
  obtain y w1 where c: "on_repo (pg_ClaimIdempotencyKey key) w = (y, w1)"
    by (metis surj_pair)
  have w1: "fit w1"
    using claim_rows [OF c assms(2)] .
  obtain z b2 w2 where s: "stage L (on_pg B canon) inp w1 = (z, b2, w2)"
    by (metis prod_cases3)
  have w2: "fit w2" "\<And>f. z = Inr f \<Longrightarrow> f_Metadata f = in_Tags inp"
    using stage_repo [OF s] stage_tags s w1 by auto
  have w3: "fit w3" if "on_repo (pg_CreateForKey canon f key) w2 = (v, w3)" "z = Inr f" for f v w3
    using fit_repo [OF that(1)] create_for_key_rows_ok [OF w2(1), of f canon key] w2(2) [OF that(2)] assms(3) by simp
  have rep: "fit w4" if "replay (on_pg B canon) ex w1 = (v, w4)" for ex v w4
    using that w1 repo_rows_ok(2) [OF w1, of canon] unfolding replay_def repo_sel
    by (auto split: option.splits bool.splits sum.splits prod.splits if_splits dest: fit_repo)
  show ?thesis
    using assms(1) c s w1 w2(1) unfolding Service_UploadIdempotent_def repo_sel
    by (auto simp: fit_drop split: sum.splits prod.splits bool.splits dest: w3 intro: rep fit_release fit_undo)
qed

lemma purge_loop_fit:
  "purge_loop (gc_pg B canon iv gr ttl) ctx i fs st w = (e, j, st', w') \<Longrightarrow> fit w \<Longrightarrow> fit w'"
proof (induction fs arbitrary: i st w)
  case (Cons f fs)
  obtain x w1 where x: "on_store (b_Delete B (f_StorageKey f)) w = (x, w1)"
    by (metis surj_pair)
  obtain y w2 where y: "on_repo (pg_Purge canon (f_ID f)) w1 = (y, w2)"
    by (metis surj_pair)
  have "fit w1"
    using fit_store [OF x] Cons.prems(2) by simp
  moreover from this have "fit w2"
    using fit_repo [OF y] repo_rows_ok(7) by blast
  ultimately show ?case
    using Cons.prems Cons.IH x y unfolding purge_loop.simps collector_sel repo_sel
    by (auto split: option.splits sum.splits)
qed simp

lemma sweep_fit:
  assumes "RunOnce (gc_pg B canon iv gr ttl) ctx now1 now2 w = (x, w')" and "fit w"
  shows "fit w'"
proof -
  let ?c = "gc_pg B canon iv gr ttl"
  have deleted: "fit v'" if "purgeDeleted ?c ctx st v = (e, j, st', v')" "fit v" for st v e j st' v'
    using that repo_rows_ok(6) [OF that(2), of defaultBatch]
    unfolding purgeDeleted_def collector_sel repo_sel
    by (auto split: sum.splits prod.splits dest: fit_repo dest!: purge_loop_fit)
  have orphans: "fit v'" if "reclaimOrphans ?c c n st v = (e, st', v')" "fit v" for c n st v e st' v'
    using that repo_rows_ok(8) [OF that(2)] unfolding reclaimOrphans_def collector_sel repo_sel
    by (auto split: sum.splits prod.splits dest: fit_repo)
  have keys: "fit v'" if "expireIdempotencyKeys ?c n st v = (e, st', v')" "fit v" for n st v e st' v'
    using that repo_rows_ok(11) [OF that(2)] unfolding expireIdempotencyKeys_def collector_sel repo_sel
    by (auto split: sum.splits prod.splits if_splits dest: fit_repo)
  show ?thesis
    using assms by (auto simp: RunOnce_def split: prod.splits option.splits dest!: deleted orphans keys)
qed

lemma record_fit:
  assumes "Service_Metadata L (on_pg B canon) i w = (x, w')" and "fit w"
  shows "fit w'"
  using assms(1,2) repo_rows_ok(2) [OF assms(2), of canon i] unfolding Service_Metadata_def repo_sel
  by (auto split: sum.splits prod.splits if_splits dest: fit_repo)

lemma reads_fit:
  assumes "fit w"
  shows "Service_Open L (on_pg B canon) i w = (x, w') \<Longrightarrow> fit w'"
    "Service_OpenRange (on_pg B canon) f off len w = (y, w') \<Longrightarrow> fit w'"
    "Service_Presign L (on_pg B canon) i ttl w = (z, w') \<Longrightarrow> fit w'"
    "Service_List L (on_pg B canon) flt w = (u, w') \<Longrightarrow> fit w'"
    "Service_Delete L (on_pg B canon) i w = (v, w') \<Longrightarrow> fit w'"
    "distinct (map fst tags) \<Longrightarrow> Service_UpdateMetadata L (on_pg B canon) i tags mrg w = (t, w') \<Longrightarrow> fit w'"
  using assms repo_rows_ok(3) [OF assms, of canon flt] repo_rows_ok(5) [OF assms, of canon i]
    repo_rows_ok(4) [OF assms, of tags canon i mrg]
  unfolding Service_Open_def Service_OpenRange_def Service_Presign_def Service_List_def Service_Delete_def
    Service_UpdateMetadata_def repo_sel
  by (auto split: sum.splits prod.splits if_splits dest: fit_repo fit_store dest!: record_fit)

lemma perform_fit:
  assumes "perform L (on_pg B canon) (gc_pg B' canon iv gr ttl) call w = (r, w')"
    and "fit w" and "tags_ok call"
  shows "fit w'"
  using assms
  by (cases call) (auto split: prod.splits sum.splits dest: upload_fit once_fit record_fit reads_fit sweep_fit)

section \<open>Lists of calls\<close>

fun perform_all ::
  "libs \<Rightarrow> ('s, 'd, 'c) service \<Rightarrow> ('s, 'd) collector \<Rightarrow> call list \<Rightarrow> ('s, 'd) world \<Rightarrow>
    reply list \<times> ('s, 'd) world" where
  "perform_all L sv c [] w = ([], w)"
| "perform_all L sv c (call # calls) w =
     (case perform L sv c call w of
        (r, w1) \<Rightarrow> (case perform_all L sv c calls w1 of (rs, w2) \<Rightarrow> (r # rs, w2)))"

text \<open>C19. Service and collector over the statements the repository sends to the database, as text
  that is parsed and run against the two tables, give the same replies and leave the same world as
  over the operations on rows, for every list of calls whose tags have each key once and from every
  state of tables with such tags: faults, idempotency keys and sweeps included.  So every other
  property of service and collector holds of the program with its queries.\<close>

theorem program_over_statements:
  assumes "rows_ok (w_repo w)" and "\<forall>call\<in>set calls. tags_ok call"
  shows "perform_all L (files_New B (sql_repo canon)) (gc_New B' (sql_repo canon) iv gr ttl) calls w =
    perform_all L (files_New B (pg_repo canon)) (gc_New B' (pg_repo canon) iv gr ttl) calls w"
  using assms
proof (induction calls arbitrary: w)
  case (Cons call calls)
  obtain r w1 where p: "perform L (on_pg B canon) (gc_pg B' canon iv gr ttl) call w = (r, w1)"
    by (metis surj_pair)
  have "fit w1"
    using perform_fit [OF p] Cons.prems by simp
  then show ?case
    using Cons p by (simp add: perform_same)
qed simp

theorem program_over_statements_witness:
  "\<exists>f g w. perform_all demo_libs (files_New (mem_backend upload_ReadAll :: (memstore, uploadReader, unit) backend) (sql_repo Some))
      (gc_New (mem_backend upload_ReadAll) (sql_repo Some) 1 0 0)
      [UploadOnce ''k'' demo_input, UploadOnce ''k'' demo_input] demo_start = ([Created f, Replayed g], w) \<and>
    f_StorageKey g = f_StorageKey f"
proof -
  let ?calls = "[UploadOnce ''k'' demo_input, UploadOnce ''k'' demo_input]"
  obtain f b w h where first: "Service_UploadIdempotent demo_libs (model Some) ''k'' demo_input demo_start =
      (Inr (f, False), b, w)" and retry: "Service_UploadIdempotent demo_libs (model Some) ''k'' demo_input w =
      (Inr (h, True), in_Body demo_input, w)" and key: "f_StorageKey h = f_StorageKey f"
    by (rule demo_retry)
  then have run: "perform_all demo_libs (model Some) (gc_model Some 1 0 0) ?calls demo_start =
      ([Created f, Replayed h], w)"
    by (simp add: answer_def)
  have "rows_ok (w_repo demo_start)" "\<forall>call\<in>set ?calls. tags_ok call"
    by (simp_all add: demo_start_def start_def rows_ok_def demo_input_def tags_fit_def)
  note same = program_over_statements [OF this]
  show ?thesis
    by (intro exI conjI, rule trans [OF same run], rule key)
qed

end
