(* ===== verification/KeyRows.thy ===== *)
theory KeyRows
  imports GcModel
begin

text \<open>
  The idempotency table row by row: \<open>idem_row\<close> is the row of a key, with its status, its file and
  \<open>created_at\<close>, by which it lives.  The lemmas say what each statement of the keys does to the rows,
  whatever the database fails to do, and that every other operation of the repository is \<open>calm\<close>:
  it leaves them as they are.
\<close>

section \<open>The rows of the idempotency table\<close>

definition idem_row :: "db \<Rightarrow> string \<rightharpoonup> idemRow" where
  "idem_row d k = find (\<lambda>r. k_Key r = k) (d_idem d)"

lemma idem_row_cong [simp]: "idem_row (pop d) = idem_row d" "idem_row (d\<lparr>d_now := t\<rparr>) = idem_row d"
  by (simp_all add: idem_row_def fun_eq_iff)

lemma idem_row_idem: "d_idem d' = d_idem d \<Longrightarrow> idem_row d' = idem_row d"
  by (simp add: idem_row_def fun_eq_iff)

lemma idem_row_None: "idem_row d k = None \<longleftrightarrow> k \<notin> set (map k_Key (d_idem d))"
  by (auto simp: idem_row_def find_None_iff)

lemma idem_row_claim:
  assumes "pg_ClaimIdempotencyKey k d = (x, d')" and "acked d"
  shows "case x of
      Inr (True, _) \<Rightarrow> idem_row d k = None \<and> idem_row d' = (idem_row d)(k \<mapsto>
        \<lparr>k_Key = k, k_FileID = None, k_Status = IdempotencyPending, k_CreatedAt = d_now d\<rparr>)
    | _ \<Rightarrow> idem_row d' = idem_row d"
proof -
  obtain y d1 where s: "send (sql_claim k) d = (y, d1)"
    by (metis surj_pair)
  show ?thesis
  proof (cases y)
    case (Inr u)
    from send_Inr [OF s [unfolded Inr]] have c: "k \<notin> set (map k_Key (d_idem d))"
      "d_idem d1 = d_idem d @
        [\<lparr>k_Key = k, k_FileID = None, k_Status = IdempotencyPending, k_CreatedAt = d_now d\<rparr>]"
      by (auto simp: sql_claim_def split: if_splits)
    have "idem_row d k = None"
      using c(1) by (simp add: idem_row_None)
    moreover from this have "idem_row d1 j = ((idem_row d)(k \<mapsto>
        \<lparr>k_Key = k, k_FileID = None, k_Status = IdempotencyPending, k_CreatedAt = d_now d\<rparr>)) j" for j
      unfolding idem_row_def c(2) find_append by (auto split: option.splits)
    ultimately show ?thesis
      using assms(1) s Inr by (auto simp: pg_ClaimIdempotencyKey_def fun_eq_iff)
  next
    case (Inl e)
    then have "d1 = pop d"
      using send_acked [OF assms(2) s] by (auto simp: sql_claim_def split: if_splits)
    moreover have "d_idem (snd (send (sql_read_idem k) d1)) = d_idem d1"
      by (simp add: send_def sql_read_idem_def Let_def split: list.splits fault.splits option.splits)
    ultimately show ?thesis
      using assms(1) s Inl
      by (auto simp: pg_ClaimIdempotencyKey_def intro!: idem_row_idem split: prod.splits sum.splits if_splits)
  qed
qed

text \<open>Statements that leave the table, or the schedule of faults, alone.\<close>

lemma send_idem: "(\<And>d. d_idem (snd (f d)) = d_idem d) \<Longrightarrow> d_idem (snd (send f d)) = d_idem d"
  by (auto simp: send_def Let_def split: list.splits fault.splits)

lemma send_faults: "(\<And>d. d_faults (snd (f d)) = d_faults d) \<Longrightarrow> d_faults (snd (send f d)) = d_faults (pop d)"
  by (auto simp: send_def pop_def Let_def split: list.splits fault.splits)

lemma insertFile_frame:
  assumes "insertFile canon f d = (x, d')"
  shows "d_idem d' = d_idem d" "d_faults d' = d_faults (pop d)"
proof -
  have "d' = snd (send (sql_insert_file canon (if f_Metadata f = None then f\<lparr>f_Metadata := Some []\<rparr> else f)) d)"
    using assms by (auto simp: insertFile_def Let_def split: prod.splits sum.splits if_splits)
  moreover have "d_idem (snd (sql_insert_file canon g d)) = d_idem d \<and>
      d_faults (snd (sql_insert_file canon g d)) = d_faults d" for g d
    by (simp add: sql_insert_file_def split: option.splits)
  ultimately show "d_idem d' = d_idem d" "d_faults d' = d_faults (pop d)"
    by (simp_all add: send_idem send_faults)
qed

lemma idem_row_sql_complete:
  assumes "sql_complete k i d = (Inr n, d')" and "n \<noteq> 0"
  shows "\<exists>r. idem_row d k = Some r \<and>
    idem_row d' = (idem_row d)(k \<mapsto> r\<lparr>k_Status := IdempotencyCompleted, k_FileID := Some i\<rparr>)"
proof -
  let ?h = "\<lambda>r. if k_Key r = k then r\<lparr>k_Status := IdempotencyCompleted, k_FileID := Some i\<rparr> else r"
  have d': "d_idem d' = map ?h (d_idem d)" and "filter (\<lambda>r. k_Key r = k) (d_idem d) \<noteq> []"
    using assms by (auto simp: sql_complete_def)
  then obtain r where r: "idem_row d k = Some r"
    by (cases "idem_row d k") (auto simp: idem_row_None filter_empty_conv)
  have "idem_row d' j = map_option ?h (idem_row d j)" for j
    unfolding idem_row_def d' by (rule find_map_key) simp
  moreover have "k_Key x = j" if "idem_row d j = Some x" for j x
    using that by (auto simp: idem_row_def dest: find_SomeD)
  ultimately have "idem_row d' j =
      ((idem_row d)(k \<mapsto> r\<lparr>k_Status := IdempotencyCompleted, k_FileID := Some i\<rparr>)) j" for j
    using r by (cases "idem_row d j") auto
  with r show ?thesis
    by blast
qed

lemma idem_row_rollback [simp]: "idem_row (rollback d0 d) = idem_row d0"
  by (simp add: idem_row_def rollback_def fun_eq_iff)

lemma idem_row_complete:
  assumes "pg_CreateForKey canon f k d = (x, d')" and "acked d"
  shows "case x of
      Inl _ \<Rightarrow> idem_row d' = idem_row d
    | Inr _ \<Rightarrow> \<exists>r. idem_row d k = Some r \<and>
        idem_row d' = (idem_row d)(k \<mapsto> r\<lparr>k_Status := IdempotencyCompleted, k_FileID := Some (f_ID f)\<rparr>)"
proof -
  obtain x0 d0 where s0: "send (sql_rows (\<lambda>_. ())) d = (x0, d0)"
    by (metis surj_pair)
  have d0: "d0 = pop d" "acked d0"
    using send_acked [OF assms(2) s0] assms(2) by (auto simp: sql_rows_def)
  obtain x1 d1 where s1: "insertFile canon f d0 = (x1, d1)"
    by (metis surj_pair)
  have "idem_row d1 = idem_row d0"
    by (rule idem_row_idem [OF insertFile_frame(1) [OF s1]])
  then have d1: "idem_row d1 = idem_row d" "acked d1"
    using acked_pop_faults [OF d0(2) insertFile_frame(2) [OF s1]] d0(1) by simp_all
  obtain x2 d2 where s2: "send (sql_complete k (f_ID f)) d1 = (x2, d2)"
    by (metis surj_pair)
  have "d_faults d2 = d_faults (pop d1)"
    using send_faults [of "sql_complete k (f_ID f)" d1] s2 by (simp add: sql_complete_def)
  then have d2: "acked d2"
    by (rule acked_pop_faults [OF d1(2)])
  show ?thesis
  proof (cases x)
    case (Inl e)
    have "d' = d0 \<or> d' = rollback d0 d1 \<or> d' = rollback d0 d2 \<or> commit d0 d2 = (Inl e, d')"
      using assms(1) s0 s1 s2 unfolding Inl pg_CreateForKey_def by (auto split: sum.splits prod.splits if_splits)
    moreover have "d' = pop (rollback d0 d2)" if "commit d0 d2 = (Inl e, d')"
      by (rule commit_error [OF d2 that])
    ultimately have "idem_row d' = idem_row d0"
      by auto
    then show ?thesis
      using Inl d0(1) by simp
  next
    case (Inr g)
    then obtain n u where n: "x2 = Inr n" "n \<noteq> 0" "commit d0 d2 = (Inr u, d')"
      using assms(1) s0 s1 s2 by (auto simp: pg_CreateForKey_def split: sum.splits prod.splits if_splits)
    have "idem_row d' = idem_row d2"
      using n(3) by (auto simp: commit_def idem_row_def fun_eq_iff dest!: send_Inr)
    then show ?thesis
      using idem_row_sql_complete [OF send_Inr [OF s2 [unfolded n(1)]] n(2)] d1(1) Inr by simp
  qed
qed

lemma idem_row_filter:
  assumes "tables_ok d"
  shows "idem_row (d\<lparr>d_idem := filter P (d_idem d)\<rparr>) k =
    (case idem_row d k of None \<Rightarrow> None | Some r \<Rightarrow> if P r then Some r else None)"
  using assms by (simp add: idem_row_def tables_ok_def find_filter_key)

lemma idem_row_release:
  assumes "pg_ReleaseIdempotencyKey k d = (x, d')" and "pg_good d"
  shows "idem_row d' j = idem_row d j \<or>
    (j = k \<and> idem_row d' j = None \<and> (\<exists>r. idem_row d j = Some r \<and> k_Status r = IdempotencyPending))"
proof -
  have good: "acked d" "tables_ok (pop d)"
    using assms(2) by (simp_all add: pg_good_def)
  have "k_Key r = j" if "idem_row d j = Some r" for r
    using that by (auto simp: idem_row_def dest: find_SomeD)
  then have "idem_row (snd (sql_release k (pop d))) j = idem_row d j \<or>
      (j = k \<and> idem_row (snd (sql_release k (pop d))) j = None \<and>
        (\<exists>r. idem_row d j = Some r \<and> k_Status r = IdempotencyPending))"
    using idem_row_filter [OF good(2)] by (auto simp: sql_release_def split: option.splits)
  moreover obtain y d1 where s: "send (sql_release k) d = (y, d1)"
    by (metis surj_pair)
  ultimately show ?thesis
    using assms(1) send_acked [OF good(1) s] by (auto simp: pg_ReleaseIdempotencyKey_def split: sum.splits)
qed

lemma idem_row_purge_keys:
  assumes "pg_PurgeIdempotencyKeys t d = (x, d')" and "pg_good d"
  shows "idem_row d' j = idem_row d j \<or>
    (idem_row d' j = None \<and> (\<exists>r. idem_row d j = Some r \<and> k_CreatedAt r < t))"
proof -
  have good: "acked d" "tables_ok (pop d)"
    using assms(2) by (simp_all add: pg_good_def)
  have "idem_row (snd (sql_purge_keys t (pop d))) j = idem_row d j \<or>
      (idem_row (snd (sql_purge_keys t (pop d))) j = None \<and> (\<exists>r. idem_row d j = Some r \<and> k_CreatedAt r < t))"
    using idem_row_filter [OF good(2)] by (auto simp: sql_purge_keys_def split: option.splits)
  moreover obtain y d1 where s: "send (sql_purge_keys t) d = (y, d1)"
    by (metis surj_pair)
  ultimately show ?thesis
    using assms(1) send_acked [OF good(1) s] by (auto simp: pg_PurgeIdempotencyKeys_def split: sum.splits)
qed

text \<open>What leaves the keys alone.\<close>

definition calm :: "db \<Rightarrow> db \<Rightarrow> bool" where
  "calm d d' \<longleftrightarrow> idem_row d' = idem_row d \<and> pg_good d'"

lemma calm_trans: "calm d d' \<Longrightarrow> calm d' d'' \<Longrightarrow> calm d d''"
  by (simp add: calm_def)

lemma calm_refl: "pg_good d \<Longrightarrow> calm d d"
  by (simp add: calm_def)

lemma calm_send:
  assumes "\<And>d. d_idem (snd (f d)) = d_idem d" and "d' = snd (send f d)" and "pg_good d'"
  shows "calm d d'"
  unfolding calm_def using idem_row_idem [of d' d] send_idem [of f d, OF assms(1)] assms(2,3) by simp

lemma sql_idem:
  "d_idem (snd (sql_get canon i d)) = d_idem d" "d_idem (snd (sql_update_live canon g i d)) = d_idem d"
  "d_idem (snd (sql_rows h d)) = d_idem d" "d_idem (snd (sql_purge canon i d)) = d_idem d"
  by (simp_all add: sql_get_def sql_update_live_def sql_rows_def sql_purge_def split: option.splits)

lemma calm_Create:
  assumes "r_Create (pg_repo canon) f d = (x, d')" and "pg_good d"
  shows "calm d d'"
proof -
  have "pg_good d'"
    using assms pg.Create_ok [of d canon f _ d'] pg.Create_error [of d canon f _ d'] by (cases x) auto
  moreover have "insertFile canon f d = (x, d')"
    using assms(1) by (simp add: pg_Create_def)
  ultimately show ?thesis
    unfolding calm_def using idem_row_idem [OF insertFile_frame(1)] by blast
qed

lemma calm_Get:
  assumes "r_Get (pg_repo canon) i d = (x, d')" and "pg_good d"
  shows "calm d d'"
proof (rule calm_send [OF sql_idem(1)])
  show "d' = snd (send (sql_get canon i) d)"
    using assms(1) by (auto simp: pg_Get_def split: sum.splits prod.splits if_splits)
  show "pg_good d'"
    using pg.Get_frame [OF assms(2,1)] by simp
qed

lemma calm_Delete:
  assumes "r_Delete (pg_repo canon) i d = (x, d')" and "pg_good d"
  shows "calm d d'"
proof (rule calm_send [OF sql_idem(2)])
  show "d' = snd (send (sql_update_live canon (\<lambda>d f. f\<lparr>f_DeletedAt := Some (d_now d)\<rparr>) i) d)"
    using assms(1) by (auto simp: pg_Delete_def split: sum.splits prod.splits if_splits)
  show "pg_good d'"
    using assms pg.Delete_ok [of d canon i d'] pg.Delete_error [of d canon i _ d'] by (cases x) auto
qed

lemma calm_Update:
  assumes "r_UpdateMetadata (pg_repo canon) i tags mrg d = (x, d')" and "pg_good d"
  shows "calm d d'"
proof (rule calm_send [OF sql_idem(2)])
  show "d' = snd (send (sql_update_live canon (\<lambda>d f. f\<lparr>f_Metadata := Some (edited_tags f tags mrg),
      f_UpdatedAt := Some (d_now d)\<rparr>) i) d)"
    using assms(1) by (auto simp: pg_UpdateMetadata_def Let_def split: sum.splits prod.splits list.splits)
  show "pg_good d'"
    using assms pg.Update_ok [of d canon i tags mrg _ d'] pg.Update_error [of d canon i tags mrg _ d']
    by (cases x) auto
qed

lemma calm_ListDeleted:
  assumes "r_ListDeleted (pg_repo canon) n d = (x, d')" and "pg_good d"
  shows "calm d d'"
proof (rule calm_send [OF sql_idem(3)])
  show "d' = snd (send (sql_rows (sql_list_deleted (if n <=s 0 then 500 else n))) d)"
    using assms(1) by (auto simp: pg_ListDeleted_def Let_def split: sum.splits prod.splits)
  show "pg_good d'"
    using pg_gc.ListDeleted_frame [OF assms(2,1)] by simp
qed

lemma calm_Purge:
  assumes "r_Purge (pg_repo canon) i d = (x, d')" and "pg_good d"
  shows "calm d d'"
proof (rule calm_send [OF sql_idem(4)])
  show "d' = snd (send (sql_purge canon i) d)"
    using assms(1) by (auto simp: pg_Purge_def split: sum.splits prod.splits)
  show "pg_good d'"
    using pg_gc.Purge_frame [OF assms(2,1)] by simp
qed

end
