(* ===== verification/KeyRaces.thy ===== *)
theory KeyRaces
  imports KeyRows
begin

text \<open>
  Uploads that race under idempotency keys, over any object store and the SQL tables.  The calls
  of \<open>UploadIdempotent\<close> are cut at their statements: claiming the key, staging the object,
  committing the row with the key, and releasing the key after a failure; between them anything
  else may happen, such as the expiry of keys by the collector (\<open>race_step\<close>; \<open>upload_is_run\<close> is the
  call that nothing interrupts).  \<open>holders\<close> are the calls that have claimed a key and not ended;
  \<open>stored\<close> records what they have committed, with the time of the claim.  The invariant
  \<open>race_inv\<close> ties both to the rows of the keys, and every step keeps it.  The process and the
  database read the same clock.
\<close>

section \<open>The system\<close>

record holder =
  h_Key :: string
  h_Since :: int
  h_Staged :: "File option"

record 's race =
  a_world :: "('s, db) world"
  a_now :: int
  a_holders :: "holder list"
  a_stored :: "(string \<times> int \<times> string) list"

text \<open>The world with the database's clock at the present time.\<close>

definition at_now :: "'s race \<Rightarrow> ('s, db) world" where
  "at_now y = (a_world y)\<lparr>w_repo := (w_repo (a_world y))\<lparr>d_now := a_now y\<rparr>\<rparr>"

inductive race_step ::
  "libs \<Rightarrow> ('s, db, 'c) service \<Rightarrow> ('s, db) collector \<Rightarrow> int \<Rightarrow> 's race \<Rightarrow> 's race \<Rightarrow> bool"
  for L :: libs and sv :: "('s, db, 'c) service" and c :: "('s, db) collector" and D :: int where
  race_claimed: "on_repo (r_ClaimIdempotencyKey (sv_repo sv) k) (at_now y) = (Inr (True, p), w') \<Longrightarrow>
    race_step L sv c D y (y\<lparr>a_world := w',
      a_holders := \<lparr>h_Key = k, h_Since = a_now y, h_Staged = None\<rparr> # a_holders y\<rparr>)"
| race_taken: "on_repo (r_ClaimIdempotencyKey (sv_repo sv) k) (at_now y) = (Inr (False, existing), w') \<Longrightarrow>
    replay sv existing w' = (z, w'') \<Longrightarrow> race_step L sv c D y (y\<lparr>a_world := w''\<rparr>)"
| race_claim_failed: "on_repo (r_ClaimIdempotencyKey (sv_repo sv) k) (at_now y) = (Inl e, w') \<Longrightarrow>
    race_step L sv c D y (y\<lparr>a_world := w'\<rparr>)"
| race_staged: "a_holders y = xs @ h # ys \<Longrightarrow> h_Staged h = None \<Longrightarrow>
    stage L sv inp (at_now y) = (Inr f, b, w') \<Longrightarrow>
    race_step L sv c D y (y\<lparr>a_world := w', a_holders := xs @ h\<lparr>h_Staged := Some f\<rparr> # ys\<rparr>)"
| race_stage_failed: "a_holders y = xs @ h # ys \<Longrightarrow> h_Staged h = None \<Longrightarrow> a_now y - h_Since h \<le> D \<Longrightarrow>
    stage L sv inp (at_now y) = (Inl e, b, w') \<Longrightarrow>
    race_step L sv c D y (y\<lparr>a_world := release sv (h_Key h) w', a_holders := xs @ ys\<rparr>)"
| race_committed: "a_holders y = xs @ h # ys \<Longrightarrow> h_Staged h = Some f \<Longrightarrow> a_now y - h_Since h \<le> D \<Longrightarrow>
    on_repo (r_CreateForKey (sv_repo sv) f (h_Key h)) (at_now y) = (Inr g, w') \<Longrightarrow>
    race_step L sv c D y (y\<lparr>a_world := w', a_holders := xs @ ys,
      a_stored := (h_Key h, h_Since h, f_ID g) # a_stored y\<rparr>)"
| race_commit_failed: "a_holders y = xs @ h # ys \<Longrightarrow> h_Staged h = Some f \<Longrightarrow> a_now y - h_Since h \<le> D \<Longrightarrow>
    on_repo (r_CreateForKey (sv_repo sv) f (h_Key h)) (at_now y) = (Inl e, w') \<Longrightarrow>
    race_step L sv c D y
      (y\<lparr>a_world := release sv (h_Key h) (drop_object sv (f_StorageKey f) w'), a_holders := xs @ ys\<rparr>)"
| race_vanished: "a_holders y = xs @ h # ys \<Longrightarrow> race_step L sv c D y (y\<lparr>a_holders := xs @ ys\<rparr>)"
| race_upload: "Service_Upload L sv inp (at_now y) = (x1, b, w') \<Longrightarrow>
    race_step L sv c D y (y\<lparr>a_world := w'\<rparr>)"
| race_edit: "Service_UpdateMetadata L sv i tags mrg (at_now y) = (x2, w') \<Longrightarrow>
    race_step L sv c D y (y\<lparr>a_world := w'\<rparr>)"
| race_delete: "Service_Delete L sv i (at_now y) = (x3, w') \<Longrightarrow> race_step L sv c D y (y\<lparr>a_world := w'\<rparr>)"
| race_purge: "purgeDeleted c ctx st (at_now y) = (x4, n, st', w') \<Longrightarrow>
    race_step L sv c D y (y\<lparr>a_world := w'\<rparr>)"
| race_expire: "expireIdempotencyKeys c (a_now y) st (at_now y) = (x5, st', w') \<Longrightarrow>
    race_step L sv c D y (y\<lparr>a_world := w'\<rparr>)"
| race_clock: "a_now y \<le> t \<Longrightarrow> race_step L sv c D y (y\<lparr>a_now := t\<rparr>)"

definition race_start :: "('s, db) world \<Rightarrow> int \<Rightarrow> 's race" where
  "race_start w now = \<lparr>a_world = w, a_now = now, a_holders = [], a_stored = []\<rparr>"

section \<open>The invariant\<close>

text \<open>
  Over the claims \<open>ps\<close> of the calls that have not ended and what has been stored, \<open>ss\<close>: a claim no
  older than \<open>D\<close> owns the row of its key, alone; a file stored under a claim no older than the time to
  live still has its row; and claims under one key that came to store a file are further apart.
\<close>

definition completed_row :: "db \<Rightarrow> string \<Rightarrow> int \<Rightarrow> bool" where
  "completed_row d k t \<longleftrightarrow> (\<exists>r. idem_row d k = Some r \<and> k_Status r = IdempotencyCompleted \<and> k_CreatedAt r = t)"

definition pending_row :: "db \<Rightarrow> string \<Rightarrow> int \<Rightarrow> bool" where
  "pending_row d k t \<longleftrightarrow> (\<exists>r. idem_row d k = Some r \<and> k_Status r = IdempotencyPending \<and> k_CreatedAt r = t)"

definition race_inv ::
  "int \<Rightarrow> int \<Rightarrow> int \<Rightarrow> db \<Rightarrow> (string \<times> int) list \<Rightarrow> (string \<times> int \<times> string) list \<Rightarrow> bool" where
  "race_inv ttl D now d ps ss \<longleftrightarrow>
     pg_good d \<and> distinct (map fst (filter (\<lambda>(k, t). now - t \<le> D) ps)) \<and>
     (\<forall>k t. (k, t) \<in> set ps \<longrightarrow> t \<le> now \<and> (now - t \<le> D \<longrightarrow>
       pending_row d k t \<and> (\<forall>t' i. (k, t', i) \<in> set ss \<longrightarrow> t' + ttl < t))) \<and>
     (\<forall>k t i. (k, t, i) \<in> set ss \<longrightarrow> t \<le> now \<and> (now - t \<le> ttl \<longrightarrow> completed_row d k t)) \<and>
     sorted_wrt (\<lambda>(k, t, i) (k', t', i'). k = k' \<longrightarrow> t' + ttl < t) ss"

lemma race_invD:
  assumes "race_inv ttl D now d ps ss"
  shows "pg_good d" "distinct (map fst (filter (\<lambda>(k, t). now - t \<le> D) ps))"
    "(k, t) \<in> set ps \<Longrightarrow> t \<le> now" "(k, t) \<in> set ps \<Longrightarrow> now - t \<le> D \<Longrightarrow> pending_row d k t"
    "(k, t) \<in> set ps \<Longrightarrow> now - t \<le> D \<Longrightarrow> (k, t', i) \<in> set ss \<Longrightarrow> t' + ttl < t"
    "(k, t, i) \<in> set ss \<Longrightarrow> t \<le> now" "(k, t, i) \<in> set ss \<Longrightarrow> now - t \<le> ttl \<Longrightarrow> completed_row d k t"
    "sorted_wrt (\<lambda>(k, t, i) (k', t', i'). k = k' \<longrightarrow> t' + ttl < t) ss"
  using assms unfolding race_inv_def by blast+

lemma inv_rows:
  assumes inv: "race_inv ttl D now d ps ss" and "pg_good d'" and "set ps' \<subseteq> set ps"
    and "distinct (map fst (filter (\<lambda>(k, t). now - t \<le> D) ps'))"
    and "\<And>k t. (k, t) \<in> set ps' \<Longrightarrow> now - t \<le> D \<Longrightarrow> pending_row d k t \<Longrightarrow> pending_row d' k t"
    and "\<And>k t. completed_row d k t \<Longrightarrow> now - t \<le> ttl \<Longrightarrow> completed_row d' k t"
  shows "race_inv ttl D now d' ps' ss"
  using assms unfolding race_inv_def by (meson subsetD)

lemma inv_calm: "race_inv ttl D now d ps ss \<Longrightarrow> calm d d' \<Longrightarrow> race_inv ttl D now d' ps ss"
  by (simp add: race_inv_def calm_def pending_row_def completed_row_def)

lemma inv_claim:
  assumes inv: "race_inv ttl D now d ps ss" and "pg_good d'" and none: "idem_row d k = None"
    and d': "idem_row d' = (idem_row d)(k \<mapsto>
      \<lparr>k_Key = k, k_FileID = None, k_Status = IdempotencyPending, k_CreatedAt = now\<rparr>)"
  shows "race_inv ttl D now d' ((k, now) # ps) ss"
proof -
  have p: "pending_row d' k now" "pending_row d j t \<Longrightarrow> pending_row d' j t"
    "completed_row d j t \<Longrightarrow> completed_row d' j t" for j t
    using none by (auto simp: pending_row_def completed_row_def d')
  have "\<not> pending_row d k t" "\<not> completed_row d k t" for t
    using none by (simp_all add: pending_row_def completed_row_def)
  then have "k \<notin> fst ` set (filter (\<lambda>(k, t). now - t \<le> D) ps)" "\<forall>t i. (k, t, i) \<in> set ss \<longrightarrow> t + ttl < now"
    using inv by (fastforce simp: race_inv_def)+
  then show ?thesis
    using inv assms(2) p by (auto simp: race_inv_def)
qed

lemma inv_commit:
  assumes inv: "race_inv ttl D now d (xs @ (k, t) # ys) ss" and fresh: "now - t \<le> D" and "pg_good d'"
    and r: "idem_row d k = Some r"
      "idem_row d' = (idem_row d)(k \<mapsto> r\<lparr>k_Status := IdempotencyCompleted, k_FileID := Some j\<rparr>)"
  shows "race_inv ttl D now d' (xs @ ys) ((k, t, i) # ss)"
proof -
  note o = race_invD [OF inv]
  have own: "pending_row d k t" "t \<le> now" "\<And>t' i. (k, t', i) \<in> set ss \<Longrightarrow> t' + ttl < t"
    using o(3,4,5) [of k t] fresh by simp_all
  have other: "a \<noteq> k" if "(a, u) \<in> set (xs @ ys)" "now - u \<le> D" for a u
    using o(2) that fresh by (auto simp: image_iff)
  have "completed_row d' k t"
    using own(1) r by (simp add: pending_row_def completed_row_def)
  moreover have "pending_row d a u \<Longrightarrow> a \<noteq> k \<Longrightarrow> pending_row d' a u"
    "completed_row d a u \<Longrightarrow> a \<noteq> k \<Longrightarrow> completed_row d' a u" for a u
    by (auto simp: pending_row_def completed_row_def r(2))
  moreover have "\<not> now - u \<le> ttl" if "(k, u, i) \<in> set ss" for u i
    using own(2) own(3) [OF that] by simp
  ultimately have "\<And>a u. (a, u) \<in> set (xs @ ys) \<Longrightarrow> now - u \<le> D \<Longrightarrow> pending_row d' a u"
    "\<And>a u v. (a, u, v) \<in> set ((k, t, i) # ss) \<Longrightarrow> now - u \<le> ttl \<Longrightarrow> completed_row d' a u"
    using o(4,7) other by (auto, metis)
  moreover have "distinct (map fst (filter (\<lambda>(k, t). now - t \<le> D) (xs @ ys)))"
    using o(2) fresh by auto
  moreover have "(a, u) \<in> set (xs @ ys) \<Longrightarrow> now - u \<le> D \<Longrightarrow> (a, v, w) \<in> set ((k, t, i) # ss) \<Longrightarrow> v + ttl < u"
    for a u v w
    using other o(5) [of a u v w] by auto
  moreover have "sorted_wrt (\<lambda>(k, t, i) (k', t', i'). k = k' \<longrightarrow> t' + ttl < t) ((k, t, i) # ss)"
    using o(8) own(3) by auto
  moreover have "(a, u, v) \<in> set ((k, t, i) # ss) \<Longrightarrow> u \<le> now" "(a, u) \<in> set (xs @ ys) \<Longrightarrow> u \<le> now" for a u v
    using o(3) [of a u] o(6) own(2) by auto
  ultimately show ?thesis
    using assms(3) unfolding race_inv_def by blast
qed

lemma inv_clock:
  assumes "race_inv ttl D now d ps ss" and "now \<le> now'"
  shows "race_inv ttl D now' d ps ss"
proof -
  have "filter (\<lambda>(k, t). now' - t \<le> D) ps = filter (\<lambda>(k, t). now' - t \<le> D) (filter (\<lambda>(k, t). now - t \<le> D) ps)"
    using assms(2) by (auto intro!: filter_cong)
  then have "distinct (map fst (filter (\<lambda>(k, t). now' - t \<le> D) ps))"
    using assms(1) distinct_map_filter unfolding race_inv_def by metis
  then show ?thesis
    using assms unfolding race_inv_def by (smt (verit))
qed

text \<open>A claim that is given up takes its key along, or leaves it.\<close>

lemma inv_drop:
  assumes "race_inv ttl D now d (xs @ p # ys) ss"
  shows "race_inv ttl D now d (xs @ ys) ss"
proof (rule inv_rows [OF assms race_invD(1) [OF assms]])
  show "distinct (map fst (filter (\<lambda>(k, t). now - t \<le> D) (xs @ ys)))"
    using race_invD(2) [OF assms] by (auto split: if_splits)
qed auto

lemma inv_release:
  assumes inv: "race_inv ttl D now d (xs @ (k, t) # ys) ss" and fresh: "now - t \<le> D"
    and r: "r_ReleaseIdempotencyKey (pg_repo canon) k d = (x, d')"
  shows "race_inv ttl D now d' (xs @ ys) ss"
proof -
  note o = race_invD [OF inv]
  have row: "idem_row d' j = idem_row d j \<or>
      (j = k \<and> idem_row d' j = None \<and> (\<exists>r. idem_row d j = Some r \<and> k_Status r = IdempotencyPending))" for j
    using idem_row_release [OF _ o(1)] r by simp
  show ?thesis
  proof (rule inv_rows [OF inv_drop [OF inv]])
    show "pg_good d'"
      using pg_Release_cases [of k d x d'] r o(1) by simp
    show "distinct (map fst (filter (\<lambda>(k, t). now - t \<le> D) (xs @ ys)))"
      using o(2) fresh by auto
    fix a u assume "(a, u) \<in> set (xs @ ys)" "now - u \<le> D" "pending_row d a u"
    moreover from this have "a \<noteq> k"
      using o(2) fresh by (auto simp: image_iff)
    ultimately show "pending_row d' a u"
      using row [of a] by (simp add: pending_row_def)
  next
    fix a u assume "completed_row d a u"
    then show "completed_row d' a u"
      using row [of a] by (auto simp: completed_row_def)
  qed simp
qed

lemma inv_expire:
  assumes inv: "race_inv ttl D now d ps ss" and D: "D \<le> ttl"
    and p: "r_PurgeIdempotencyKeys (pg_repo canon) (now - ttl) d = (x, d')"
  shows "race_inv ttl D now d' ps ss"
proof -
  note o = race_invD [OF inv]
  have row: "idem_row d' j = idem_row d j \<or>
      (idem_row d' j = None \<and> (\<exists>r. idem_row d j = Some r \<and> k_CreatedAt r < now - ttl))" for j
    using idem_row_purge_keys [OF _ o(1)] p by simp
  show ?thesis
  proof (rule inv_rows [OF inv _ subset_refl o(2)])
    show "pg_good d'"
      using pg_PurgeKeys_cases [of "now - ttl" d x d'] p o(1) by simp
    show "now - u \<le> D \<Longrightarrow> pending_row d a u \<Longrightarrow> pending_row d' a u" for a u
      using row [of a] D by (auto simp: pending_row_def)
    show "completed_row d a u \<Longrightarrow> now - u \<le> ttl \<Longrightarrow> completed_row d' a u" for a u
      using row [of a] by (auto simp: completed_row_def)
  qed
qed

section \<open>Every step keeps it\<close>

lemma on_repo_db: "on_repo f w = (x, w') \<Longrightarrow> f (w_repo w) = (x, w_repo w')"
  by (auto simp: on_repo_def split: prod.splits)

lemma on_store_repo: "w_repo (snd (on_store f w)) = w_repo w"
  by (simp add: on_store_def split: prod.splits)

lemma drop_object_repo: "w_repo (drop_object sv k w) = w_repo w"
  by (simp add: drop_object_def on_store_repo)

lemma release_db:
  obtains x where "r_ReleaseIdempotencyKey (sv_repo sv) k (w_repo w) = (x, w_repo (release sv k w))"
  by (metis on_repo_db prod.collapse release_def)

definition claims_of :: "'s race \<Rightarrow> (string \<times> int) list" where
  "claims_of y = map (\<lambda>h. (h_Key h, h_Since h)) (a_holders y)"

definition race_ok :: "int \<Rightarrow> int \<Rightarrow> 's race \<Rightarrow> bool" where
  "race_ok ttl D y \<longleftrightarrow> race_inv ttl D (a_now y) (w_repo (at_now y)) (claims_of y) (a_stored y)"

lemma at_now_sel [simp]:
  "idem_row (w_repo (at_now y)) = idem_row (w_repo (a_world y))" "d_now (w_repo (at_now y)) = a_now y"
  "pg_good (w_repo (at_now y)) = pg_good (w_repo (a_world y))"
  by (simp_all add: at_now_def pg_good_def tables_ok_def acked_def)

lemma inv_now: "race_inv ttl D now (d\<lparr>d_now := t\<rparr>) ps ss = race_inv ttl D now d ps ss"
  by (simp add: race_inv_def pending_row_def completed_row_def pg_good_def tables_ok_def acked_def)

lemma race_ok_world: "race_ok ttl D y \<longleftrightarrow> race_inv ttl D (a_now y) (w_repo (a_world y)) (claims_of y) (a_stored y)"
  by (simp add: race_ok_def at_now_def inv_now)

lemma calm_ok:
  assumes "race_ok ttl D y" and "calm (w_repo (at_now y)) (w_repo w')"
  shows "race_ok ttl D (y\<lparr>a_world := w'\<rparr>)"
  using inv_calm [OF assms(1) [unfolded race_ok_def] assms(2)] by (simp add: race_ok_world claims_of_def)

text \<open>The calls and the purge of deleted files, over the SQL tables.\<close>

abbreviation pg_service :: "('s, uploadReader, 'c) backend \<Rightarrow> (string \<Rightarrow> string option) \<Rightarrow> ('s, db, 'c) service" where
  "pg_service B canon \<equiv> files_New B (pg_repo canon)"

lemma pg_service_repo [simp]: "sv_repo (pg_service B canon) = pg_repo canon"
  by (simp add: files_New_def)

lemma upload_calm:
  assumes "Service_Upload L (pg_service B canon) inp w = (x, b, w')" and "pg_good (w_repo w)"
  shows "calm (w_repo w) (w_repo w')"
proof -
  obtain y b1 w1 where st: "stage L (pg_service B canon) inp w = (y, b1, w1)"
    by (metis prod_cases3)
  have same: "w_repo w1 = w_repo w"
    by (rule stage_repo [OF st])
  show ?thesis
  proof (cases y)
    case (Inl e)
    then show ?thesis
      using assms st same by (simp add: Service_Upload_def calm_refl)
  next
    case (Inr f)
    obtain z w2 where c: "on_repo (r_Create (pg_repo canon) f) w1 = (z, w2)"
      by (metis surj_pair)
    have "calm (w_repo w) (w_repo w2)"
      using calm_Create [OF on_repo_db [OF c]] same assms(2) by simp
    then show ?thesis
      using assms(1) st c Inr by (auto simp: Service_Upload_def drop_object_repo split: sum.splits)
  qed
qed

lemma edit_calm:
  assumes "Service_UpdateMetadata L (pg_service B canon) i tags mrg w = (x, w')" and "pg_good (w_repo w)"
  shows "calm (w_repo w) (w_repo w')"
proof (cases "validID L i")
  case True
  then obtain y where y: "on_repo (r_UpdateMetadata (pg_repo canon) i tags mrg) w = (y, w')"
    using assms(1) by (auto simp: Service_UpdateMetadata_def split: sum.splits prod.splits)
  show ?thesis
    by (rule calm_Update [OF on_repo_db [OF y] assms(2)])
qed (use assms in \<open>simp add: Service_UpdateMetadata_def calm_refl\<close>)

lemma delete_calm:
  assumes "Service_Delete L (pg_service B canon) i w = (x, w')" and "pg_good (w_repo w)"
  shows "calm (w_repo w) (w_repo w')"
proof (cases "validID L i")
  case True
  then obtain y where y: "on_repo (r_Delete (pg_repo canon) i) w = (y, w')"
    using assms(1) by (auto simp: Service_Delete_def split: sum.splits prod.splits)
  show ?thesis
    by (rule calm_Delete [OF on_repo_db [OF y] assms(2)])
qed (use assms in \<open>simp add: Service_Delete_def calm_refl\<close>)

lemma replay_calm:
  assumes "replay (pg_service B canon) ex w = (x, w')" and "pg_good (w_repo w)"
  shows "calm (w_repo w) (w_repo w')"
proof -
  consider "w' = w" | i y where "on_repo (r_Get (pg_repo canon) i) w = (y, w')"
    using assms(1) by (auto simp: replay_def split: option.splits prod.splits sum.splits if_splits bool.splits)
  then show ?thesis
  proof cases
    case 1
    then show ?thesis
      using assms(2) by (simp add: calm_refl)
  next
    case 2
    show ?thesis
      by (rule calm_Get [OF on_repo_db [OF 2] assms(2)])
  qed
qed

lemma purge_loop_calm:
  "purge_loop (gc_New B (pg_repo canon) iv gr ttl) ctx i fs st w = (e, n, st', w') \<Longrightarrow> pg_good (w_repo w) \<Longrightarrow>
    calm (w_repo w) (w_repo w')"
proof (induction fs arbitrary: i st w)
  case (Cons f fs)
  let ?c = "gc_New B (pg_repo canon) iv gr ttl"
  obtain x w1 where d: "on_store (b_Delete B (f_StorageKey f)) w = (x, w1)"
    by (metis surj_pair)
  have w1: "w_repo w1 = w_repo w"
    using on_store_repo [of "b_Delete B (f_StorageKey f)" w] d by simp
  obtain y w2 where p: "on_repo (r_Purge (pg_repo canon) (f_ID f)) w1 = (y, w2)"
    by (metis surj_pair)
  have w2: "calm (w_repo w) (w_repo w2)"
    using calm_Purge [OF on_repo_db [OF p]] Cons.prems(2) w1 by simp
  consider "w' = w" | i st where "purge_loop ?c ctx i fs st w1 = (e, n, st', w')"
    | i st where "purge_loop ?c ctx i fs st w2 = (e, n, st', w')"
    using Cons.prems(1) d p by (auto simp: gc_New_def split: option.splits sum.splits)
  then show ?case
  proof cases
    case 1
    then show ?thesis
      using Cons.prems(2) by (simp add: calm_refl)
  next
    case (2 i st)
    then show ?thesis
      using Cons.IH [OF 2] Cons.prems(2) w1 by simp
  next
    case (3 i st)
    have "pg_good (w_repo w2)"
      using w2 by (simp add: calm_def)
    then show ?thesis
      using calm_trans [OF w2 Cons.IH [OF 3]] by simp
  qed
qed (simp add: calm_refl)

lemma purge_calm:
  assumes "purgeDeleted (gc_New B (pg_repo canon) iv gr ttl) ctx st w = (e, n, st', w')" and "pg_good (w_repo w)"
  shows "calm (w_repo w) (w_repo w')"
proof -
  let ?c = "gc_New B (pg_repo canon) iv gr ttl"
  obtain x w1 where l: "on_repo (r_ListDeleted (pg_repo canon) defaultBatch) w = (x, w1)"
    by (metis surj_pair)
  have w1: "calm (w_repo w) (w_repo w1)"
    by (rule calm_ListDeleted [OF on_repo_db [OF l] assms(2)])
  then have "pg_good (w_repo w1)"
    by (simp add: calm_def)
  then have "purge_loop ?c ctx i fs st w1 = (e, n, st', w') \<Longrightarrow> calm (w_repo w1) (w_repo w')" for i fs
    using purge_loop_calm by blast
  then show ?thesis
    using assms(1) l w1 calm_trans [OF w1] by (auto simp: purgeDeleted_def gc_New_def split: sum.splits)
qed

text \<open>The steps, one at a time.\<close>

lemma claims_of_upd [simp]:
  "claims_of (y\<lparr>a_world := w\<rparr>) = claims_of y" "claims_of (y\<lparr>a_now := t\<rparr>) = claims_of y"
  "claims_of (y\<lparr>a_stored := ss\<rparr>) = claims_of y"
  "claims_of (y\<lparr>a_holders := hs\<rparr>) = map (\<lambda>h. (h_Key h, h_Since h)) hs"
  by (simp_all add: claims_of_def)

lemma holder_ok:
  "race_ok ttl D y \<Longrightarrow> a_holders y = xs @ h # ys \<Longrightarrow> race_inv ttl D (a_now y) (w_repo (at_now y))
    (map (\<lambda>h. (h_Key h, h_Since h)) xs @ (h_Key h, h_Since h) # map (\<lambda>h. (h_Key h, h_Since h)) ys) (a_stored y)"
  by (simp add: race_ok_def claims_of_def)

lemma claimed_ok:
  assumes "race_ok ttl D y" and "on_repo (r_ClaimIdempotencyKey (pg_repo canon) k) (at_now y) = (Inr (True, p), w')"
  shows "race_ok ttl D (y\<lparr>a_world := w',
    a_holders := \<lparr>h_Key = k, h_Since = a_now y, h_Staged = None\<rparr> # a_holders y\<rparr>)"
proof -
  have c: "pg_ClaimIdempotencyKey k (w_repo (at_now y)) = (Inr (True, p), w_repo w')"
    using on_repo_db [OF assms(2)] by simp
  have inv: "race_inv ttl D (a_now y) (w_repo (at_now y)) (claims_of y) (a_stored y)"
    using assms(1) by (simp add: race_ok_def)
  have "acked (w_repo (at_now y))" "pg_good (w_repo w')"
    using race_invD(1) [OF inv] pg_Claim_cases [OF c race_invD(1) [OF inv]] by (simp_all only: pg_good_def)
  then show ?thesis
    using inv_claim [OF inv] idem_row_claim [OF c] by (simp add: race_ok_world claims_of_def)
qed

lemma claim_calm:
  assumes "on_repo (r_ClaimIdempotencyKey (pg_repo canon) k) w = (x, w')" and "pg_good (w_repo w)"
    and "\<forall>p. x \<noteq> Inr (True, p)"
  shows "calm (w_repo w) (w_repo w')"
proof -
  have c: "pg_ClaimIdempotencyKey k (w_repo w) = (x, w_repo w')"
    using on_repo_db [OF assms(1)] by simp
  have "acked (w_repo w)" "pg_good (w_repo w')"
    using assms(2) pg_Claim_cases [OF c assms(2)] by (simp_all only: pg_good_def)
  then show ?thesis
    using idem_row_claim [OF c] assms(3) by (auto simp: calm_def split: sum.splits bool.splits)
qed

lemma given_up_ok:
  assumes "race_ok ttl D y" and "a_holders y = xs @ h # ys" and "a_now y - h_Since h \<le> D"
    and "stage L (pg_service B canon) inp (at_now y) = (Inl e, b, w')"
  shows "race_ok ttl D (y\<lparr>a_world := release (pg_service B canon) (h_Key h) w', a_holders := xs @ ys\<rparr>)"
proof -
  obtain x where "r_ReleaseIdempotencyKey (pg_repo canon) (h_Key h) (w_repo (at_now y)) =
      (x, w_repo (release (pg_service B canon) (h_Key h) w'))"
    using release_db [of "pg_service B canon" "h_Key h" w'] stage_repo [OF assms(4)] by auto
  from inv_release [OF holder_ok [OF assms(1,2)] assms(3) this] show ?thesis
    by (simp add: race_ok_world claims_of_def)
qed

lemma listed_ok:
  assumes "race_ok ttl D y" and "a_holders y = xs @ h # ys" and "a_now y - h_Since h \<le> D"
    and "on_repo (r_CreateForKey (pg_repo canon) f (h_Key h)) (at_now y) = (Inr g, w')"
  shows "race_ok ttl D (y\<lparr>a_world := w', a_holders := xs @ ys,
    a_stored := (h_Key h, h_Since h, f_ID g) # a_stored y\<rparr>)"
proof -
  note inv = holder_ok [OF assms(1,2)]
  have c: "pg_CreateForKey canon f (h_Key h) (w_repo (at_now y)) = (Inr g, w_repo w')"
    using on_repo_db [OF assms(4)] by simp
  have good: "acked (w_repo (at_now y))" "tables_ok (w_repo (at_now y))"
    using race_invD(1) [OF inv] by (simp_all only: pg_good_def)
  have "pg_good (w_repo w')"
    using pg_CreateForKey_ok [OF c good(2)] good(1) by (simp add: pg_good_def)
  moreover obtain r where "idem_row (w_repo (at_now y)) (h_Key h) = Some r"
    "idem_row (w_repo w') = (idem_row (w_repo (at_now y)))(h_Key h \<mapsto>
      r\<lparr>k_Status := IdempotencyCompleted, k_FileID := Some (f_ID f)\<rparr>)"
    using idem_row_complete [OF c good(1)] by auto
  ultimately show ?thesis
    using inv_commit [OF inv assms(3)] by (simp add: race_ok_world claims_of_def)
qed

lemma unlisted_ok:
  assumes "race_ok ttl D y" and "a_holders y = xs @ h # ys" and "a_now y - h_Since h \<le> D"
    and "on_repo (r_CreateForKey (pg_repo canon) f (h_Key h)) (at_now y) = (Inl e, w')"
  shows "race_ok ttl D (y\<lparr>a_world := release (pg_service B canon) (h_Key h)
    (drop_object (pg_service B canon) (f_StorageKey f) w'), a_holders := xs @ ys\<rparr>)"
proof -
  note inv = holder_ok [OF assms(1,2)]
  let ?w = "drop_object (pg_service B canon) (f_StorageKey f) w'"
  have c: "pg_CreateForKey canon f (h_Key h) (w_repo (at_now y)) = (Inl e, w_repo w')"
    using on_repo_db [OF assms(4)] by simp
  have "acked (w_repo (at_now y))" "pg_good (w_repo w')"
    using race_invD(1) [OF inv] pg_CreateForKey_error [OF c race_invD(1) [OF inv]] by (simp_all only: pg_good_def)
  then have "calm (w_repo (at_now y)) (w_repo w')"
    using idem_row_complete [OF c] by (simp add: calm_def)
  note inv' = inv_calm [OF inv this]
  obtain x where "r_ReleaseIdempotencyKey (pg_repo canon) (h_Key h) (w_repo w') =
      (x, w_repo (release (pg_service B canon) (h_Key h) ?w))"
    using release_db [of "pg_service B canon" "h_Key h" ?w] by (auto simp: drop_object_repo)
  from inv_release [OF inv' assms(3) this] show ?thesis
    by (simp add: race_ok_world claims_of_def)
qed

lemma expire_ok:
  assumes "race_ok (sint ttl) D y" and "D \<le> sint ttl"
    and "expireIdempotencyKeys (gc_New B (pg_repo canon) iv gr ttl) (a_now y) st (at_now y) = (x, st', w')"
  shows "race_ok (sint ttl) D (y\<lparr>a_world := w'\<rparr>)"
proof (cases "ttl <=s 0")
  case True
  then have "w' = at_now y"
    using assms(3) by (simp add: expireIdempotencyKeys_def gc_New_def)
  then show ?thesis
    using assms(1) by (simp add: race_ok_world at_now_def inv_now)
next
  case False
  then have "time_before (a_now y) ttl = a_now y - sint ttl"
    using sint64_neg [of ttl] by (simp add: time_before_def word_sle_eq)
  then obtain z where "on_repo (r_PurgeIdempotencyKeys (pg_repo canon) (a_now y - sint ttl)) (at_now y) = (z, w')"
    using assms(3) False by (auto simp: expireIdempotencyKeys_def gc_New_def split: sum.splits prod.splits)
  from inv_expire [OF assms(1) [unfolded race_ok_def] assms(2) on_repo_db [OF this]] show ?thesis
    by (simp add: race_ok_world)
qed

lemma race_step_ok:
  assumes "race_step L (pg_service B canon) (gc_New B' (pg_repo canon) iv gr ttl) D y y'"
    and "race_ok (sint ttl) D y" and "D \<le> sint ttl"
  shows "race_ok (sint ttl) D y'"
proof -
  have good: "pg_good (w_repo (at_now y))"
    using race_invD(1) assms(2) unfolding race_ok_def by blast
  note quiet = calm_ok [OF assms(2)]
  show ?thesis
    using assms(1)
  proof cases
    case (race_claimed k p w')
    then show ?thesis
      using claimed_ok [OF assms(2)] by simp
  next
    case (race_taken k existing w' z w'')
    have "calm (w_repo (at_now y)) (w_repo w')"
      using claim_calm [OF race_taken(2) [unfolded pg_service_repo] good] by simp
    moreover from this have "calm (w_repo w') (w_repo w'')"
      using replay_calm [OF race_taken(3)] by (simp add: calm_def)
    ultimately show ?thesis
      using quiet calm_trans race_taken(1) by blast
  next
    case (race_claim_failed k e w')
    have "calm (w_repo (at_now y)) (w_repo w')"
      using claim_calm [OF race_claim_failed(2) [unfolded pg_service_repo] good] by simp
    then show ?thesis
      using quiet race_claim_failed(1) by blast
  next
    case (race_staged xs h ys inp f b w')
    then show ?thesis
      using holder_ok [OF assms(2) race_staged(2)] stage_repo [OF race_staged(4)]
      by (simp add: race_ok_world claims_of_def)
  next
    case (race_stage_failed xs h ys inp e b w')
    then show ?thesis
      using given_up_ok [OF assms(2) race_stage_failed(2,4,5)] by simp
  next
    case (race_committed xs h ys f g w')
    then show ?thesis
      using listed_ok [OF assms(2) race_committed(2,4)] by simp
  next
    case (race_commit_failed xs h ys f e w')
    then show ?thesis
      using unlisted_ok [OF assms(2) race_commit_failed(2,4)] by simp
  next
    case (race_vanished xs h ys)
    then show ?thesis
      using inv_drop [OF holder_ok [OF assms(2) race_vanished(2)]] by (simp add: race_ok_def claims_of_def at_now_def)
  next
    case (race_upload inp x1 b w')
    then show ?thesis
      using quiet upload_calm [OF race_upload(2) good] by blast
  next
    case (race_edit i tags mrg x2 w')
    then show ?thesis
      using quiet edit_calm [OF race_edit(2) good] by blast
  next
    case (race_delete i x3 w')
    then show ?thesis
      using quiet delete_calm [OF race_delete(2) good] by blast
  next
    case (race_purge ctx st x4 n st' w')
    then show ?thesis
      using quiet purge_calm [OF race_purge(2) good] by blast
  next
    case (race_expire st x5 st' w')
    then show ?thesis
      using expire_ok [OF assms(2,3)] by blast
  next
    case (race_clock t)
    then show ?thesis
      using inv_clock [of "sint ttl" D "a_now y" "w_repo (a_world y)" "claims_of y" "a_stored y" t] assms(2)
      by (simp add: race_ok_world)
  qed
qed

lemma race_steps_ok:
  assumes "(race_step L (pg_service B canon) (gc_New B' (pg_repo canon) iv gr ttl) D)\<^sup>*\<^sup>* (race_start w now) y"
    and "pg_good (w_repo w)" and "D \<le> sint ttl"
  shows "race_ok (sint ttl) D y"
  using assms(1)
proof (induction rule: rtranclp_induct)
  case base
  then show ?case
    using assms(2) by (simp add: race_ok_world race_start_def claims_of_def race_inv_def)
qed (use race_step_ok assms(3) in blast)

text \<open>A call that nothing interrupts is a run of such steps.\<close>

lemma claim_now: "pg_ClaimIdempotencyKey k d = (x, d') \<Longrightarrow> d_now d' = d_now d"
  by (auto simp: pg_ClaimIdempotencyKey_def send_def sql_claim_def sql_read_idem_def Let_def
      split: list.splits fault.splits sum.splits if_splits option.splits)

lemma upload_is_run:
  assumes "Service_UploadIdempotent L (files_New B (pg_repo canon)) k inp (at_now y) = (x, b, w')" and "0 \<le> D"
  shows "(race_step L (files_New B (pg_repo canon)) c D)\<^sup>*\<^sup>* y (y\<lparr>a_world := w',
    a_stored := (case x of Inr (g, False) \<Rightarrow> [(k, a_now y, f_ID g)] | _ \<Rightarrow> []) @ a_stored y\<rparr>)"
proof -
  let ?sv = "files_New B (pg_repo canon)"
  let ?step = "race_step L ?sv c D"
  obtain r w1 where cl: "on_repo (r_ClaimIdempotencyKey (sv_repo ?sv) k) (at_now y) = (r, w1)"
    by (metis surj_pair)
  consider (failed) e where "r = Inl e" | (taken) ex where "r = Inr (False, ex)" | (won) p where "r = Inr (True, p)"
    by (metis (full_types) sum.exhaust surj_pair)
  then show ?thesis
  proof cases
    case failed
    then show ?thesis
      using race_claim_failed [OF cl [unfolded failed]] assms(1) cl by (auto simp: Service_UploadIdempotent_def)
  next
    case taken
    obtain z w2 where z: "replay ?sv ex w1 = (z, w2)"
      by (metis surj_pair)
    show ?thesis
      using race_taken [OF cl [unfolded taken] z] assms(1) cl z taken
      by (auto simp: Service_UploadIdempotent_def split: sum.splits)
  next
    case won
    let ?y1 = "y\<lparr>a_world := w1, a_holders := \<lparr>h_Key = k, h_Since = a_now y, h_Staged = None\<rparr> # a_holders y\<rparr>"
    have s1: "?step y ?y1"
      by (rule race_claimed [OF cl [unfolded won]])
    have now: "d_now (w_repo w1) = a_now y"
      using on_repo_db [OF cl] claim_now [of k "w_repo (at_now y)" r "w_repo w1"] by (simp add: files_New_def)
    then have w1: "at_now ?y1 = w1"
      by (simp add: at_now_def)
    obtain v b2 w2 where st: "stage L ?sv inp w1 = (v, b2, w2)"
      by (metis prod_cases3)
    show ?thesis
    proof (cases v)
      case (Inl e)
      have "?step ?y1 (?y1\<lparr>a_world := release ?sv k w2, a_holders := [] @ a_holders y\<rparr>)"
        using race_stage_failed [of ?y1 "[]" "\<lparr>h_Key = k, h_Since = a_now y, h_Staged = None\<rparr>" "a_holders y" D L ?sv inp e b2 w2] st w1 Inl assms(2) by simp
      then show ?thesis
        using s1 assms(1) cl won st Inl
        by (auto simp: Service_UploadIdempotent_def intro!: converse_rtranclp_into_rtranclp [of ?step y ?y1])
    next
      case (Inr f)
      let ?y2 = "?y1\<lparr>a_world := w2, a_holders := \<lparr>h_Key = k, h_Since = a_now y, h_Staged = Some f\<rparr> # a_holders y\<rparr>"
      have s2: "?step ?y1 ?y2"
        using race_staged [of ?y1 "[]" "\<lparr>h_Key = k, h_Since = a_now y, h_Staged = None\<rparr>" "a_holders y" L ?sv inp f b2 w2] st w1 Inr by simp
      have w2: "at_now ?y2 = w2"
        using stage_repo [OF st] now by (simp add: at_now_def)
      obtain g w3 where co: "on_repo (r_CreateForKey (sv_repo ?sv) f k) w2 = (g, w3)"
        by (metis surj_pair)
      have "?step ?y2 (y\<lparr>a_world := w',
          a_stored := (case x of Inr (g, False) \<Rightarrow> [(k, a_now y, f_ID g)] | _ \<Rightarrow> []) @ a_stored y\<rparr>)"
      proof (cases g)
        case (Inl e)
        then show ?thesis
          using race_commit_failed [of ?y2 "[]" "\<lparr>h_Key = k, h_Since = a_now y, h_Staged = Some f\<rparr>" "a_holders y" f D ?sv e w3] assms cl won st Inr co w2
          by (auto simp: Service_UploadIdempotent_def)
      next
        fix h assume "g = Inr h"
        then show ?thesis
          using race_committed [of ?y2 "[]" "\<lparr>h_Key = k, h_Since = a_now y, h_Staged = Some f\<rparr>" "a_holders y" f D ?sv h w3] assms cl won st Inr co w2
          by (auto simp: Service_UploadIdempotent_def)
      qed
      then show ?thesis
        using s1 s2 by (meson converse_rtranclp_into_rtranclp r_into_rtranclp)
    qed
  qed
qed

section \<open>Concrete steps\<close>

abbreviation demo_race :: "int \<Rightarrow> memstore race \<Rightarrow> memstore race \<Rightarrow> bool" where
  "demo_race \<equiv> race_step demo_libs (model Some) (gc_model Some 1 0 10)"

text \<open>A database that answers, and identifiers that grow.\<close>

definition demo_ok :: "(memstore, db) world \<Rightarrow> bool" where
  "demo_ok w \<longleftrightarrow> quiet w \<and> pg_good (w_repo w) \<and> w_uuids w = demo_uuids \<and>
     (\<forall>c r. pg_rows (w_repo w) c = Some r \<longrightarrow> length c < w_next w \<and> length (f_StorageKey r) < w_next w)"

lemma demo_ok_now: "demo_ok (at_now y) = demo_ok (a_world y)"
  by (simp add: demo_ok_def at_now_def quiet_def pg_good_def tables_ok_def acked_def pg_rows_def)

lemma at_now_world [simp]:
  "w_next (at_now y) = w_next (a_world y)" "w_uuids (at_now y) = w_uuids (a_world y)"
  "pg_rows (w_repo (at_now y)) = pg_rows (w_repo (a_world y))"
  by (simp_all add: at_now_def pg_rows_def fun_eq_iff)

lemma demo_okD:
  assumes "demo_ok (a_world y)"
  shows "demo_ok (at_now y)" "quiet (at_now y)" "pg_good (w_repo (at_now y))" "w_uuids (at_now y) = demo_uuids"
  using assms demo_ok_now [of y] by (simp_all add: demo_ok_def quiet_def at_now_def)

lemma demo_ok_cong:
  "demo_ok w \<Longrightarrow> quiet w' \<Longrightarrow> pg_good (w_repo w') \<Longrightarrow> w_uuids w' = w_uuids w \<Longrightarrow> w_next w \<le> w_next w' \<Longrightarrow>
    pg_rows (w_repo w') = pg_rows (w_repo w) \<Longrightarrow> demo_ok w'"
  by (auto simp: demo_ok_def intro: less_le_trans)

lemma pg_claims_row: "(pg_claims d k = None) = (idem_row d k = None)"
  by (simp add: pg_claims_def idem_row_def)

lemma step_claim:
  assumes "demo_ok (a_world y)" and "idem_row (w_repo (a_world y)) k = None"
  obtains w' where "demo_race D y (y\<lparr>a_world := w',
      a_holders := \<lparr>h_Key = k, h_Since = a_now y, h_Staged = None\<rparr> # a_holders y\<rparr>)"
    "demo_ok w'" "pg_rows (w_repo w') = pg_rows (w_repo (a_world y))"
    "idem_row (w_repo w') = (idem_row (w_repo (a_world y)))(k \<mapsto>
      \<lparr>k_Key = k, k_FileID = None, k_Status = IdempotencyPending, k_CreatedAt = a_now y\<rparr>)"
proof -
  note ok = demo_okD [OF assms(1)]
  obtain d where c: "pg_ClaimIdempotencyKey k (w_repo (at_now y)) = (Inr (True, None), d)" "d_faults d = []"
    using ok(2) assms(2) pg_claims_row [of "w_repo (at_now y)" k] by (simp add: pg_Claim_quiet quiet_def)
  let ?w = "(at_now y)\<lparr>w_repo := d\<rparr>"
  have "pg_good d" "pg_rows d = pg_rows (w_repo (at_now y))"
    using pg_Claim_cases [OF c(1) ok(3)] by simp_all
  moreover have "acked (w_repo (at_now y))"
    using ok(3) by (simp only: pg_good_def)
  moreover have "demo_race D y (y\<lparr>a_world := ?w,
      a_holders := \<lparr>h_Key = k, h_Since = a_now y, h_Staged = None\<rparr> # a_holders y\<rparr>)"
    by (rule race_claimed [where p = None]) (simp add: on_repo_def c(1))
  ultimately show thesis
    using that [of ?w] demo_ok_cong [OF ok(1), of ?w] idem_row_claim [OF c(1)] c(2) by (simp add: quiet_def)
qed

lemma step_expire:
  assumes "demo_ok (a_world y)" and "idem_row (w_repo (a_world y)) k = Some r" and "k_CreatedAt r < a_now y - 10"
  obtains w' where "demo_race D y (y\<lparr>a_world := w'\<rparr>)" "demo_ok w'"
    "pg_rows (w_repo w') = pg_rows (w_repo (a_world y))" "idem_row (w_repo w') k = None"
proof -
  note ok = demo_okD [OF assms(1)]
  have t: "time_before (a_now y) 10 = a_now y - 10"
    by (simp add: time_before_def)
  let ?d = "w_repo (at_now y)"
  let ?d' = "?d\<lparr>d_idem := filter (\<lambda>r. \<not> k_CreatedAt r < a_now y - 10) (d_idem ?d)\<rparr>"
  let ?w = "(at_now y)\<lparr>w_repo := ?d'\<rparr>"
  have e: "expireIdempotencyKeys (gc_model Some 1 0 10) (a_now y) no_stats (at_now y) =
      (None, no_stats\<lparr>st_ExpiredKeys := length (filter (\<lambda>r. k_CreatedAt r < a_now y - 10) (d_idem ?d))\<rparr>, ?w)"
    using expire_quiet [OF ok(2), of 10 Some 1 0] by (simp add: t)
  have p: "pg_PurgeIdempotencyKeys (a_now y - 10) ?d = (Inr (length (filter (\<lambda>r. k_CreatedAt r < a_now y - 10) (d_idem ?d))), ?d')"
    using ok(2) by (simp add: pg_PurgeIdempotencyKeys_def send_quiet quiet_def sql_purge_keys_def)
  have good: "pg_good ?d'" "pg_rows ?d' = pg_rows ?d"
    using pg_PurgeKeys_cases [OF p ok(3)] by simp_all
  show thesis
  proof (rule that [OF race_expire [OF e]])
    show "demo_ok ?w"
      by (rule demo_ok_cong [OF ok(1)]) (use ok(2) good in \<open>simp_all add: quiet_def\<close>)
    show "pg_rows (w_repo ?w) = pg_rows (w_repo (a_world y))"
      using good(2) by simp
    have "tables_ok ?d"
      using ok(3) by (simp only: pg_good_def)
    then show "idem_row (w_repo ?w) k = None"
      using idem_row_filter [of ?d "\<lambda>r. \<not> k_CreatedAt r < a_now y - 10" k] assms(2,3) by simp
  qed
qed

lemma step_fail:
  assumes "demo_ok (a_world y)" and "a_holders y = xs @ h # ys" and "h_Staged h = None" and "a_now y - h_Since h \<le> D"
    and "pending_row (w_repo (a_world y)) (h_Key h) t"
  obtains w' where "demo_race D y (y\<lparr>a_world := w', a_holders := xs @ ys\<rparr>)" "demo_ok w'"
    "pg_rows (w_repo w') = pg_rows (w_repo (a_world y))" "idem_row (w_repo w') (h_Key h) = None"
proof -
  note ok = demo_okD [OF assms(1)]
  let ?v = "(at_now y)\<lparr>w_next := Suc (Suc (w_next (at_now y)))\<rparr>" and ?d = "w_repo (at_now y)"
  have u: "w_uuids (at_now y) (w_next (at_now y)) = Inr (replicate (w_next (at_now y)) CHR ''a'')"
    "w_uuids (at_now y) (Suc (w_next (at_now y))) = Inr (replicate (Suc (w_next (at_now y))) CHR ''a'')"
    by (simp_all only: ok(4) demo_uuids_def)
  obtain e b where s: "stage demo_libs (model Some) broken_input (at_now y) = (Inl e, b, ?v)"
    using stage_fails [OF u broken_input_facts(1), of demo_libs Some] by blast
  let ?w = "release (model Some) (h_Key h) ?v"
  have r: "pg_ReleaseIdempotencyKey (h_Key h) ?d = (Inr (), snd (sql_release (h_Key h) ?d))"
    using ok(2) by (simp add: pg_Release_quiet quiet_def)
  have w: "w_repo ?w = snd (sql_release (h_Key h) ?d)" "w_uuids ?w = demo_uuids"
    "w_next ?w = Suc (Suc (w_next (at_now y)))"
    using ok(4) by (simp_all add: release_def on_repo_def r)
  have good: "pg_good (w_repo ?w)" "pg_rows (w_repo ?w) = pg_rows ?d"
    using pg_Release_cases [OF r ok(3)] w(1) by simp_all
  show thesis
  proof (rule that [OF race_stage_failed [OF assms(2-4) s, unfolded pg_service_repo]])
    show "demo_ok ?w"
      by (rule demo_ok_cong [OF ok(1)]) (use ok(2,4) good w in \<open>simp_all add: quiet_def sql_release_def\<close>)
    show "pg_rows (w_repo ?w) = pg_rows (w_repo (a_world y))"
      using good(2) by simp
    have "tables_ok ?d" "pending_row ?d (h_Key h) t"
      using ok(3) assms(5) by (simp_all only: pg_good_def pending_row_def at_now_sel)
    then have "idem_row (snd (sql_release (h_Key h) ?d)) (h_Key h) = None"
      using idem_row_filter [of ?d _ "h_Key h"]
      by (auto simp: sql_release_def pending_row_def idem_row_def dest: find_SomeD split: option.splits)
    then show "idem_row (w_repo ?w) (h_Key h) = None"
      by (simp only: w(1))
  qed
qed

lemma stage_next:
  "stage L sv inp w = (Inr f, b, w') \<Longrightarrow> w_uuids w' = w_uuids w \<and> w_next w' = Suc (Suc (w_next w))"
  by (auto simp: stage_def newID_def resolve_size_def drop_object_def on_store_def
      split: sum.splits prod.splits if_splits)

lemma step_store:
  assumes "demo_ok (a_world y)" and "a_holders y = xs @ h # ys" and "h_Staged h = None" and "a_now y - h_Since h \<le> D"
    and "idem_row (w_repo (a_world y)) (h_Key h) = Some r"
  obtains y' g i r' where "(demo_race D)\<^sup>*\<^sup>* y y'" "demo_ok (a_world y')" "a_now y' = a_now y" "a_holders y' = xs @ ys"
    "a_stored y' = (h_Key h, h_Since h, i) # a_stored y" "pg_rows (w_repo (a_world y)) i = None"
    "pg_rows (w_repo (a_world y')) = (pg_rows (w_repo (a_world y)))(i \<mapsto> g)" "live g"
    "idem_row (w_repo (a_world y')) (h_Key h) = Some r'" "k_CreatedAt r' = k_CreatedAt r"
proof -
  note ok = demo_okD [OF assms(1)]
  let ?n = "w_next (at_now y)" and ?d = "w_repo (at_now y)"
  let ?i = "replicate ?n CHR ''a''" and ?k = "replicate (Suc ?n) CHR ''a''"
  have u: "w_uuids (at_now y) ?n = Inr ?i" "w_uuids (at_now y) (Suc ?n) = Inr ?k"
    by (simp_all only: ok(4) demo_uuids_def)
  have "body_fin (in_Body demo_input) = EOF"
    by (simp add: demo_input_def)
  from stage_succeeds [OF u this, of demo_libs Some] obtain f b w1 where
    s: "stage demo_libs (model Some) demo_input (at_now y) = (Inr f, b, w1)" "f_ID f = ?i" "f_StorageKey f = ?k"
      "w_repo w1 = ?d"
    by blast
  note next1 = stage_next [OF s(1)]
  let ?y1 = "y\<lparr>a_world := w1, a_holders := xs @ h\<lparr>h_Staged := Some f\<rparr> # ys\<rparr>"
  have d1: "w_repo (at_now ?y1) = ?d"
    using s(4) by (simp add: at_now_def)
  have good: "d_faults ?d = []" "tables_ok ?d" "acked ?d"
    using ok(2,3) by (simp_all only: quiet_def pg_good_def)
  have small: "length c < ?n \<and> length (f_StorageKey x) < ?n" if "pg_rows ?d c = Some x" for c x
    using ok(1) that by (simp add: demo_ok_def)
  have none: "pg_rows ?d ?i = None"
    using small [of ?i] by (cases "pg_rows ?d ?i") auto
  moreover have "\<forall>x\<in>set (d_files ?d). f_StorageKey x \<noteq> f_StorageKey f"
    using small pg_rows_mem [OF good(2)] s(3) by (metis length_replicate lessI not_less_iff_gr_or_eq less_trans)
  moreover have "pg_claims ?d (h_Key h) \<noteq> None"
    using assms(5) pg_claims_row [of ?d "h_Key h"] by simp
  ultimately obtain g d where c: "pg_CreateForKey Some f (h_Key h) ?d = (Inr g, d)" "d_faults d = []"
    using pg_CreateForKey_quiet [OF good(1,2), of Some f ?i "h_Key h"] s(2) by auto
  have a: "added (pg_rows ?d) ?i f g (pg_rows d)" "pg_good d"
    using pg_CreateForKey_ok [OF c(1) good(2)] good(3) s(2) by (auto simp: pg_good_def)
  then have g: "f_ID g = ?i" "pg_rows d = (pg_rows ?d)(?i \<mapsto> g\<lparr>f_ID := ?i, f_DeletedAt := None\<rparr>)"
    "f_StorageKey g = ?k"
    using s(2,3) by (simp_all only: added_def filled_in_def)
  obtain r' where r': "idem_row d (h_Key h) = Some r'" "k_CreatedAt r' = k_CreatedAt r"
    using idem_row_complete [OF c(1) good(3)] assms(5) by auto
  let ?w2 = "(at_now ?y1)\<lparr>w_repo := d\<rparr>"
  let ?y2 = "?y1\<lparr>a_world := ?w2, a_holders := xs @ ys, a_stored := (h_Key h, h_Since h, f_ID g) # a_stored ?y1\<rparr>"
  have step1: "demo_race D y ?y1"
    by (rule race_staged [OF assms(2,3) s(1)])
  have step2: "demo_race D ?y1 ?y2"
    using race_committed [of ?y1 xs "h\<lparr>h_Staged := Some f\<rparr>" ys f D "model Some" g ?w2] assms(4) c(1) d1
    by (simp add: on_repo_def)
  have new: "w_uuids ?w2 = demo_uuids" "w_next ?w2 = Suc (Suc ?n)"
    using next1 ok(4) by simp_all
  have ok2: "demo_ok ?w2"
    unfolding demo_ok_def new using a(2) c(2) g small by (auto simp: quiet_def less_SucI)
  have run: "(demo_race D)\<^sup>*\<^sup>* y ?y2"
    using step1 step2 by (meson converse_rtranclp_into_rtranclp r_into_rtranclp)
  show thesis
    by (rule that [OF run, of ?i "g\<lparr>f_ID := ?i, f_DeletedAt := None\<rparr>" r']) (use ok2 none g r' in simp_all)
qed

text \<open>Runs of such steps: the calls that hold a key, and what is stored.\<close>

definition demo_at :: "int \<Rightarrow> int \<Rightarrow> holder list \<Rightarrow> (string \<times> int \<times> string) list \<Rightarrow> memstore race \<Rightarrow> bool" where
  "demo_at D now hs ss y \<longleftrightarrow> (demo_race D)\<^sup>*\<^sup>* (race_start demo_start 0) y \<and> demo_ok (a_world y) \<and>
     a_now y = now \<and> a_holders y = hs \<and> a_stored y = ss"

definition row_since :: "memstore race \<Rightarrow> string \<Rightarrow> int option" where
  "row_since y k = map_option k_CreatedAt (idem_row (w_repo (a_world y)) k)"

definition demo_rows :: "memstore race \<Rightarrow> string \<rightharpoonup> File" where
  "demo_rows y = pg_rows (w_repo (a_world y))"

abbreviation claimed :: "string \<Rightarrow> int \<Rightarrow> holder" where
  "claimed k t \<equiv> \<lparr>h_Key = k, h_Since = t, h_Staged = None\<rparr>"

lemma run_start: "demo_at D 0 [] [] (race_start demo_start 0)" "row_since (race_start demo_start 0) k = None"
  using demo_good by (simp_all add: demo_at_def demo_ok_def row_since_def race_start_def fs.good_def
      demo_start_def start_def pg_rows_def idem_row_def)

lemma run_step:
  "demo_at D n hs ss y \<Longrightarrow> (demo_race D)\<^sup>*\<^sup>* y y' \<Longrightarrow> demo_ok (a_world y') \<Longrightarrow>
    demo_at D (a_now y') (a_holders y') (a_stored y') y'"
  unfolding demo_at_def by (meson rtranclp_trans)

lemma run_claim:
  assumes "demo_at D n hs ss y" and "row_since y k = None"
  obtains y' where "demo_at D n (claimed k n # hs) ss y'" "row_since y' k = Some n"
    "pending_row (w_repo (a_world y')) k n"
proof -
  have ok: "demo_ok (a_world y)" "idem_row (w_repo (a_world y)) k = None"
    and y: "a_now y = n" "a_holders y = hs" "a_stored y = ss"
    using assms by (simp_all add: demo_at_def row_since_def)
  from ok obtain w' where w': "demo_race D y (y\<lparr>a_world := w', a_holders := claimed k (a_now y) # a_holders y\<rparr>)"
    "demo_ok w'" "pg_rows (w_repo w') = pg_rows (w_repo (a_world y))"
    "idem_row (w_repo w') = (idem_row (w_repo (a_world y)))(k \<mapsto>
      \<lparr>k_Key = k, k_FileID = None, k_Status = IdempotencyPending, k_CreatedAt = a_now y\<rparr>)"
    by (rule step_claim)
  let ?y = "y\<lparr>a_world := w', a_holders := claimed k (a_now y) # a_holders y\<rparr>"
  have "demo_at D n (claimed k n # hs) ss ?y"
    using run_step [OF assms(1) r_into_rtranclp [of "demo_race D", OF w'(1)]] w'(2) y by simp
  then show thesis
    by (rule that) (simp_all add: w'(4) y(1) pending_row_def row_since_def)
qed

text \<open>The clock moves past the time to live of the key, and the collector expires it.\<close>

lemma run_expire:
  assumes "demo_at D n hs ss y" and "row_since y k = Some t" and "n \<le> t'" and "t < t' - 10"
  obtains y' where "demo_at D t' hs ss y'" "row_since y' k = None"
proof -
  let ?y = "y\<lparr>a_now := t'\<rparr>"
  obtain r where r: "idem_row (w_repo (a_world ?y)) k = Some r" "k_CreatedAt r < a_now ?y - 10"
    using assms(2,4) by (auto simp: row_since_def)
  have ok: "demo_ok (a_world ?y)" and y: "a_now y = n" "a_holders y = hs" "a_stored y = ss"
    using assms(1) by (simp_all add: demo_at_def)
  from ok obtain w' where w': "demo_race D ?y (?y\<lparr>a_world := w'\<rparr>)" "demo_ok w'"
    "pg_rows (w_repo w') = pg_rows (w_repo (a_world ?y))" "idem_row (w_repo w') k = None"
    using r by (rule step_expire)
  have "demo_race D y ?y"
    using race_clock [of y t'] y(1) assms(3) by simp
  then have "(demo_race D)\<^sup>*\<^sup>* y (?y\<lparr>a_world := w'\<rparr>)"
    using w'(1) by (meson converse_rtranclp_into_rtranclp r_into_rtranclp)
  from run_step [OF assms(1) this] w'(2) y have "demo_at D t' hs ss (?y\<lparr>a_world := w'\<rparr>)"
    by simp
  then show thesis
    by (rule that) (simp add: row_since_def w'(4))
qed

text \<open>The body of a call that has claimed a key fails, and the call releases the key.\<close>

lemma run_fail:
  assumes "demo_at D n (xs @ claimed k s # ys) ss y" and "n - s \<le> D"
    and "pending_row (w_repo (a_world y)) k t"
  obtains y' where "demo_at D n (xs @ ys) ss y'" "row_since y' k = None"
proof -
  have ok: "demo_ok (a_world y)" and y: "a_now y = n" "a_holders y = xs @ claimed k s # ys" "a_stored y = ss"
    using assms(1) by (simp_all add: demo_at_def)
  obtain w' where w': "demo_race D y (y\<lparr>a_world := w', a_holders := xs @ ys\<rparr>)" "demo_ok w'"
    "pg_rows (w_repo w') = pg_rows (w_repo (a_world y))" "idem_row (w_repo w') (h_Key (claimed k s)) = None"
    by (rule step_fail [OF ok y(2), of D t]) (use assms(2,3) y(1) in simp_all)
  have "demo_at D n (xs @ ys) ss (y\<lparr>a_world := w', a_holders := xs @ ys\<rparr>)"
    using run_step [OF assms(1) r_into_rtranclp [of "demo_race D", OF w'(1)]] w'(2) y by simp
  then show thesis
    by (rule that) (use w'(4) in \<open>simp add: row_since_def\<close>)
qed

text \<open>It succeeds, and the file is stored.\<close>

lemma run_store:
  assumes "demo_at D n (xs @ claimed k s # ys) ss y" and "n - s \<le> D" and "row_since y k = Some t"
  obtains y' g i where "demo_at D n (xs @ ys) ((k, s, i) # ss) y'" "demo_rows y i = None"
    "demo_rows y' = (demo_rows y)(i \<mapsto> g)" "live g" "row_since y' k = Some t"
proof -
  have ok: "demo_ok (a_world y)" and y: "a_now y = n" "a_holders y = xs @ claimed k s # ys" "a_stored y = ss"
    using assms(1) by (simp_all add: demo_at_def)
  obtain r where r: "idem_row (w_repo (a_world y)) (h_Key (claimed k s)) = Some r" "k_CreatedAt r = t"
    using assms(3) by (auto simp: row_since_def)
  obtain y' g i r' where y': "(demo_race D)\<^sup>*\<^sup>* y y'" "demo_ok (a_world y')" "a_now y' = a_now y" "a_holders y' = xs @ ys"
    "a_stored y' = (h_Key (claimed k s), h_Since (claimed k s), i) # a_stored y"
    "pg_rows (w_repo (a_world y)) i = None"
    "pg_rows (w_repo (a_world y')) = (pg_rows (w_repo (a_world y)))(i \<mapsto> g)" "live g"
    "idem_row (w_repo (a_world y')) (h_Key (claimed k s)) = Some r'" "k_CreatedAt r' = k_CreatedAt r"
    by (rule step_store [OF ok y(2) _ _ r(1), of D]) (use assms(2) y(1) in simp_all)
  have "demo_at D n (xs @ ys) ((k, s, i) # ss) y'"
    using run_step [OF assms(1) y'(1,2)] y' y by simp
  then show thesis
    by (rule that) (use y' r(2) in \<open>simp_all add: demo_rows_def row_since_def\<close>)
qed

section \<open>One file for each key\<close>

text \<open>C17. Uploads racing under idempotency keys, interleaved statement by statement with each other,
  with plain uploads, edits, deletions and both passes of the collector, with lost connections,
  failing bodies and crashed processes, never store two files under one key, unless the second
  upload claimed the key more than the key's time to live after the first did.  The uploads end
  within \<open>D\<close> of their claim, or not at all, and \<open>D\<close> is no longer than the time to live.\<close>
theorem keys_never_duplicate:
  assumes "(race_step L (files_New B (pg_repo canon)) (gc_New B' (pg_repo canon) iv gr ttl) D)\<^sup>*\<^sup>*
      (race_start w now) y"
    and "pg_good (w_repo w)" and "D \<le> sint ttl"
    and "a_stored y = xs @ (k, t, i) # ys" and "(k, t', i') \<in> set ys"
  shows "t' + sint ttl < t"
  using race_invD(8) [OF race_steps_ok [OF assms(1-3), unfolded race_ok_def]] assms(4,5)
  by (auto simp: sorted_wrt_append)

theorem keys_never_duplicate_witness:
  "\<exists>y i j. (demo_race 10)\<^sup>*\<^sup>* (race_start demo_start 0) y \<and> a_stored y = [(''k'', 11, i), (''k'', 0, j)] \<and>
    0 + sint (10 :: int64) < 11"
proof -
  obtain y1 where y1: "demo_at 10 0 [claimed ''k'' 0] [] y1" "row_since y1 ''k'' = Some 0"
    by (rule run_claim [OF run_start])
  obtain y2 j where y2: "demo_at 10 0 [] [(''k'', 0, j)] y2" "row_since y2 ''k'' = Some 0"
    by (rule run_store [where xs = "[]" and ys = "[]", simplified, OF y1(1) _ y1(2)]) simp
  obtain y3 where y3: "demo_at 10 11 [] [(''k'', 0, j)] y3" "row_since y3 ''k'' = None"
    by (rule run_expire [OF y2, of 11]) simp_all
  obtain y4 where y4: "demo_at 10 11 [claimed ''k'' 11] [(''k'', 0, j)] y4" "row_since y4 ''k'' = Some 11"
    by (rule run_claim [OF y3])
  obtain y5 i where y5: "demo_at 10 11 [] [(''k'', 11, i), (''k'', 0, j)] y5"
    by (rule run_store [where xs = "[]" and ys = "[]", simplified, OF y4(1) _ y4(2)]) simp
  have "pg_good (w_repo demo_start)"
    using demo_good(1) by (simp add: fs.good_def)
  moreover have "(demo_race 10)\<^sup>*\<^sup>* (race_start demo_start 0) y5" "a_stored y5 = [] @ (''k'', 11, i) # [(''k'', 0, j)]"
    using y5 by (simp_all add: demo_at_def)
  ultimately have "0 + sint (10 :: int64) < 11"
    using keys_never_duplicate [of demo_libs "mem_backend upload_ReadAll" Some "mem_backend upload_ReadAll" 1 0 10
        10 demo_start 0 y5 "[]" "''k''" 11 i "[(''k'', 0, j)]" 0 j] by simp
  then show ?thesis
    using y5 unfolding demo_at_def by blast
qed

text \<open>C37. The owner of a key is not recorded, so an upload that outlives its key takes the key of
  another.  With a time to live of 10, an upload of 11 time units whose body then fails releases
  the claim that a second upload made after the first claim expired; a third upload claims the
  key again, and the second and the third both store a file under it, with claims made at the
  same time.\<close>
theorem late_release_duplicates:
  "\<exists>y i j f g. (demo_race 11)\<^sup>*\<^sup>* (race_start demo_start 0) y \<and> a_stored y = [(''k'', 11, j), (''k'', 11, i)] \<and>
    i \<noteq> j \<and> pg_rows (w_repo (a_world y)) i = Some f \<and> live f \<and>
    pg_rows (w_repo (a_world y)) j = Some g \<and> live g"
proof -
  obtain y1 where y1: "demo_at 11 0 [claimed ''k'' 0] [] y1" "row_since y1 ''k'' = Some 0"
    by (rule run_claim [OF run_start])
  obtain y2 where y2: "demo_at 11 11 [claimed ''k'' 0] [] y2" "row_since y2 ''k'' = None"
    by (rule run_expire [OF y1, of 11]) simp_all
  obtain y3 where y3: "demo_at 11 11 [claimed ''k'' 11, claimed ''k'' 0] [] y3"
    "pending_row (w_repo (a_world y3)) ''k'' 11"
    by (rule run_claim [OF y2])
  obtain y4 where y4: "demo_at 11 11 [claimed ''k'' 11] [] y4" "row_since y4 ''k'' = None"
    by (rule run_fail [where xs = "[claimed ''k'' 11]" and ys = "[]", simplified, OF y3(1) _ y3(2)]) simp
  obtain y5 where y5: "demo_at 11 11 [claimed ''k'' 11, claimed ''k'' 11] [] y5" "row_since y5 ''k'' = Some 11"
    by (rule run_claim [OF y4])
  obtain y6 f i where y6: "demo_at 11 11 [claimed ''k'' 11] [(''k'', 11, i)] y6" "demo_rows y5 i = None"
    "demo_rows y6 = (demo_rows y5)(i \<mapsto> f)" "live f" "row_since y6 ''k'' = Some 11"
    by (rule run_store [where xs = "[]" and ys = "[claimed ''k'' 11]", simplified, OF y5(1) _ y5(2)]) simp
  obtain y7 g j where y7: "demo_at 11 11 [] [(''k'', 11, j), (''k'', 11, i)] y7" "demo_rows y6 j = None"
    "demo_rows y7 = (demo_rows y6)(j \<mapsto> g)" "live g"
    by (rule run_store [where xs = "[]" and ys = "[]", simplified, OF y6(1) _ y6(5)]) simp
  have "i \<noteq> j"
    using y6(3) y7(2) by auto
  then show ?thesis
    using y6(3,4) y7 by (intro exI [of _ y7] exI [of _ i] exI [of _ j] exI [of _ f] exI [of _ g])
      (simp add: demo_at_def demo_rows_def)
qed

end
