(* ===== verification/KeyLife.thy ===== *)
theory KeyLife
  imports KeyRaces
begin

text \<open>
  The life of an idempotency key: retries after any calls, sweeps and passing of time, as long as no
  sweep takes the key for expired (\<open>key_step\<close>).  The row of a completed key outlives every call
  (\<open>call_row\<close>) and every sweep within its time to live (\<open>sweep_row\<close>), so \<open>first_kept\<close> holds in
  between, also when the file has been deleted and its row purged.
\<close>

section \<open>What keeps the row of a completed key\<close>

lemma calm_List:
  assumes "r_List (pg_repo canon) flt d = (x, d')" and "pg_good d"
  shows "calm d d'"
proof (rule calm_send)
  show "d_idem (snd (sql_list canon flt d)) = d_idem d" for d
    by (simp add: sql_list_def Let_def split: option.splits)
  show "d' = snd (send (sql_list canon flt) d)"
    using assms(1) by (auto simp: pg_List_def split: sum.splits prod.splits)
  show "pg_good d'"
    using pg.List_frame [OF assms(2,1)] by simp
qed

lemma calm_StorageKeys:
  assumes "r_StorageKeys (pg_repo canon) d = (x, d')" and "pg_good d"
  shows "calm d d'"
proof (rule calm_send [OF sql_idem(3)])
  show "d' = snd (send (sql_rows (\<lambda>d. set (map f_StorageKey (d_files d)))) d)"
    using assms(1) by (auto simp: pg_StorageKeys_def split: sum.splits prod.splits)
  show "pg_good d'"
    using pg_gc.StorageKeys_frame [OF assms(2,1)] by simp
qed

lemma record_calm:
  assumes "Service_Metadata L (pg_service B canon) i w = (x, w')" and "pg_good (w_repo w)"
  shows "calm (w_repo w) (w_repo w')"
proof (cases "validID L i")
  case True
  then obtain y where y: "on_repo (r_Get (pg_repo canon) i) w = (y, w')"
    using assms(1) by (auto simp: Service_Metadata_def split: sum.splits prod.splits)
  show ?thesis
    by (rule calm_Get [OF on_repo_db [OF y] assms(2)])
qed (use assms in \<open>simp add: Service_Metadata_def calm_refl\<close>)

lemma list_calm:
  assumes "Service_List L (pg_service B canon) flt w = (x, w')" and "pg_good (w_repo w)"
  shows "calm (w_repo w) (w_repo w')"
proof -
  consider (same) "w' = w" | (asked) y where "on_repo (r_List (pg_repo canon) flt) w = (y, w')"
    using assms(1) by (auto simp: Service_List_def split: sum.splits prod.splits if_splits)
  then show ?thesis
  proof cases
    case same
    then show ?thesis
      using assms(2) by (simp add: calm_refl)
  next
    case asked
    show ?thesis
      by (rule calm_List [OF on_repo_db [OF asked] assms(2)])
  qed
qed

lemma on_store_db: "on_store f w = (x, w') \<Longrightarrow> w_repo w' = w_repo w"
  using on_store_repo [of f w] by simp

lemma keyed_upload_row:
  assumes "Service_UploadIdempotent L (pg_service B canon) j inp w = (x, b, w')" and good: "pg_good (w_repo w)"
    and row: "idem_row (w_repo w) k = Some r" and completed: "k_Status r = IdempotencyCompleted"
  shows "idem_row (w_repo w') k = Some r"
proof -
  let ?sv = "pg_service B canon"
  obtain y w1 where cl: "on_repo (r_ClaimIdempotencyKey (pg_repo canon) j) w = (y, w1)"
    by (metis surj_pair)
  have c: "pg_ClaimIdempotencyKey j (w_repo w) = (y, w_repo w1)"
    using on_repo_db [OF cl] by simp
  show ?thesis
  proof (cases "\<exists>p. y = Inr (True, p)")
    case False
    then have w1: "calm (w_repo w) (w_repo w1)"
      using claim_calm [OF cl good] by simp
    have "calm (w_repo w1) (w_repo w')" if "replay ?sv ex w1 = (z, w')" for ex z
      using replay_calm [OF that] w1 by (simp add: calm_def)
    then have "w' = w1 \<or> calm (w_repo w1) (w_repo w')"
      using assms(1) cl False
      by (auto simp: Service_UploadIdempotent_def split: sum.splits prod.splits bool.splits)
    then show ?thesis
      using w1 row by (auto simp: calm_def)
  next
    case True
    then obtain p where y: "y = Inr (True, p)"
      by blast
    have "idem_row (w_repo w) j = None" and w1: "idem_row (w_repo w1) = (idem_row (w_repo w))(j \<mapsto>
        \<lparr>k_Key = j, k_FileID = None, k_Status = IdempotencyPending, k_CreatedAt = d_now (w_repo w)\<rparr>)"
      using idem_row_claim [OF c] good y by (auto simp: pg_good_def)
    then have j: "k \<noteq> j" "idem_row (w_repo w1) k = Some r"
      using row by auto
    have good1: "pg_good (w_repo w1)"
      using pg_Claim_cases [OF c good] by simp
    have rel: "idem_row (w_repo (release ?sv j v)) k = idem_row (w_repo v) k" if "pg_good (w_repo v)" for v
    proof -
      obtain z where "pg_ReleaseIdempotencyKey j (w_repo v) = (z, w_repo (release ?sv j v))"
        using release_db [of ?sv j v] by auto
      from idem_row_release [OF this that, of k] j(1) show ?thesis
        by auto
    qed
    obtain s b2 w2 where st: "stage L ?sv inp w1 = (s, b2, w2)"
      by (metis prod_cases3)
    have w2: "w_repo w2 = w_repo w1"
      by (rule stage_repo [OF st])
    show ?thesis
    proof (cases s)
      case (Inl e)
      then have "w' = release ?sv j w2"
        using assms(1) cl y st by (simp add: Service_UploadIdempotent_def)
      then show ?thesis
        using rel [of w2] w2 good1 j(2) by simp
    next
      case (Inr f)
      obtain z w3 where cr: "on_repo (r_CreateForKey (pg_repo canon) f j) w2 = (z, w3)"
        by (metis surj_pair)
      have cf: "pg_CreateForKey canon f j (w_repo w1) = (z, w_repo w3)"
        using on_repo_db [OF cr] w2 by simp
      have w3: "idem_row (w_repo w3) k = Some r"
        using idem_row_complete [OF cf] good1 j by (auto simp: pg_good_def split: sum.splits)
      show ?thesis
      proof (cases z)
        case (Inl e)
        then have "w' = release ?sv j (drop_object ?sv (f_StorageKey f) w3)"
          using assms(1) cl y st Inr cr by (simp add: Service_UploadIdempotent_def)
        moreover have "pg_good (w_repo w3)"
          using pg_CreateForKey_error [OF cf [unfolded Inl] good1] by simp
        ultimately show ?thesis
          using rel [of "drop_object ?sv (f_StorageKey f) w3"] w3 by (simp add: drop_object_repo)
      next
        case (Inr g)
        then show ?thesis
          using assms(1) cl y st \<open>s = Inr f\<close> cr w3 by (simp add: Service_UploadIdempotent_def)
      qed
    qed
  qed
qed

lemma call_row:
  assumes "service_step L (pg_service B canon) w w'" and "pg_good (w_repo w)"
    and "idem_row (w_repo w) k = Some r" and "k_Status r = IdempotencyCompleted"
  shows "idem_row (w_repo w') k = Some r"
proof -
  have calm: "calm (w_repo w) (w_repo w') \<Longrightarrow> idem_row (w_repo w') k = Some r"
    using assms(3) by (simp add: calm_def)
  have recorded: "idem_row (w_repo v) k = Some r" if "Service_Metadata L (pg_service B canon) i w = (x, v)" for i x v
    using record_calm [OF that assms(2)] assms(3) by (simp add: calm_def)
  from assms(1) show ?thesis
  proof cases
    case (step_Upload inp x b)
    then show ?thesis
      using upload_calm assms(2) calm by blast
  next
    case (step_UploadIdempotent inp key x b)
    show ?thesis
      by (rule keyed_upload_row [OF step_UploadIdempotent(2) assms(2-4)])
  next
    case (step_Presign i ttl u)
    then show ?thesis
      using recorded by (auto simp: Service_Presign_def split: sum.splits prod.splits dest!: on_store_db)
  next
    case (step_Open i rc)
    then show ?thesis
      using recorded by (auto simp: Service_Open_def split: sum.splits prod.splits dest!: on_store_db)
  next
    case (step_OpenRange f off len src)
    then show ?thesis
      using assms(3) by (auto simp: Service_OpenRange_def split: sum.splits prod.splits dest!: on_store_db)
  next
    case (step_List flt fs)
    then show ?thesis
      using list_calm assms(2) calm by blast
  next
    case (step_UpdateMetadata i tags mrg f)
    then show ?thesis
      using edit_calm assms(2) calm by blast
  next
    case (step_Delete i u)
    then show ?thesis
      using delete_calm assms(2) calm by blast
  qed (use recorded in blast)
qed

lemma sweep_row:
  assumes "RunOnce (gc_New B (pg_repo canon) iv gr ttl) ctx now1 now2 w = (x, w')" and "pg_good (w_repo w)"
    and row: "idem_row (w_repo w) k = Some r" and young: "ttl <=s 0 \<or> time_before now2 ttl \<le> k_CreatedAt r"
  shows "idem_row (w_repo w') k = Some r"
proof -
  let ?c = "gc_New B (pg_repo canon) iv gr ttl"
  obtain e1 n1 st1 w1 where d: "purgeDeleted ?c ctx no_stats w = (e1, n1, st1, w1)"
    by (metis prod_cases4)
  have w1: "calm (w_repo w) (w_repo w1)"
    by (rule purge_calm [OF d assms(2)])
  have orphans: "calm (w_repo v) (w_repo v')"
    if "reclaimOrphans ?c c n st v = (e, st', v')" "pg_good (w_repo v)" for c n st v e st' v'
  proof -
    obtain y u where k: "on_repo (r_StorageKeys (pg_repo canon)) v = (y, u)"
      by (metis surj_pair)
    have "w_repo v' = w_repo u"
      using that(1) k by (auto simp: reclaimOrphans_def gc_New_def split: sum.splits prod.splits)
    then show ?thesis
      using calm_StorageKeys [OF on_repo_db [OF k] that(2)] by simp
  qed
  have expired: "idem_row (w_repo v') k = Some r"
    if p: "expireIdempotencyKeys ?c now2 st v = (e, st', v')" "pg_good (w_repo v)" "idem_row (w_repo v) k = Some r"
    for st v e st' v'
  proof -
    consider "v' = v" | y where "\<not> ttl <=s 0" "on_repo (pg_PurgeIdempotencyKeys (time_before now2 ttl)) v = (y, v')"
      using p(1) by (auto simp: expireIdempotencyKeys_def gc_New_def split: if_splits sum.splits prod.splits)
    then show ?thesis
    proof cases
      case 2
      show ?thesis
        using idem_row_purge_keys [OF on_repo_db [OF 2(2)] p(2), of k] p(3) young 2(1) by auto
    qed (use p(3) in simp)
  qed
  show ?thesis
  proof (cases e1)
    case (Some e)
    then show ?thesis
      using assms(1) d w1 row by (simp add: RunOnce_def calm_def)
  next
    case None
    obtain e2 st2 w2 where o: "reclaimOrphans ?c (\<lambda>j. ctx (n1 + j)) now1 st1 w1 = (e2, st2, w2)"
      by (metis prod_cases3)
    have w2: "pg_good (w_repo w2)" "idem_row (w_repo w2) k = Some r"
      using orphans [OF o] w1 row by (simp_all add: calm_def)
    obtain e3 st3 w3 where x: "expireIdempotencyKeys ?c now2 st2 w2 = (e3, st3, w3)"
      by (metis prod_cases3)
    then show ?thesis
      using assms(1) d o None w2 expired [OF x] by (cases e2) (auto simp: RunOnce_def)
  qed
qed

section \<open>Retries within the time to live\<close>

text \<open>
  Calls of the service, sweeps of the collector that do not take a key of age \<open>t\<close> for expired, and
  the passing of time.
\<close>

inductive key_step ::
  "libs \<Rightarrow> (string \<Rightarrow> string option) \<Rightarrow> (memstore, db) collector \<Rightarrow> int \<Rightarrow>
    (memstore, db) world \<Rightarrow> (memstore, db) world \<Rightarrow> bool"
  for L :: libs and canon :: "string \<Rightarrow> string option" and c :: "(memstore, db) collector" and t :: int where
  key_call: "service_step L (model canon) w w' \<Longrightarrow> key_step L canon c t w w'"
| key_sweep: "RunOnce c ctx now1 now2 w = (r, w') \<Longrightarrow>
    co_idemTTL c <=s 0 \<or> time_before now2 (co_idemTTL c) \<le> t \<Longrightarrow> key_step L canon c t w w'"
| key_clock: "key_step L canon c t w (set_clock u w)"

text \<open>The identifiers that the process draws are of different files.\<close>

definition distinct_ids :: "(string \<Rightarrow> string option) \<Rightarrow> (nat \<Rightarrow> string res) \<Rightarrow> bool" where
  "distinct_ids canon u \<longleftrightarrow>
     (\<forall>m n i j c. u m = Inr i \<and> u n = Inr j \<and> canon i = Some c \<and> canon j = Some c \<longrightarrow> m = n)"

text \<open>
  The key is completed with its file, and the row of that identifier is the one of that file, unless it
  has been purged.
\<close>

definition first_kept ::
  "(string \<Rightarrow> string option) \<Rightarrow> string \<Rightarrow> File \<Rightarrow> string \<Rightarrow> int \<Rightarrow> (memstore, db) world \<Rightarrow> bool" where
  "first_kept canon key f c t w \<longleftrightarrow>
     fs.good w \<and> canon (f_ID f) = Some c \<and>
     idem_row (w_repo w) key =
       Some \<lparr>k_Key = key, k_FileID = Some (f_ID f), k_Status = IdempotencyCompleted, k_CreatedAt = t\<rparr> \<and>
     (\<forall>g. pg_rows (w_repo w) c = Some g \<longrightarrow> f_StorageKey g = f_StorageKey f) \<and>
     distinct_ids canon (w_uuids w) \<and> (\<exists>n<w_next w. w_uuids w n = Inr (f_ID f))"

lemma kept_call:
  assumes kept: "first_kept canon key f c t w" and step: "service_step L (model canon) w w'"
  shows "first_kept canon key f c t w'"
proof -
  have w: "fs.good w" "pg_good (w_repo w)"
    using kept by (simp_all add: first_kept_def fs.good_def)
  have good: "fs.good w'"
    using fs.step_kept [OF step w(1)] by blast
  have row: "idem_row (w_repo w') key = idem_row (w_repo w) key"
    using call_row [OF step w(2)] kept by (simp add: first_kept_def)
  note fresh = fs.step_fresh [OF step w(1), of c]
  have same: "w_uuids w' = w_uuids w" "w_next w \<le> w_next w'"
    using fresh by (simp_all add: same_supply_def)
  have "f_StorageKey g = f_StorageKey f" if g: "pg_rows (w_repo w') c = Some g" for g
  proof (cases "pg_rows (w_repo w) c")
    case (Some h)
    then show ?thesis
      using fs.step_kept [OF step w(1)] g kept by (fastforce simp: first_kept_def)
  next
    case None
    then obtain n i where "w_next w \<le> n" "w_uuids w n = Inr i" "canon i = Some c"
      using fresh g by auto
    with kept have False
      unfolding first_kept_def distinct_ids_def by (metis linorder_not_less)
    then show ?thesis ..
  qed
  moreover have "\<exists>n<w_next w'. w_uuids w n = Inr (f_ID f)"
    using kept same(2) unfolding first_kept_def by (meson order_less_le_trans)
  ultimately show ?thesis
    using kept good row same(1) by (simp add: first_kept_def)
qed

lemma kept_step:
  assumes kept: "first_kept canon key f c t w"
    and step: "key_step L canon (gc_model canon iv gr ttl) t w w'"
  shows "first_kept canon key f c t w'"
  using step
proof cases
  case key_call
  then show ?thesis
    by (rule kept_call [OF kept])
next
  case (key_sweep ctx now1 now2 r)
  have w: "fs.good w" "pg_good (w_repo w)"
    using kept by (simp_all add: first_kept_def fs.good_def)
  have "idem_row (w_repo w') key = idem_row (w_repo w) key"
    using sweep_row [OF key_sweep(1) w(2)] key_sweep(2) kept by (simp add: first_kept_def gc_New_def)
  moreover have "sweep.shrunk (sweep.dead_keys w \<union> sweep.stale (time_before now1 gr) w) w w'"
    by (rule sweep.RunOnce_shrunk [OF key_sweep(1) w(1)])
  then have "fs.good w' \<and> same_supply w w' \<and>
      (pg_rows (w_repo w') c = pg_rows (w_repo w) c \<or> pg_rows (w_repo w') c = None)"
    unfolding sweep.shrunk_def by metis
  ultimately show ?thesis
    using kept unfolding first_kept_def same_supply_def by (auto intro: order_less_le_trans)
next
  case (key_clock u)
  then show ?thesis
    using kept by (auto simp: first_kept_def set_clock_def fs.good_def m_sane_def pg_good_def tables_ok_def
        acked_def pg_rows_def idem_row_def)
qed

section \<open>The first upload\<close>

lemma created_row:
  assumes "Service_UploadIdempotent L (pg_service B canon) key inp w = (Inr (g, False), b, w')"
    and "pg_good (w_repo w)"
  shows "\<exists>r. idem_row (w_repo w') key = Some r \<and> k_Key r = key \<and> k_Status r = IdempotencyCompleted \<and>
    k_CreatedAt r = d_now (w_repo w)"
proof -
  let ?sv = "pg_service B canon"
  obtain p w1 f b2 w2 where s: "on_repo (r_ClaimIdempotencyKey (pg_repo canon) key) w = (Inr (True, p), w1)"
    "stage L ?sv inp w1 = (Inr f, b2, w2)" "on_repo (r_CreateForKey (pg_repo canon) f key) w2 = (Inr g, w')"
    using assms(1) by (auto simp: Service_UploadIdempotent_def split: sum.splits prod.splits bool.splits)
  have c: "pg_ClaimIdempotencyKey key (w_repo w) = (Inr (True, p), w_repo w1)"
    "pg_CreateForKey canon f key (w_repo w1) = (Inr g, w_repo w')"
    using on_repo_db [OF s(1)] on_repo_db [OF s(3)] stage_repo [OF s(2)] by simp_all
  have "acked (w_repo w1)"
    using pg_Claim_cases [OF c(1) assms(2)] by (simp add: pg_good_def)
  from idem_row_complete [OF c(2) this] idem_row_claim [OF c(1)] assms(2) show ?thesis
    by (auto simp: pg_good_def)
qed

lemma first_kept_upload:
  assumes "Service_UploadIdempotent L (model canon) key inp w = (Inr (f, False), b, w1)"
    and "fs.good w" and "honest_input inp" and "distinct_ids canon (w_uuids w)"
  obtains c where "first_kept canon key f c (d_now (w_repo w)) w1"
proof -
  obtain r where r: "idem_row (w_repo w1) key = Some r" "k_Key r = key" "k_Status r = IdempotencyCompleted"
    "k_CreatedAt r = d_now (w_repo w)"
    using created_row [OF assms(1)] assms(2) by (auto simp: fs.good_def)
  have st: "fs.stored canon L inp w f w1"
    using assms(1-3) by (cases rule: fs.UploadIdempotent_cases) simp_all
  obtain c where c: "canon (f_ID f) = Some c" "fs.good w1"
    "pg_rows (w_repo w1) c = Some (f\<lparr>f_ID := c, f_DeletedAt := None\<rparr>)"
    "pg_claims (w_repo w1) key = Some \<lparr>ir_Status = IdempotencyCompleted, ir_FileID = Some (f_ID f)\<rparr>"
    using first_upload [OF assms(1-3)] by blast
  then have "k_FileID r = Some (f_ID f)"
    using r(1) by (simp add: pg_claims_def idem_row_def)
  with r have "idem_row (w_repo w1) key = Some \<lparr>k_Key = key, k_FileID = Some (f_ID f),
      k_Status = IdempotencyCompleted, k_CreatedAt = d_now (w_repo w)\<rparr>"
    by (cases r) simp
  moreover have "w_uuids w1 = w_uuids w" "w_next w1 = Suc (Suc (w_next w))" "w_uuids w (w_next w) = Inr (f_ID f)"
    using st by (simp_all add: fs.stored_def)
  ultimately have "first_kept canon key f c (d_now (w_repo w)) w1"
    using c assms(4) by (auto simp: first_kept_def intro!: exI [of _ "w_next w"])
  then show thesis
    by (rule that)
qed

lemma first_kept_later:
  assumes "Service_UploadIdempotent L (model canon) key inp w = (Inr (f, False), b, w1)"
    and "fs.good w" and "honest_input inp" and "distinct_ids canon (w_uuids w)"
    and "(key_step L canon (gc_model canon iv gr ttl) (d_now (w_repo w)))\<^sup>*\<^sup>* w1 w2"
  obtains c where "first_kept canon key f c (d_now (w_repo w)) w2"
proof -
  obtain c where c: "first_kept canon key f c (d_now (w_repo w)) w1"
    by (rule first_kept_upload [OF assms(1-4)])
  have "first_kept canon key f c (d_now (w_repo w)) w2"
    using assms(5) by (induction rule: rtranclp_induct) (use c kept_step in blast)+
  then show thesis
    by (rule that)
qed

lemma first_keptD:
  assumes "first_kept canon key f c t w"
  shows "fs.good w" "canon (f_ID f) = Some c" "pg_rows (w_repo w) c = Some g \<Longrightarrow> f_StorageKey g = f_StorageKey f"
    "pg_claims (w_repo w) key = Some \<lparr>ir_Status = IdempotencyCompleted, ir_FileID = Some (f_ID f)\<rparr>"
  using assms by (auto simp: first_kept_def idem_row_def pg_claims_def)

text \<open>C7. A retry within the key's time to live never stores a second file.  Once an upload under an
  idempotency key has succeeded, then after any further calls, sweeps and passing of time, as long
  as no sweep has taken the key for expired, a call with the same key adds no record, and if it
  answers, it has not read its body or touched an object and answers with the first file.  This
  assumes a database that loses no acknowledgement and identifiers that do not repeat; it holds also
  when the first file has been deleted and its row purged.\<close>

theorem retry_never_duplicates:
  assumes "Service_UploadIdempotent L (model canon) key inp w = (Inr (f, False), b, w1)"
    and "fs.good w" and "honest_input inp" and "distinct_ids canon (w_uuids w)"
    and "(key_step L canon (gc_model canon iv gr ttl) (d_now (w_repo w)))\<^sup>*\<^sup>* w1 w2"
    and "Service_UploadIdempotent L (model canon) key inp' w2 = (x, b', w3)" and "honest_input inp'"
  shows "pg_rows (w_repo w3) = pg_rows (w_repo w2) \<and>
    (case x of
       Inl _ \<Rightarrow> True
     | Inr (g, replayed) \<Rightarrow>
         replayed \<and> b' = in_Body inp' \<and> m_map (w_store w3) = m_map (w_store w2) \<and>
         canon (f_ID f) = Some (f_ID g) \<and> f_StorageKey g = f_StorageKey f)"
proof -
  obtain c where "first_kept canon key f c (d_now (w_repo w)) w2"
    by (rule first_kept_later [OF assms(1-5)])
  note later = first_keptD [OF this]
  from fs.retry_cases [OF later(4) assms(6) later(1) assms(7)] later(2,3) show ?thesis
    by (auto split: sum.splits dest: pg_rows_SomeD)
qed

text \<open>The key of the demonstration, and a sweep within its time to live.\<close>

lemma demo_ids: "distinct_ids Some (w_uuids demo_start)"
  using demo_distinct by (auto simp: distinct_ids_def distinct_supply_def demo_start_def start_def)

theorem retry_never_duplicates_witness:
  "\<exists>f b w r w2 x b' w3. Service_UploadIdempotent demo_libs (model Some) ''k'' demo_input demo_start =
      (Inr (f, False), b, w) \<and>
    RunOnce (gc_model Some 1 0 10) background 5 5 w = (r, w2) \<and>
    Service_UploadIdempotent demo_libs (model Some) ''k'' demo_input w2 = (x, b', w3) \<and>
    pg_rows (w_repo w3) = pg_rows (w_repo w2)"
proof -
  obtain f b w h where up: "Service_UploadIdempotent demo_libs (model Some) ''k'' demo_input demo_start =
      (Inr (f, False), b, w)"
    by (rule demo_retry)
  obtain r w2 where s: "RunOnce (gc_model Some 1 0 10) background 5 5 w = (r, w2)"
    by (metis surj_pair)
  obtain x b' w3 where retry: "Service_UploadIdempotent demo_libs (model Some) ''k'' demo_input w2 = (x, b', w3)"
    by (metis prod_cases3)
  have "time_before 5 10 \<le> d_now (w_repo demo_start)"
    by (simp add: time_before_def demo_start_def start_def)
  then have "key_step demo_libs Some (gc_model Some 1 0 10) (d_now (w_repo demo_start)) w w2"
    by (intro key_sweep [OF s]) (simp add: gc_New_def)
  then have "(key_step demo_libs Some (gc_model Some 1 0 10) (d_now (w_repo demo_start)))\<^sup>*\<^sup>* w w2" ..
  from retry_never_duplicates [OF up demo_good(1,3) demo_ids this retry demo_good(3)] show ?thesis
    using up s retry by blast
qed

text \<open>C20. Within the key's time to live, and from a database that answers, a retry gets the first file
  as long as it is live, and \<open>ErrIdempotencyResultGone\<close> once it has been deleted, whether its row has
  been purged or not; in between there may be any calls, sweeps and passing of time, as long as no
  sweep takes the key for expired.  The retry changes nothing and does not read its body.\<close>

theorem retry_replays_or_gone:
  assumes "Service_UploadIdempotent L (model canon) key inp w = (Inr (f, False), b, w1)"
    and "fs.good w" and "honest_input inp" and "distinct_ids canon (w_uuids w)"
    and "(key_step L canon (gc_model canon iv gr ttl) (d_now (w_repo w)))\<^sup>*\<^sup>* w1 w2" and "quiet w2"
  shows "\<exists>c. canon (f_ID f) = Some c \<and>
    (\<forall>g. pg_rows (w_repo w2) c = Some g \<longrightarrow> f_StorageKey g = f_StorageKey f) \<and>
    Service_UploadIdempotent L (model canon) key inp' w2 =
      (case pg_rows (w_repo w2) c of
         Some g \<Rightarrow> if live g then Inr (g, True) else Inl IdempotencyResultGone
       | None \<Rightarrow> Inl IdempotencyResultGone, in_Body inp', w2)"
proof -
  obtain c where "first_kept canon key f c (d_now (w_repo w)) w2"
    by (rule first_kept_later [OF assms(1-5)])
  note later = first_keptD [OF this]
  show ?thesis
    using retry_quiet [where canon = canon, OF later(1) assms(6) later(2,4), of L inp'] later(2,3) by blast
qed

theorem retry_replays_or_gone_witness:
  "\<exists>f b w g. Service_UploadIdempotent demo_libs (model Some) ''k'' demo_input demo_start =
      (Inr (f, False), b, w) \<and> live g \<and> f_StorageKey g = f_StorageKey f \<and>
    Service_UploadIdempotent demo_libs (model Some) ''k'' demo_input (set_clock 5 w) =
      (Inr (g, True), in_Body demo_input, set_clock 5 w)"
proof -
  obtain f b w where up: "Service_UploadIdempotent demo_libs (model Some) ''k'' demo_input demo_start =
      (Inr (f, False), b, w)" "quiet w"
    using demo_idempotent by blast
  let ?w = "set_clock 5 w" and ?g = "f\<lparr>f_DeletedAt := None\<rparr>"
  have "(key_step demo_libs Some (gc_model Some 1 0 10) (d_now (w_repo demo_start)))\<^sup>*\<^sup>* w ?w"
    by (rule r_into_rtranclp) (rule key_clock)
  moreover have "quiet ?w"
    using up(2) by (simp add: quiet_def set_clock_def)
  moreover have "pg_rows (w_repo ?w) (f_ID f) = Some ?g"
    using first_upload [OF up(1) demo_good(1,3)] by (cases f) (auto simp: set_clock_def pg_rows_def)
  ultimately have "Service_UploadIdempotent demo_libs (model Some) ''k'' demo_input ?w =
      (Inr (?g, True), in_Body demo_input, ?w)"
    using retry_replays_or_gone [OF up(1) demo_good(1,3) demo_ids, of 1 0 10 ?w demo_input] by auto
  then show ?thesis
    using up(1) by (intro exI [of _ f] exI [of _ b] exI [of _ w] exI [of _ ?g]) simp
qed

end
