(* ===== verification/ApiCodec.thy ===== *)
theory ApiCodec
  imports Http
begin

text \<open>
  \<open>internal/api/json.go\<close> and the parsing half of \<open>internal/api/metadata.go\<close>: the JSON shapes
  of the responses, the mapping of errors to statuses, and the reading of tags, limits and
  names from a request.  A \<open>map[string]any\<close> is an association list whose order stands for
  the order in which Go iterates.
\<close>

section \<open>json.go\<close>

definition idempotencyRetryAfterSeconds :: nat where
  "idempotencyRetryAfterSeconds = 30"

record fileResponse =
  fr_ID :: string
  fr_Filename :: string
  fr_ContentType :: string
  fr_SizeBytes :: int64
  fr_Checksum :: string
  fr_Metadata :: "tags option"
  fr_CreatedAt :: int
  fr_UpdatedAt :: "int option"

definition toResponse :: "File \<Rightarrow> fileResponse" where
  "toResponse f =
     \<lparr>fr_ID = f_ID f, fr_Filename = f_Filename f, fr_ContentType = f_ContentType f,
      fr_SizeBytes = f_SizeBytes f, fr_Checksum = f_Checksum f, fr_Metadata = f_Metadata f,
      fr_CreatedAt = f_CreatedAt f, fr_UpdatedAt = f_UpdatedAt f\<rparr>"

text \<open>The struct tags: \<open>checksum_sha256\<close> and \<open>metadata\<close> are left out when empty.\<close>

definition fileResponse_json :: "weblibs \<Rightarrow> fileResponse \<Rightarrow> json" where
  "fileResponse_json W r = JObj (
     [(''id'', JStr (fr_ID r)), (''filename'', JStr (fr_Filename r)),
      (''content_type'', JStr (fr_ContentType r)), (''size_bytes'', JNum (of_int (sint (fr_SizeBytes r))))] @
     (if fr_Checksum r = [] then [] else [(''checksum_sha256'', JStr (fr_Checksum r))]) @
     (case fr_Metadata r of None \<Rightarrow> [] | Some t \<Rightarrow> if t = [] then [] else [(''metadata'', JObj t)]) @
     [(''created_at'', JStr (wl_RFC3339 W (fr_CreatedAt r))),
      (''updated_at'', case fr_UpdatedAt r of None \<Rightarrow> JNull | Some t \<Rightarrow> JStr (wl_RFC3339 W t))])"

definition writeJSON :: "nat \<Rightarrow> json \<Rightarrow> exchange \<Rightarrow> exchange" where
  "writeJSON status v x =
     http_Write (Json v)
       (statusWriter_WriteHeader status
         (header_Set ''Content-Type'' ''application/json; charset=utf-8'' x))"

definition errorBody :: "string \<Rightarrow> json" where
  "errorBody msg = JObj [(''error'', JStr msg)]"

definition writeClientError :: "nat \<Rightarrow> string \<Rightarrow> exchange \<Rightarrow> exchange" where
  "writeClientError status msg x = writeJSON status (errorBody msg) x"

definition writeError :: "goerr \<Rightarrow> exchange \<Rightarrow> exchange" where
  "writeError e x =
     (if errors_is e FilesNotFound then writeJSON 404 (errorBody (error_text e)) x
      else if errors_is e InvalidID then writeJSON 400 (errorBody (error_text e)) x
      else if errors_is e IdempotencyConflict then
        writeJSON 409 (errorBody (error_text e))
          (header_Set ''Retry-After'' (show_nat idempotencyRetryAfterSeconds) x)
      else if errors_is e IdempotencyResultGone then
        writeJSON 410
          (errorBody ''the file created under this Idempotency-Key was deleted; use a new key'') x
      else
        writeJSON 500 (errorBody ''internal server error'') (log_entry (LogError ''request failed'' e) x))"

text \<open>A panic below the handler is no error value: it passes the handler by.\<close>

definition handle_error :: "goerr \<Rightarrow> exchange \<Rightarrow> exchange" where
  "handle_error e x = (case e of Panicked msg \<Rightarrow> panic msg x | _ \<Rightarrow> writeError e x)"

section \<open>Tags, limits and names\<close>

definition tagPrefix :: string where
  "tagPrefix = ''tag.''"

definition listDefaultLimit_api :: int64 where
  "listDefaultLimit_api = 50"

definition listMaxLimit_api :: int64 where
  "listMaxLimit_api = 500"

fun tagParams :: "(string \<times> string list) list \<Rightarrow> tags" where
  "tagParams [] = []"
| "tagParams ((key, vals) # q) =
     (case cut_prefix key tagPrefix of
        (name, ok) \<Rightarrow>
          (case vals of
             v # _ \<Rightarrow> if ok \<and> name \<noteq> [] then (name, JStr v) # tagParams q else tagParams q
           | [] \<Rightarrow> tagParams q))"

definition uploadTags :: "weblibs \<Rightarrow> request \<Rightarrow> tags option res" where
  "uploadTags W rq =
     (let h = header_Get (rq_Header rq) ''X-Metadata'';
          decoded = (if h = [] then Inr (Some [])
                     else case json_Unmarshal W h (Some []) of
                            Inl e \<Rightarrow> Inl (Wrapped ''X-Metadata must be a JSON object'' e)
                          | Inr t \<Rightarrow> Inr t)
      in case decoded of
           Inl e \<Rightarrow> Inl e
         | Inr tags \<Rightarrow>
             (case maps_Copy tags (tagParams (rq_Query rq)) of
                Inl e \<Rightarrow> Inl e
              | Inr tags \<Rightarrow> Inr (if (case tags of None \<Rightarrow> [] | Some t \<Rightarrow> t) = [] then None else tags)))"

definition atoiDefault :: "string \<Rightarrow> int64 \<Rightarrow> num_error + int64" where
  "atoiDefault s d = (if s = [] then Inr d else parse_int64 s)"

definition clampLimit :: "int64 \<Rightarrow> int64" where
  "clampLimit limit =
     (if limit <=s 0 then listDefaultLimit_api else if listMaxLimit_api <s limit then listMaxLimit_api else limit)"

definition uploadFilename :: "weblibs \<Rightarrow> request \<Rightarrow> string" where
  "uploadFilename W rq =
     (let q = values_Get (rq_Query rq) ''filename'';
          cd = header_Get (rq_Header rq) ''Content-Disposition''
      in if q \<noteq> [] then q
         else if cd \<noteq> [] then
           (case wl_ParseMediaType W cd of
              Inr (_, params) \<Rightarrow> header_Get params ''filename''
            | Inl _ \<Rightarrow> [])
         else [])"

definition setDownloadHeaders :: "weblibs \<Rightarrow> File \<Rightarrow> exchange \<Rightarrow> exchange" where
  "setDownloadHeaders W f x =
     (let x = header_Set ''Content-Type'' (f_ContentType f) x;
          x = header_Set ''Accept-Ranges'' ''bytes'' x;
          x = header_Set ''Content-Disposition''
                (wl_FormatMediaType W ''attachment'' [(''filename'', f_Filename f)]) x
      in if f_Checksum f \<noteq> [] then header_Set ''X-Checksum-Sha256'' (f_Checksum f) x else x)"

record listResponse =
  lr_Files :: "fileResponse list"
  lr_Limit :: int64
  lr_Count :: nat
  lr_NextCursor :: string

definition listResponse_json :: "weblibs \<Rightarrow> listResponse \<Rightarrow> json" where
  "listResponse_json W r = JObj (
     [(''files'', JArr (map (fileResponse_json W) (lr_Files r))),
      (''limit'', JNum (of_int (sint (lr_Limit r)))), (''count'', JNum (of_nat (lr_Count r)))] @
     (if lr_NextCursor r = [] then [] else [(''next_cursor'', JStr (lr_NextCursor r))]))"

end
