(* ===== verification/RangeHeader.thy ===== *)
theory RangeHeader
  imports GoStd
begin

text \<open>
  \<open>internal/api/range.go\<close>: the parser of the HTTP \<open>Range\<close> header.  \<open>parseSingleRange\<close>
  follows the code line by line on 64-bit integers.  The reference it is compared with is
  the byte-range grammar of RFC 9110, as a datatype with a printer (\<open>show_spec\<close>) and a
  set semantics (\<open>selects\<close>, the byte positions a range names in an object).
\<close>

section \<open>The parser\<close>

datatype rangeOutcome = rangeIgnore | rangeUnsatisfiable | rangeOK

text \<open>The three forms, once their numbers are parsed: \<open>-n\<close>, \<open>start-\<close> and \<open>start-stop\<close>.\<close>

definition suffix_form :: "int64 \<Rightarrow> int64 \<Rightarrow> int64 \<times> int64 \<times> rangeOutcome" where
  "suffix_form n sz =
     (if n <s 0 then (0, 0, rangeIgnore)
      else if n = 0 \<or> sz = 0 then (0, 0, rangeUnsatisfiable)
      else let n = (if sz <s n then sz else n) in (sz - n, n, rangeOK))"

definition open_form :: "int64 \<Rightarrow> int64 \<Rightarrow> int64 \<times> int64 \<times> rangeOutcome" where
  "open_form start sz =
     (if sz <=s start then (0, 0, rangeUnsatisfiable) else (start, sz - start, rangeOK))"

definition closed_form :: "int64 \<Rightarrow> int64 \<Rightarrow> int64 \<Rightarrow> int64 \<times> int64 \<times> rangeOutcome" where
  "closed_form start stop sz =
     (if stop <s start then (0, 0, rangeIgnore)
      else if sz <=s start then (0, 0, rangeUnsatisfiable)
      else let stop = (if sz <=s stop then sz - 1 else stop)
           in (start, stop - start + 1, rangeOK))"

definition parseSingleRange :: "string \<Rightarrow> int64 \<Rightarrow> int64 \<times> int64 \<times> rangeOutcome" where
  "parseSingleRange header sz =
     (if \<not> has_prefix header ''bytes='' then (0, 0, rangeIgnore)
      else
        let whole = trim_prefix header ''bytes='';
            first = (case index_byte whole (CHR '','') of Some i \<Rightarrow> take i whole | None \<Rightarrow> whole);
            (startStr, endStr, found) = cut_byte (trim_space first) (CHR ''-'')
        in if \<not> found then (0, 0, rangeIgnore)
           else if startStr = '''' then
             (case parse_int64 endStr of
                Inl _ \<Rightarrow> (0, 0, rangeIgnore)
              | Inr n \<Rightarrow> suffix_form n sz)
           else
             (case parse_int64 startStr of
                Inl _ \<Rightarrow> (0, 0, rangeIgnore)
              | Inr start \<Rightarrow>
                  if start <s 0 then (0, 0, rangeIgnore)
                  else if endStr = '''' then open_form start sz
                  else
                    (case parse_int64 endStr of
                       Inl _ \<Rightarrow> (0, 0, rangeIgnore)
                     | Inr stop \<Rightarrow> closed_form start stop sz)))"

text \<open>An accepted range comes from one of the three forms, on a non-negative start.\<close>

lemma parseSingleRange_OK_cases:
  assumes "parseSingleRange header sz = (offset, len, rangeOK)"
  obtains (suffix) n where "suffix_form n sz = (offset, len, rangeOK)"
  | (openend) start where "0 \<le> sint start" "open_form start sz = (offset, len, rangeOK)"
  | (closed) start stop where "0 \<le> sint start" "closed_form start stop sz = (offset, len, rangeOK)"
  using assms
  by (auto simp: parseSingleRange_def Let_def sint64_less_iff not_less
      split: if_splits sum.splits prod.splits)

section \<open>Bounds\<close>

text \<open>
  What \<open>GetRange\<close> is called with: a non-empty window inside the object, whose end is
  computed without wrapping.
\<close>

definition in_object :: "int64 \<Rightarrow> int64 \<Rightarrow> int64 \<Rightarrow> bool" where
  "in_object offset len sz \<longleftrightarrow>
     0 \<le> sint offset \<and> 0 < sint len \<and> sint offset + sint len \<le> sint sz \<and>
     sint (offset + len) = sint offset + sint len"

lemma in_objectI:
  "0 \<le> sint offset \<Longrightarrow> 0 < sint len \<Longrightarrow> sint offset + sint len \<le> sint sz \<Longrightarrow>
    in_object offset len sz"
  unfolding in_object_def using sint64_upper [of sz] by (auto intro!: sint64_add)

lemma sint_nat [simp]: "n < 2 ^ 63 \<Longrightarrow> sint (word_of_nat n :: int64) = int n"
  using sint64_of_int [of "int n"] by simp

lemma sint64_pos: "sz \<noteq> 0 \<Longrightarrow> 0 \<le> sint (sz :: int64) \<Longrightarrow> 0 < sint sz"
  using sint64_eq_iff [of sz 0] by (simp add: order_less_le)

lemma sint_window:
  assumes "0 \<le> sint start" and "sint start \<le> sint stop" and "sint stop < sint (sz :: int64)"
  shows "sint (stop - start + 1 :: int64) = sint stop - sint start + 1"
proof -
  have "sint (stop - start) = sint stop - sint start"
    using assms by (intro sint64_sub_nonneg) auto
  then show ?thesis
    using assms sint64_upper [of sz] by (subst sint64_add) auto
qed

lemma suffix_form_OK:
  assumes "0 \<le> sint sz" and "suffix_form n sz = (offset, len, rangeOK)"
  shows "in_object offset len sz \<and> sint len = min (sint n) (sint sz) \<and>
    sint offset = sint sz - sint len"
proof -
  have c: "0 < sint sz" "0 < sint n" "len = (if sz <s n then sz else n)" "offset = sz - len"
    using assms sint64_pos [of sz] sint64_pos [of n]
    by (auto simp: suffix_form_def Let_def sint64_less_iff split: if_splits)
  then have l: "0 < sint len" "sint len = min (sint n) (sint sz)"
    by (auto simp: sint64_less_iff)
  then have "sint offset = sint sz - sint len"
    using c by (simp add: sint64_sub_nonneg)
  with l show ?thesis by (auto intro!: in_objectI)
qed

lemma open_form_OK:
  assumes "0 \<le> sint start" and "open_form start sz = (offset, len, rangeOK)"
  shows "in_object offset len sz \<and> offset = start \<and> sint offset + sint len = sint sz"
  using assms
  by (auto simp: open_form_def int64_simps intro!: in_objectI split: if_splits)

lemma closed_form_OK:
  assumes "0 \<le> sint start" and "closed_form start stop sz = (offset, len, rangeOK)"
  shows "in_object offset len sz \<and> offset = start \<and>
    sint offset + sint len = min (sint stop + 1) (sint sz)"
proof -
  define e where "e = (if sz <=s stop then sz - 1 else stop)"
  have c: "sint start \<le> sint stop" "sint start < sint sz" "offset = start" "len = e - start + 1"
    using assms
    by (auto simp: closed_form_def Let_def e_def sint64_less_iff sint64_le_iff split: if_splits)
  have e: "sint start \<le> sint e" "sint e < sint sz" "sint e + 1 = min (sint stop + 1) (sint sz)"
    using c assms(1) by (auto simp: e_def sint64_le_iff sint_minus_one)
  have "sint len = sint e - sint start + 1"
    using sint_window [OF assms(1) e(1,2)] c by simp
  with c e assms(1) show ?thesis by (auto intro!: in_objectI)
qed

lemma in_object_served:
  assumes "0 \<le> sint sz" and "parseSingleRange header sz = (offset, len, rangeOK)"
  shows "in_object offset len sz"
  using assms(2)
  by (cases rule: parseSingleRange_OK_cases)
    (use assms(1) suffix_form_OK open_form_OK closed_form_OK in blast)+

lemma served_in_object:
  "parseSingleRange header (word_of_nat n) = (offset, len, rangeOK) \<Longrightarrow> n < 2 ^ 63 \<Longrightarrow>
    in_object offset len (word_of_nat n)"
  by (rule in_object_served) simp_all

text \<open>C31. Whatever the header, an accepted range is a non-empty window inside the object, and
  its end is computed without wrapping around.\<close>

theorem parseSingleRange_in_object:
  assumes "0 \<le> sint sz" and "parseSingleRange header sz = (offset, len, rangeOK)"
  shows "in_object offset len sz"
  using assms by (rule in_object_served)

theorem parseSingleRange_in_object_witness: "in_object 95 5 (100 :: int64)"
proof -
  have "parseSingleRange ''bytes=95-200'' 100 = (95, 5, rangeOK)"
    by (simp add: parseSingleRange_def closed_form_def parse_eval)
  then show ?thesis
    by (rule parseSingleRange_in_object [rotated]) simp
qed

section \<open>The grammar of RFC 9110\<close>

datatype byte_range = Closed nat nat | From nat | Suffix nat

fun show_spec :: "byte_range \<Rightarrow> string" where
  "show_spec (Closed a b) = show_nat a @ ''-'' @ show_nat b"
| "show_spec (From a) = show_nat a @ ''-''"
| "show_spec (Suffix k) = ''-'' @ show_nat k"

text \<open>The positions of an object of \<open>n\<close> bytes that a range names.\<close>

fun selects :: "byte_range \<Rightarrow> nat \<Rightarrow> nat set" where
  "selects (Closed a b) n = {i. i < n \<and> a \<le> i \<and> i \<le> b}"
| "selects (From a) n = {i. i < n \<and> a \<le> i}"
| "selects (Suffix k) n = {i. i < n \<and> n \<le> i + k}"

lemma selects_interval:
  "selects (Closed a b) n = {a..<min (b + 1) n}"
  "selects (From a) n = {a..<n}"
  "selects (Suffix k) n = {n - min k n..<n}"
  by auto

text \<open>Valid syntax (bounds in order) with numbers that an \<open>int64\<close> holds.\<close>

fun representable :: "byte_range \<Rightarrow> bool" where
  "representable (Closed a b) \<longleftrightarrow> a \<le> b \<and> b < 2 ^ 63"
| "representable (From a) \<longleftrightarrow> a < 2 ^ 63"
| "representable (Suffix k) \<longleftrightarrow> k < 2 ^ 63"

text \<open>What may follow the first range: nothing, or a comma and anything.\<close>

definition range_tail :: "string \<Rightarrow> bool" where
  "range_tail t \<longleftrightarrow> t = '''' \<or> hd t = CHR '',''"

lemma show_spec_plain [simp]: "list_all plain_char (show_spec r)"
  by (cases r) simp_all

lemma show_spec_no_comma [simp]: "CHR '','' \<notin> set (show_spec r)"
  by (cases r) simp_all

lemma first_range:
  assumes "CHR '','' \<notin> set s" and "range_tail t"
  shows "(case index_byte (s @ t) (CHR '','') of Some i \<Rightarrow> take i (s @ t) | None \<Rightarrow> s @ t) = s"
proof (cases t)
  case Nil
  then show ?thesis using assms by (simp add: index_byte_None)
next
  case (Cons c u)
  then show ?thesis using assms by (simp add: range_tail_def index_byte_append)
qed

definition parsed_spec :: "byte_range \<Rightarrow> int64 \<Rightarrow> int64 \<times> int64 \<times> rangeOutcome" where
  "parsed_spec r sz =
     (case r of
        Closed a b \<Rightarrow> closed_form (word_of_int (int a)) (word_of_int (int b)) sz
      | From a \<Rightarrow> open_form (word_of_int (int a)) sz
      | Suffix k \<Rightarrow> suffix_form (word_of_int (int k)) sz)"

lemma parseSingleRange_header:
  assumes "list_all plain_char s" and "CHR '','' \<notin> set s" and "range_tail t"
  shows "parseSingleRange (''bytes='' @ s @ t) sz =
    (let (startStr, endStr, found) = cut_byte s (CHR ''-'')
     in if \<not> found then (0, 0, rangeIgnore)
        else if startStr = '''' then
          (case parse_int64 endStr of Inl _ \<Rightarrow> (0, 0, rangeIgnore) | Inr n \<Rightarrow> suffix_form n sz)
        else
          (case parse_int64 startStr of
             Inl _ \<Rightarrow> (0, 0, rangeIgnore)
           | Inr start \<Rightarrow>
               if start <s 0 then (0, 0, rangeIgnore)
               else if endStr = '''' then open_form start sz
               else (case parse_int64 endStr of
                       Inl _ \<Rightarrow> (0, 0, rangeIgnore)
                     | Inr stop \<Rightarrow> closed_form start stop sz)))"
  using first_range [OF assms(2,3)] assms(1)
  by (simp add: parseSingleRange_def has_prefix_def trim_prefix_def)

lemma parseSingleRange_show_spec:
  assumes "representable r" and "range_tail t"
  shows "parseSingleRange (''bytes='' @ show_spec r @ t) sz = parsed_spec r sz"
  unfolding parseSingleRange_header [OF show_spec_plain show_spec_no_comma assms(2)]
  using assms(1) cut_byte_append [of "CHR ''-''" "[]"]
  by (cases r) (auto simp: parsed_spec_def int64_simps)

lemma parsed_Closed:
  assumes "a \<le> b" and "b < 2 ^ 63" and "n < 2 ^ 63"
  defines "p \<equiv> closed_form (word_of_nat a) (word_of_nat b) (word_of_nat n)"
  shows "if n \<le> a then p = (0, 0, rangeUnsatisfiable)
    else \<exists>len. p = (word_of_nat a, len, rangeOK) \<and> int a + sint len = int (min (b + 1) n)"
proof (cases "n \<le> a")
  case False
  then obtain off len where p: "p = (off, len, rangeOK)"
    using assms by (auto simp: p_def closed_form_def int64_simps Let_def)
  then have "off = word_of_nat a" "sint off + sint len = min (int b + 1) (int n)"
    using closed_form_OK [of "word_of_nat a" "word_of_nat b" "word_of_nat n"] assms by auto
  then show ?thesis
    using False p assms by auto
qed (use assms in \<open>auto simp: closed_form_def int64_simps\<close>)

lemma parsed_From:
  assumes "a < 2 ^ 63" and "n < 2 ^ 63"
  defines "p \<equiv> open_form (word_of_nat a) (word_of_nat n)"
  shows "if n \<le> a then p = (0, 0, rangeUnsatisfiable)
    else \<exists>len. p = (word_of_nat a, len, rangeOK) \<and> int a + sint len = int n"
  using assms by (auto simp: open_form_def int64_simps)

lemma parsed_Suffix:
  assumes "k < 2 ^ 63" and "n < 2 ^ 63"
  defines "p \<equiv> suffix_form (word_of_nat k) (word_of_nat n)"
  shows "if min k n = 0 then p = (0, 0, rangeUnsatisfiable)
    else \<exists>off len. p = (off, len, rangeOK) \<and> sint len = int (min k n) \<and>
      sint off = int n - int (min k n)"
proof (cases "min k n = 0")
  case True
  then have "k = 0 \<or> n = 0" by auto
  then show ?thesis
    using assms True by (auto simp: suffix_form_def int64_simps)
next
  case False
  then have "sint (word_of_nat k :: int64) \<noteq> sint (0 :: int64)"
    "sint (word_of_nat n :: int64) \<noteq> sint (0 :: int64)"
    using assms by auto
  then have "(word_of_nat k :: int64) \<noteq> 0" "(word_of_nat n :: int64) \<noteq> 0"
    by fastforce+
  then obtain off len where p: "p = (off, len, rangeOK)"
    using assms by (auto simp: p_def suffix_form_def int64_simps Let_def)
  with False show ?thesis
    using suffix_form_OK [of "word_of_nat n" "word_of_nat k" off len] assms by auto
qed

lemma served_selected:
  assumes "representable r" and "range_tail t" and "n < 2 ^ 63"
    and "parseSingleRange (''bytes='' @ show_spec r @ t) (word_of_nat n) = (off, len, out)"
  shows "out = (if selects r n = {} then rangeUnsatisfiable else rangeOK) \<and>
    {nat (sint off)..<nat (sint off + sint len)} = selects r n"
proof (cases r)
  case (Closed a b)
  then show ?thesis
    using assms parsed_Closed [of a b n] parseSingleRange_show_spec [OF assms(1,2)]
    by (auto simp: parsed_spec_def selects_interval simp del: selects.simps split: if_splits)
next
  case (From a)
  then show ?thesis
    using assms parsed_From [of a n] parseSingleRange_show_spec [OF assms(1,2)]
    by (auto simp: parsed_spec_def selects_interval simp del: selects.simps split: if_splits)
next
  case (Suffix k)
  then show ?thesis
    using assms parsed_Suffix [of k n] parseSingleRange_show_spec [OF assms(1,2)]
    by (auto simp: parsed_spec_def selects_interval simp del: selects.simps split: if_splits)
qed

lemma served_window:
  assumes "representable r" and "range_tail t" and "n < 2 ^ 63"
    and "parseSingleRange (''bytes='' @ show_spec r @ t) (word_of_nat n) = (off, len, rangeOK)"
  shows "in_object off len (word_of_nat n)" "selects r n = {nat (sint off)..<nat (sint off + sint len)}"
    "selects r n \<noteq> {}"
  using served_selected [OF assms] served_in_object [OF assms(4,3)] by (auto split: if_splits)

text \<open>Other specifications are ignored: bounds out of order, or a number beyond an \<open>int64\<close>.\<close>

lemma parse_int64_overflow:
  "2 ^ 63 \<le> b \<Longrightarrow> (case parse_int64 (show_nat b) of Inl _ \<Rightarrow> x | Inr n \<Rightarrow> f n) = x"
  using parse_int_overflow [of b] by (auto simp: parse_int64_def split: sum.splits)

lemma unrepresentable_ignored:
  assumes "\<not> representable r" and "range_tail t"
  shows "parseSingleRange (''bytes='' @ show_spec r @ t) sz = (0, 0, rangeIgnore)"
proof (cases r)
  case (Closed a b)
  consider "2 ^ 63 \<le> a" | "a < 2 ^ 63" "2 ^ 63 \<le> b" | "a < 2 ^ 63" "b < 2 ^ 63" "b < a"
    using assms(1) Closed by fastforce
  then show ?thesis
    unfolding Closed parseSingleRange_header [OF show_spec_plain show_spec_no_comma assms(2)]
    by cases (auto simp: closed_form_def int64_simps parse_int64_overflow)
next
  case (From a)
  with assms(1) parse_int64_overflow [of a] show ?thesis
    unfolding From parseSingleRange_header [OF show_spec_plain show_spec_no_comma assms(2)] by auto
next
  case (Suffix k)
  with assms(1) parse_int64_overflow [of k] cut_byte_append [of "CHR ''-''" "[]"] show ?thesis
    unfolding Suffix parseSingleRange_header [OF show_spec_plain show_spec_no_comma assms(2)] by auto
qed

text \<open>C32. A range specification of any of the three forms, first or alone in its header, is read in one
  of three ways.  If its bounds are in order and its positions are below \<open>2^63\<close>, the parser serves
  exactly the positions that RFC 9110 selects, and answers 416 exactly when there are none; every
  other one it ignores as if the header were malformed, also where the RFC selects bytes, as for a
  last position of \<open>2^63\<close> or more.\<close>

theorem parseSingleRange_serves_selected:
  assumes "range_tail t" and "n < 2 ^ 63"
    and "parseSingleRange (''bytes='' @ show_spec r @ t) (word_of_nat n) = (off, len, out)"
  shows "out = (if \<not> representable r then rangeIgnore
      else if selects r n = {} then rangeUnsatisfiable else rangeOK) \<and>
    {nat (sint off)..<nat (sint off + sint len)} = (if representable r then selects r n else {})"
proof (cases "representable r")
  case True
  then show ?thesis
    using served_selected [OF True assms] by simp
next
  case False
  then show ?thesis
    using unrepresentable_ignored [OF False assms(1)] assms(3) by simp
qed

theorem parseSingleRange_serves_selected_witness:
  "rangeOK = (if \<not> representable (Suffix 3) then rangeIgnore
      else if selects (Suffix 3) 10 = {} then rangeUnsatisfiable else rangeOK) \<and>
    {nat (sint (7 :: int64))..<nat (sint (7 :: int64) + sint (3 :: int64))} =
      (if representable (Suffix 3) then selects (Suffix 3) 10 else {})"
proof (rule parseSingleRange_serves_selected)
  show "parseSingleRange (''bytes='' @ show_spec (Suffix 3) @ '',0-1'') (word_of_nat 10) = (7, 3, rangeOK)"
    by (subst parseSingleRange_show_spec)
      (simp_all add: parsed_spec_def suffix_form_def range_tail_def word_sless_alt)
qed (simp_all add: range_tail_def)

section \<open>Departures from RFC 9110\<close>

text \<open>Signs that the grammar does not allow are accepted, because \<open>strconv.ParseInt\<close>
  accepts them: these headers are served as if the signs were not there.\<close>

theorem parseSingleRange_accepts_signs:
  "parseSingleRange ''bytes=+0-+9'' 100 = (0, 10, rangeOK) \<and>
   parseSingleRange ''bytes=0--0'' 100 = (0, 1, rangeOK) \<and>
   parseSingleRange ''bytes=-+5'' 100 = (95, 5, rangeOK) \<and>
   parseSingleRange ''bytes=--0'' 100 = (0, 0, rangeUnsatisfiable)"
  by (intro conjI)
    (simp_all add: parseSingleRange_def closed_form_def suffix_form_def parse_eval)

end
