(* ===== verification/ApiHandlers.thy ===== *)
theory ApiHandlers
  imports ApiCodec FilesService RangeHeader
begin

text \<open>
  The handlers of \<open>internal/api/files.go\<close> and \<open>metadata.go\<close>, each a function of its name
  (with \<open>h_\<close> before names that are taken) from a request, the exchange and the world to the
  exchange and the world it leaves; then \<open>health.go\<close>, and in \<open>api.go\<close> the router with its
  patterns and the instrumentation.
\<close>

section \<open>Uploading\<close>

record ('s, 'd, 'c) fileHandler =
  fh_svc :: "('s, 'd, 'c) service"
  fh_presignTTL :: int64
  fh_maxUpload :: int64

definition maxIdempotencyKeyLen :: nat where
  "maxIdempotencyKeyLen = 255"

definition writeTooLarge :: "('s, 'd, 'c) fileHandler \<Rightarrow> exchange \<Rightarrow> exchange" where
  "writeTooLarge h x =
     writeClientError 413 (''upload exceeds the '' @ show_int64 (fh_maxUpload h) @ ''-byte limit'') x"

text \<open>The body the service reads: capped when there is a cap.\<close>

definition capped_body :: "('s, 'd, 'c) fileHandler \<Rightarrow> request \<Rightarrow> body" where
  "capped_body h rq =
     (if 0 <s fh_maxUpload h then Limited (new_limitReader (rq_Body rq) (fh_maxUpload h))
      else Plain (rq_Body rq))"

definition upload_input :: "weblibs \<Rightarrow> ('s, 'd, 'c) fileHandler \<Rightarrow> request \<Rightarrow> tags option \<Rightarrow> uploadInput" where
  "upload_input W h rq tags =
     \<lparr>in_Filename = uploadFilename W rq, in_ContentType = header_Get (rq_Header rq) ''Content-Type'',
      in_Size = rq_ContentLength rq, in_Tags = tags, in_Body = capped_body h rq\<rparr>"

text \<open>With a key the guarded upload, without one the plain one, which replays nothing.\<close>

definition run_upload ::
  "libs \<Rightarrow> ('s, 'd, 'c) service \<Rightarrow> string \<Rightarrow> uploadInput \<Rightarrow> ('s, 'd) world \<Rightarrow>
    (File \<times> bool) res \<times> body \<times> ('s, 'd) world" where
  "run_upload L sv key inp w =
     (if key = [] then
        (case Service_Upload L sv inp w of (r, b, w') \<Rightarrow> (map_sum id (\<lambda>f. (f, False)) r, b, w'))
      else Service_UploadIdempotent L sv key inp w)"

definition h_upload ::
  "libs \<Rightarrow> weblibs \<Rightarrow> ('s, 'd, 'c) fileHandler \<Rightarrow> request \<Rightarrow> exchange \<Rightarrow> ('s, 'd) world \<Rightarrow>
    exchange \<times> ('s, 'd) world" where
  "h_upload L W h rq x w =
     (case uploadTags W rq of
        Inl (Panicked msg) \<Rightarrow> (panic msg x, w)
      | Inl e \<Rightarrow> (writeClientError 400 (error_text e) x, w)
      | Inr tags \<Rightarrow>
          (let key = header_Get (rq_Header rq) ''Idempotency-Key''
           in if maxIdempotencyKeyLen < length key then
                (writeClientError 400 ''Idempotency-Key too long'' x, w)
              else if 0 <s fh_maxUpload h \<and> fh_maxUpload h <s rq_ContentLength rq then
                (writeTooLarge h x, w)
              else
                (case run_upload L (fh_svc h) key (upload_input W h rq tags) w of
                   (Inl e, b, w') \<Rightarrow> (if exceeded b then writeTooLarge h x else handle_error e x, w')
                 | (Inr (f, replayed), b, w') \<Rightarrow>
                     (let x = (if replayed then header_Set ''Idempotency-Replayed'' ''true'' x else x);
                          x = header_Set ''Location'' (''/files/'' @ f_ID f) x
                      in (writeJSON 201 (fileResponse_json W (toResponse f)) x, w')))))"

section \<open>Downloading\<close>

definition downloadRedirect ::
  "libs \<Rightarrow> ('s, 'd, 'c) fileHandler \<Rightarrow> request \<Rightarrow> string \<Rightarrow> exchange \<Rightarrow> ('s, 'd) world \<Rightarrow>
    exchange \<times> ('s, 'd) world" where
  "downloadRedirect L h rq i x w =
     (case Service_Presign L (fh_svc h) i (fh_presignTTL h) w of
        (Inl e, w') \<Rightarrow> (handle_error e x, w')
      | (Inr (_, url), w') \<Rightarrow> (http_Redirect rq url 302 x, w'))"

definition downloadStream ::
  "libs \<Rightarrow> weblibs \<Rightarrow> ('s, 'd, 'c) fileHandler \<Rightarrow> request \<Rightarrow> string \<Rightarrow> exchange \<Rightarrow>
    ('s, 'd) world \<Rightarrow> exchange \<times> ('s, 'd) world" where
  "downloadStream L W h rq i x w =
     (case Service_Open L (fh_svc h) i w of
        (Inl e, w') \<Rightarrow> (handle_error e x, w')
      | (Inr (f, rc), w') \<Rightarrow>
          (let x = setDownloadHeaders W f x;
               x = header_Set ''Content-Length'' (show_int64 (f_SizeBytes f)) x;
               x = statusWriter_WriteHeader 200 x
           in case io_Copy (lib_sha256 L) rc of
                (bs, err) \<Rightarrow>
                  (let x = http_Write (Raw_bytes bs) x
                   in (case err of
                         None \<Rightarrow> x
                       | Some e \<Rightarrow>
                           if errors_is e ChecksumMismatch
                           then log_entry (LogError ''download integrity check failed'' e) x
                           else log_entry (LogWarn ''download stream interrupted'' e) x, w'))))"

definition downloadRange ::
  "libs \<Rightarrow> weblibs \<Rightarrow> ('s, 'd, 'c) fileHandler \<Rightarrow> request \<Rightarrow> string \<Rightarrow> exchange \<Rightarrow>
    ('s, 'd) world \<Rightarrow> exchange \<times> ('s, 'd) world" where
  "downloadRange L W h rq i x w =
     (case Service_Metadata L (fh_svc h) i w of
        (Inl e, w1) \<Rightarrow> (handle_error e x, w1)
      | (Inr f, w1) \<Rightarrow>
          (case parseSingleRange (header_Get (rq_Header rq) ''Range'') (f_SizeBytes f) of
             (_, _, rangeIgnore) \<Rightarrow>
               if values_Get (rq_Query rq) ''download'' = ''stream''
               then downloadStream L W h rq i x w1 else downloadRedirect L h rq i x w1
           | (_, _, rangeUnsatisfiable) \<Rightarrow>
               (writeClientError 416 ''unsatisfiable range''
                  (header_Set ''Content-Range'' (''bytes */'' @ show_int64 (f_SizeBytes f)) x), w1)
           | (offset, len, rangeOK) \<Rightarrow>
               (case Service_OpenRange (fh_svc h) f offset len w1 of
                  (Inl e, w2) \<Rightarrow> (handle_error e x, w2)
                | (Inr rc, w2) \<Rightarrow>
                    (let x = setDownloadHeaders W f x;
                         x = header_Set ''Content-Length'' (show_int64 len) x;
                         x = header_Set ''Content-Range''
                               (''bytes '' @ show_int64 offset @ ''-'' @ show_int64 (offset + len - 1) @
                                ''/'' @ show_int64 (f_SizeBytes f)) x;
                         x = statusWriter_WriteHeader 206 x
                     in case io_Copy (lib_sha256 L) (Raw rc) of
                          (bs, err) \<Rightarrow>
                            (let x = http_Write (Raw_bytes bs) x
                             in (case err of
                                   None \<Rightarrow> x
                                 | Some e \<Rightarrow> log_entry (LogWarn ''range stream interrupted'' e) x, w2))))))"

definition h_download ::
  "libs \<Rightarrow> weblibs \<Rightarrow> ('s, 'd, 'c) fileHandler \<Rightarrow> request \<Rightarrow> string \<Rightarrow> exchange \<Rightarrow>
    ('s, 'd) world \<Rightarrow> exchange \<times> ('s, 'd) world" where
  "h_download L W h rq i x w =
     (if header_Get (rq_Header rq) ''Range'' \<noteq> [] then downloadRange L W h rq i x w
      else if values_Get (rq_Query rq) ''download'' = ''stream'' then downloadStream L W h rq i x w
      else downloadRedirect L h rq i x w)"

section \<open>Metadata\<close>

definition h_metadata ::
  "libs \<Rightarrow> weblibs \<Rightarrow> ('s, 'd, 'c) fileHandler \<Rightarrow> string \<Rightarrow> exchange \<Rightarrow> ('s, 'd) world \<Rightarrow>
    exchange \<times> ('s, 'd) world" where
  "h_metadata L W h i x w =
     (case Service_Metadata L (fh_svc h) i w of
        (Inl e, w') \<Rightarrow> (handle_error e x, w')
      | (Inr f, w') \<Rightarrow> (writeJSON 200 (fileResponse_json W (toResponse f)) x, w'))"

definition h_delete ::
  "libs \<Rightarrow> ('s, 'd, 'c) fileHandler \<Rightarrow> string \<Rightarrow> exchange \<Rightarrow> ('s, 'd) world \<Rightarrow>
    exchange \<times> ('s, 'd) world" where
  "h_delete L h i x w =
     (case Service_Delete L (fh_svc h) i w of
        (Inl e, w') \<Rightarrow> (handle_error e x, w')
      | (Inr _, w') \<Rightarrow> (statusWriter_WriteHeader 204 x, w'))"

definition maxMetadataBodyBytes :: nat where
  "maxMetadataBodyBytes = 1048576"

definition h_patchMetadata ::
  "libs \<Rightarrow> weblibs \<Rightarrow> ('s, 'd, 'c) fileHandler \<Rightarrow> request \<Rightarrow> string \<Rightarrow> exchange \<Rightarrow>
    ('s, 'd) world \<Rightarrow> exchange \<times> ('s, 'd) world" where
  "h_patchMetadata L W h rq i x w =
     (case decode_capped W maxMetadataBodyBytes (rq_Body rq) None of
        Inl None \<Rightarrow>
          (writeClientError 413
             (''metadata body exceeds the '' @ show_nat maxMetadataBodyBytes @ ''-byte limit'') x, w)
      | Inl (Some e) \<Rightarrow> (writeClientError 400 (''body must be a JSON object: '' @ error_text e) x, w)
      | Inr None \<Rightarrow> (writeClientError 400 ''body must be a JSON object, not null'' x, w)
      | Inr (Some tags) \<Rightarrow>
          (case Service_UpdateMetadata L (fh_svc h) i tags
                  (values_Get (rq_Query rq) ''mode'' \<noteq> ''replace'') w of
             (Inl e, w') \<Rightarrow> (handle_error e x, w')
           | (Inr f, w') \<Rightarrow> (writeJSON 200 (fileResponse_json W (toResponse f)) x, w')))"

text \<open>The page that answers a list request.\<close>

definition page_response :: "int64 \<Rightarrow> File list \<Rightarrow> listResponse" where
  "page_response limit results =
     (let items = map toResponse results
      in \<lparr>lr_Files = items, lr_Limit = limit, lr_Count = length items,
          lr_NextCursor = (if int (length items) = sint limit then fr_ID (last items) else [])\<rparr>)"

definition h_list ::
  "libs \<Rightarrow> weblibs \<Rightarrow> ('s, 'd, 'c) fileHandler \<Rightarrow> request \<Rightarrow> exchange \<Rightarrow>
    ('s, 'd) world \<Rightarrow> exchange \<times> ('s, 'd) world" where
  "h_list L W h rq x w =
     (case atoiDefault (values_Get (rq_Query rq) ''limit'') 0 of
        Inl _ \<Rightarrow> (writeClientError 400 ''limit must be an integer'' x, w)
      | Inr n \<Rightarrow>
          (let limit = clampLimit n
           in case Service_List L (fh_svc h)
                     \<lparr>lf_ContentType = values_Get (rq_Query rq) ''content_type'',
                      lf_Tags = tagParams (rq_Query rq), lf_Limit = limit,
                      lf_Cursor = values_Get (rq_Query rq) ''cursor''\<rparr> w of
                (Inl e, w') \<Rightarrow> (handle_error e x, w')
              | (Inr results, w') \<Rightarrow>
                  (writeJSON 200 (listResponse_json W (page_response limit results)) x, w')))"

end
