(* ===== verification/MetricsRegistry.thy ===== *)
theory MetricsRegistry
  imports GoStd
begin

text \<open>
  \<open>internal/metrics/metrics.go\<close>: the metrics as they are declared, and the functions that record
  observations.  Recording appends the call to the client library to the list of \<open>sample\<close>s; the
  library panics on a call that does not fit the declaration (\<open>fits\<close>).
\<close>

section \<open>Declarations\<close>

datatype metricKind = CounterVec | HistogramVec

record metric =
  mt_Kind :: metricKind
  mt_Name :: string
  mt_Help :: string
  mt_Labels :: "string list"

definition httpRequests :: metric where
  "httpRequests = \<lparr>mt_Kind = CounterVec, mt_Name = ''cairnmark_http_requests_total'',
     mt_Help = ''HTTP requests served, by method, route pattern, and status code.'',
     mt_Labels = [''method'', ''pattern'', ''status'']\<rparr>"

definition httpDuration :: metric where
  "httpDuration = \<lparr>mt_Kind = HistogramVec, mt_Name = ''cairnmark_http_request_duration_seconds'',
     mt_Help = ''HTTP request latency, by method and route pattern.'',
     mt_Labels = [''method'', ''pattern'']\<rparr>"

definition gcSweeps :: metric where
  "gcSweeps = \<lparr>mt_Kind = CounterVec, mt_Name = ''cairnmark_gc_sweeps_total'',
     mt_Help = ''GC reconciliation sweeps, by result (ok | error).'',
     mt_Labels = [''result'']\<rparr>"

definition gcReclaimed :: metric where
  "gcReclaimed = \<lparr>mt_Kind = CounterVec, mt_Name = ''cairnmark_gc_reclaimed_total'',
     mt_Help = ''Items reclaimed by GC, by kind (purged | orphans | expired_keys).'',
     mt_Labels = [''kind'']\<rparr>"

text \<open>What \<open>promauto\<close> registers; it panics on a name that is taken.\<close>

definition registered :: "metric list" where
  "registered = [httpRequests, httpDuration, gcSweeps, gcReclaimed]"

lemma registered_distinct: "distinct (map mt_Name registered)"
  by (simp add: registered_def httpRequests_def httpDuration_def gcSweeps_def gcReclaimed_def)

section \<open>Observations\<close>

text \<open>\<open>WithLabelValues\<close> with the call on what it returns; a duration is in nanoseconds.\<close>

datatype sample =
    Inc metric "string list"
  | Observe metric "string list" int
  | Add metric "string list" int

fun fits :: "sample \<Rightarrow> bool" where
  "fits (Inc m vs) \<longleftrightarrow> m \<in> set registered \<and> mt_Kind m = CounterVec \<and> length vs = length (mt_Labels m)"
| "fits (Observe m vs x) \<longleftrightarrow> m \<in> set registered \<and> mt_Kind m = HistogramVec \<and> length vs = length (mt_Labels m)"
| "fits (Add m vs x) \<longleftrightarrow>
     m \<in> set registered \<and> mt_Kind m = CounterVec \<and> length vs = length (mt_Labels m) \<and> 0 \<le> x"

definition ObserveRequest :: "string \<Rightarrow> string \<Rightarrow> nat \<Rightarrow> int \<Rightarrow> sample list \<Rightarrow> sample list" where
  "ObserveRequest meth pat status elapsed m =
     m @ [Inc httpRequests [meth, pat, show_nat status], Observe httpDuration [meth, pat] elapsed]"

definition ObserveGCSweep :: "nat \<Rightarrow> nat \<Rightarrow> nat \<Rightarrow> goerr option \<Rightarrow> sample list \<Rightarrow> sample list" where
  "ObserveGCSweep purged orphans expiredKeys err m =
     (if err \<noteq> None then m @ [Inc gcSweeps [''error'']]
      else m @ [Inc gcSweeps [''ok''],
                Add gcReclaimed [''purged''] (int purged),
                Add gcReclaimed [''orphans''] (int orphans),
                Add gcReclaimed [''expired_keys''] (int expiredKeys)])"

lemma metric_labels [simp]:
  "length (mt_Labels httpRequests) = 3" "length (mt_Labels httpDuration) = 2"
  "length (mt_Labels gcSweeps) = 1" "length (mt_Labels gcReclaimed) = 1"
  "mt_Kind httpRequests = CounterVec" "mt_Kind httpDuration = HistogramVec"
  "mt_Kind gcSweeps = CounterVec" "mt_Kind gcReclaimed = CounterVec"
  by (simp_all add: httpRequests_def httpDuration_def gcSweeps_def gcReclaimed_def)

lemma ObserveRequest_fits: "list_all fits m \<Longrightarrow> list_all fits (ObserveRequest meth pat status elapsed m)"
  by (simp add: ObserveRequest_def registered_def)

lemma ObserveGCSweep_fits: "list_all fits m \<Longrightarrow> list_all fits (ObserveGCSweep purged orphans expired err m)"
  by (simp add: ObserveGCSweep_def registered_def)

text \<open>The value of a counter.\<close>

definition counted :: "metric \<Rightarrow> string list \<Rightarrow> sample list \<Rightarrow> int" where
  "counted c vs m = sum_list (map (\<lambda>s. case s of
     Inc c' vs' \<Rightarrow> if c' = c \<and> vs' = vs then 1 else 0
   | Add c' vs' x \<Rightarrow> if c' = c \<and> vs' = vs then x else 0
   | _ \<Rightarrow> 0) m)"

lemma counted_append [simp]: "counted c vs (m @ m') = counted c vs m + counted c vs m'"
  by (simp add: counted_def)

end
