(* ===== verification/ApiRouter.thy ===== *)
theory ApiRouter
  imports ApiHandlers MetricsRegistry
begin

text \<open>
  \<open>internal/api/health.go\<close>, \<open>internal/api/api.go\<close> and the readiness check of
  \<open>cmd/server/setup.go\<close>: the probes, the routing table and the instrumentation around it.  The
  matching of \<open>http.ServeMux\<close> is written out for the patterns the program registers, on clean
  paths.
\<close>

section \<open>Health\<close>

type_synonym 'w readyFunc = "'w \<Rightarrow> goerr option \<times> 'w"

definition writePlain :: "nat \<Rightarrow> string \<Rightarrow> exchange \<Rightarrow> exchange" where
  "writePlain status msg x =
     http_Write (Text (msg @ [CHR 0x0A]))
       (statusWriter_WriteHeader status (header_Set ''Content-Type'' ''text/plain; charset=utf-8'' x))"

definition healthz :: "exchange \<Rightarrow> exchange" where
  "healthz x = writePlain 200 ''ok'' x"

definition readyz :: "'w readyFunc option \<Rightarrow> exchange \<Rightarrow> 'w \<Rightarrow> exchange \<times> 'w" where
  "readyz ready x w =
     (case ready of
        None \<Rightarrow> (writePlain 200 ''ready'' x, w)
      | Some probe \<Rightarrow>
          (case probe w of
             (Some e, w') \<Rightarrow> (writePlain 503 (''not ready: '' @ error_text e) x, w')
           | (None, w') \<Rightarrow> (writePlain 200 ''ready'' x, w')))"

definition healthSentinelKey :: string where
  "healthSentinelKey = ''.cairnmark/health-sentinel''"

definition readiness ::
  "('d \<Rightarrow> goerr option \<times> 'd) \<Rightarrow> ('s, 'r, 'c) backend \<Rightarrow> ('s, 'd) world readyFunc" where
  "readiness ping store w =
     (case on_repo ping w of
        (Some e, w1) \<Rightarrow> (Some (Wrapped ''postgres'' e), w1)
      | (None, w1) \<Rightarrow>
          (case on_store (b_Stat store healthSentinelKey) w1 of
             (Inl e, w2) \<Rightarrow>
               (if \<not> errors_is e StorageNotFound then Some (Wrapped ''storage'' e) else None, w2)
           | (Inr _, w2) \<Rightarrow> (None, w2)))"

section \<open>Patterns\<close>

datatype seg = Lit string | Id

datatype route =
    Healthz | Readyz | Metrics | Upload | ListFiles | Download | FileMetadata | PatchMetadata | DeleteFile

type_synonym pattern = "string \<times> seg list \<times> route"

definition health_patterns :: "pattern list" where
  "health_patterns =
     [(''GET'', [Lit ''healthz''], Healthz), (''GET'', [Lit ''readyz''], Readyz)]"

definition file_patterns :: "pattern list" where
  "file_patterns =
     [(''POST'', [Lit ''files''], Upload), (''GET'', [Lit ''files''], ListFiles),
      (''GET'', [Lit ''files'', Id], Download), (''GET'', [Lit ''files'', Id, Lit ''metadata''], FileMetadata),
      (''PATCH'', [Lit ''files'', Id, Lit ''metadata''], PatchMetadata),
      (''DELETE'', [Lit ''files'', Id], DeleteFile)]"

fun seg_text :: "seg \<Rightarrow> string" where
  "seg_text (Lit s) = s"
| "seg_text Id = ''{id}''"

definition pattern_text :: "pattern \<Rightarrow> string" where
  "pattern_text p =
     (case p of (m, segs, _) \<Rightarrow> m @ '' '' @ concat (map (\<lambda>s. ''/'' @ seg_text s) segs))"

fun match_path :: "seg list \<Rightarrow> string list \<Rightarrow> string list option" where
  "match_path [] [] = Some []"
| "match_path (Lit s # segs) (p # ps) = (if p = s then match_path segs ps else None)"
| "match_path (Id # segs) (p # ps) = (if p = [] then None else map_option (Cons p) (match_path segs ps))"
| "match_path _ _ = None"

definition match_method :: "string \<Rightarrow> string \<Rightarrow> bool" where
  "match_method m r \<longleftrightarrow> m = r \<or> (m = ''GET'' \<and> r = ''HEAD'')"

text \<open>The matched pattern with the value of its wildcard.\<close>

fun mux_Handler :: "pattern list \<Rightarrow> request \<Rightarrow> (pattern \<times> string list) option" where
  "mux_Handler [] rq = None"
| "mux_Handler ((m, segs, r) # pats) rq =
     (case match_path segs (rq_Path rq) of
        Some vs \<Rightarrow> if match_method m (rq_Method rq) then Some ((m, segs, r), vs) else mux_Handler pats rq
      | None \<Rightarrow> mux_Handler pats rq)"

text \<open>Without one: 405 when another method would match, with the methods that do, else 404.\<close>

definition allowed :: "pattern list \<Rightarrow> request \<Rightarrow> string list" where
  "allowed pats rq =
     (let ms = map fst (filter (\<lambda>(m, segs, r). match_path segs (rq_Path rq) \<noteq> None) pats)
      in sort (remdups (ms @ (if ''GET'' \<in> set ms then [''HEAD''] else []))))"

definition http_Error :: "string \<Rightarrow> nat \<Rightarrow> exchange \<Rightarrow> exchange" where
  "http_Error msg code x =
     http_Write (Text (msg @ [CHR 0x0A]))
       (statusWriter_WriteHeader code
         (header_Set ''X-Content-Type-Options'' ''nosniff''
           (header_Set ''Content-Type'' ''text/plain; charset=utf-8'' x)))"

definition mux_unmatched :: "pattern list \<Rightarrow> request \<Rightarrow> exchange \<Rightarrow> exchange" where
  "mux_unmatched pats rq x =
     (let ms = allowed pats rq
      in if ms = [] then http_Error ''404 page not found'' 404 x
         else http_Error ''Method Not Allowed'' 405 (header_Set ''Allow'' (join ms '', '') x))"

section \<open>The router\<close>

definition defaultPresignTTL :: int64 where
  "defaultPresignTTL = 900000000000"

record ('s, 'd, 'c) deps =
  dp_Files :: "('s, 'd, 'c) service option"
  dp_ReadyCheck :: "('s, 'd) world readyFunc option"
  dp_PresignTTL :: int64
  dp_MaxUploadBytes :: int64

definition registerFiles :: "('s, 'd, 'c) service \<Rightarrow> int64 \<Rightarrow> int64 \<Rightarrow> ('s, 'd, 'c) fileHandler" where
  "registerFiles svc presignTTL maxUpload =
     \<lparr>fh_svc = svc, fh_presignTTL = presignTTL, fh_maxUpload = maxUpload\<rparr>"

definition router_handler :: "('s, 'd, 'c) deps \<Rightarrow> ('s, 'd, 'c) fileHandler option" where
  "router_handler d =
     map_option (\<lambda>svc. registerFiles svc
         (if dp_PresignTTL d <=s 0 then defaultPresignTTL else dp_PresignTTL d) (dp_MaxUploadBytes d))
       (dp_Files d)"

definition router_patterns :: "('s, 'd, 'c) deps \<Rightarrow> pattern list" where
  "router_patterns d =
     health_patterns @ [(''GET'', [Lit ''metrics''], Metrics)] @
     (if dp_Files d = None then [] else file_patterns)"

text \<open>\<open>expose\<close> is the exposition handler of the Prometheus library.\<close>

definition serve_route ::
  "libs \<Rightarrow> weblibs \<Rightarrow> (exchange \<Rightarrow> exchange) \<Rightarrow> ('s, 'd, 'c) deps \<Rightarrow> route \<Rightarrow> string list \<Rightarrow> request \<Rightarrow>
    exchange \<Rightarrow> ('s, 'd) world \<Rightarrow> exchange \<times> ('s, 'd) world" where
  "serve_route L W expose d r vs rq x w =
     (case router_handler d of
        None \<Rightarrow>
          (case r of
             Healthz \<Rightarrow> (healthz x, w)
           | Readyz \<Rightarrow> readyz (dp_ReadyCheck d) x w
           | _ \<Rightarrow> (expose x, w))
      | Some h \<Rightarrow>
          (case r of
             Healthz \<Rightarrow> (healthz x, w)
           | Readyz \<Rightarrow> readyz (dp_ReadyCheck d) x w
           | Metrics \<Rightarrow> (expose x, w)
           | Upload \<Rightarrow> h_upload L W h rq x w
           | ListFiles \<Rightarrow> h_list L W h rq x w
           | Download \<Rightarrow> h_download L W h rq (hd vs) x w
           | FileMetadata \<Rightarrow> h_metadata L W h (hd vs) x w
           | PatchMetadata \<Rightarrow> h_patchMetadata L W h rq (hd vs) x w
           | DeleteFile \<Rightarrow> h_delete L h (hd vs) x w))"

definition mux_ServeHTTP ::
  "libs \<Rightarrow> weblibs \<Rightarrow> (exchange \<Rightarrow> exchange) \<Rightarrow> ('s, 'd, 'c) deps \<Rightarrow> request \<Rightarrow> exchange \<Rightarrow>
    ('s, 'd) world \<Rightarrow> exchange \<times> ('s, 'd) world" where
  "mux_ServeHTTP L W expose d rq x w =
     (case mux_Handler (router_patterns d) rq of
        None \<Rightarrow> (mux_unmatched (router_patterns d) rq x, w)
      | Some ((_, _, r), vs) \<Rightarrow> serve_route L W expose d r vs rq x w)"

text \<open>The instrumented handler; a panic passes the observation by.\<close>

definition instrument ::
  "libs \<Rightarrow> weblibs \<Rightarrow> (exchange \<Rightarrow> exchange) \<Rightarrow> ('s, 'd, 'c) deps \<Rightarrow> int \<Rightarrow> request \<Rightarrow> ('s, 'd) world \<Rightarrow>
    sample list \<Rightarrow> exchange \<times> ('s, 'd) world \<times> sample list" where
  "instrument L W expose d elapsed rq w m =
     (let pat = (case mux_Handler (router_patterns d) rq of
                   Some (p, _) \<Rightarrow> pattern_text p | None \<Rightarrow> ''unmatched'')
      in case mux_ServeHTTP L W expose d rq fresh w of
           (x, w') \<Rightarrow>
             (x, w', if x_Panic x \<noteq> None then m
                     else ObserveRequest (rq_Method rq) pat (x_status x) elapsed m))"

end
