(* ===== verification/ApiFacts.thy ===== *)
theory ApiFacts
  imports ApiRouter
begin

text \<open>
  What the handlers send, whatever the service below them: how the pieces of a response
  combine, that every request is answered once, with the status the metrics record, and that
  the text of an internal error stays in the log.
\<close>

section \<open>How responses combine\<close>

definition unsent :: "exchange \<Rightarrow> bool" where
  "unsent x \<longleftrightarrow> x_Sent x = None \<and> x_Panic x = None"

lemma fresh_sel [simp]:
  "unsent fresh" "x_Header fresh = []" "x_Body fresh = []" "x_Log fresh = []" "x_Panic fresh = None"
  "x_Sent fresh = None" "sent_status fresh = None"
  by (simp_all add: unsent_def fresh_def sent_status_def)

lemma header_Set_sel [simp]:
  "unsent (header_Set k v x) = unsent x" "x_Sent (header_Set k v x) = x_Sent x"
  "x_Body (header_Set k v x) = x_Body x" "x_Log (header_Set k v x) = x_Log x"
  "x_Panic (header_Set k v x) = x_Panic x" "x_status (header_Set k v x) = x_status x"
  "map_of (x_Header (header_Set k v x)) = (map_of (x_Header x))(k \<mapsto> v)"
  by (simp_all add: header_Set_def unsent_def update_conv')

lemma log_entry_sel [simp]:
  "unsent (log_entry l x) = unsent x" "x_Sent (log_entry l x) = x_Sent x"
  "x_Body (log_entry l x) = x_Body x" "x_Log (log_entry l x) = x_Log x @ [l]"
  "x_Panic (log_entry l x) = x_Panic x" "x_status (log_entry l x) = x_status x"
  "x_Header (log_entry l x) = x_Header x"
  by (simp_all add: log_entry_def unsent_def)

lemma WriteHeader_sel [simp]:
  "x_Sent (statusWriter_WriteHeader c x) =
     (case x_Sent x of None \<Rightarrow> Some (c, x_Header x) | Some s \<Rightarrow> Some s)"
  "x_Body (statusWriter_WriteHeader c x) = x_Body x" "x_Log (statusWriter_WriteHeader c x) = x_Log x"
  "x_Panic (statusWriter_WriteHeader c x) = x_Panic x" "x_status (statusWriter_WriteHeader c x) = c"
  "x_Header (statusWriter_WriteHeader c x) = x_Header x"
  by (simp_all add: statusWriter_WriteHeader_def http_WriteHeader_def split: option.split)

lemma http_Write_sel [simp]:
  "x_Sent (http_Write p x) = (case x_Sent x of None \<Rightarrow> Some (200, x_Header x) | Some s \<Rightarrow> Some s)"
  "x_Body (http_Write p x) = x_Body x @ [p]" "x_Log (http_Write p x) = x_Log x"
  "x_Panic (http_Write p x) = x_Panic x" "x_status (http_Write p x) = x_status x"
  by (simp_all add: http_Write_def http_WriteHeader_def)

lemma panic_sel [simp]:
  "x_Panic (panic m x) = Some m" "x_Sent (panic m x) = x_Sent x" "x_Body (panic m x) = x_Body x"
  "sent_status (panic m x) = sent_status x"
  by (simp_all add: panic_def sent_status_def)

lemma unsentD: "unsent x \<Longrightarrow> x_Sent x = None" "unsent x \<Longrightarrow> x_Panic x = None"
  by (simp_all add: unsent_def)

lemma writeJSON_sel [simp]:
  "x_Body (writeJSON s v x) = x_Body x @ [Json v]" "x_Log (writeJSON s v x) = x_Log x"
  "x_Panic (writeJSON s v x) = x_Panic x" "x_status (writeJSON s v x) = s"
  "unsent x \<Longrightarrow> sent_status (writeJSON s v x) = Some s"
  "unsent x \<Longrightarrow> sent_header (writeJSON s v x) =
     (map_of (x_Header x))(''Content-Type'' \<mapsto> ''application/json; charset=utf-8'')"
  by (simp_all add: writeJSON_def sent_status_def sent_header_def unsent_def fun_eq_iff)

lemma writeClientError_sel [simp]:
  "x_Body (writeClientError s m x) = x_Body x @ [Json (errorBody m)]"
  "x_Log (writeClientError s m x) = x_Log x" "x_Panic (writeClientError s m x) = x_Panic x"
  "x_status (writeClientError s m x) = s" "unsent x \<Longrightarrow> sent_status (writeClientError s m x) = Some s"
  by (simp_all add: writeClientError_def)

section \<open>Every request is answered once\<close>

text \<open>The response has been sent, with the status that \<open>statusWriter\<close> has recorded.\<close>

definition answered :: "exchange \<Rightarrow> bool" where
  "answered x \<longleftrightarrow> sent_status x = Some (x_status x)"

named_theorems answers \<open>functions that turn an unsent exchange into an answered one\<close>

lemma answered_statusWriter [answers]: "unsent x \<Longrightarrow> answered (statusWriter_WriteHeader c x)"
  by (simp add: answered_def sent_status_def unsent_def)

lemma answered_writeJSON [answers]: "unsent x \<Longrightarrow> answered (writeJSON s v x)"
  by (simp add: answered_def)

lemma answered_writeClientError [answers]: "unsent x \<Longrightarrow> answered (writeClientError s m x)"
  by (simp add: answered_def)

lemma answered_log [simp]: "answered (log_entry l x) = answered x"
  by (simp add: answered_def sent_status_def)

lemma answered_Write [simp]: "answered x \<Longrightarrow> answered (http_Write p x)"
  by (auto simp: answered_def sent_status_def)

lemma answered_writeError [answers]: "unsent x \<Longrightarrow> answered (writeError e x)"
  by (simp add: writeError_def answered_writeJSON)

lemma answered_handle_error [answers]:
  "unsent x \<Longrightarrow> answered (handle_error e x) \<or> x_Panic (handle_error e x) \<noteq> None"
  by (auto simp: handle_error_def answers split: goerr.splits)

lemma setDownloadHeaders_sel [simp]:
  "unsent (setDownloadHeaders W f x) = unsent x" "x_Sent (setDownloadHeaders W f x) = x_Sent x"
  "x_Body (setDownloadHeaders W f x) = x_Body x" "x_Log (setDownloadHeaders W f x) = x_Log x"
  by (simp_all add: setDownloadHeaders_def Let_def)

lemma answered_Redirect [answers]: "unsent x \<Longrightarrow> answered (http_Redirect rq url c x)"
  by (simp add: http_Redirect_def Let_def answers)

text \<open>A handler leaves an answered exchange or a panic.\<close>

definition served :: "exchange \<times> 'w \<Rightarrow> bool" where
  "served r \<longleftrightarrow> answered (fst r) \<or> x_Panic (fst r) \<noteq> None"

lemma served_simps [simp]:
  "answered x \<Longrightarrow> served (x, w)" "unsent x \<Longrightarrow> served (handle_error e x, w)" "served (panic m x, w)"
  using answered_handle_error [of x e] by (auto simp: served_def)

lemma served_upload: "unsent x \<Longrightarrow> served (h_upload L W h rq x w)"
  by (auto simp: h_upload_def writeTooLarge_def Let_def answers split: sum.splits prod.splits goerr.splits)

lemma served_redirect: "unsent x \<Longrightarrow> served (downloadRedirect L h rq i x w)"
  by (auto simp: downloadRedirect_def answers split: sum.splits prod.splits)

lemma served_stream: "unsent x \<Longrightarrow> served (downloadStream L W h rq i x w)"
  by (auto simp: downloadStream_def Let_def answers split: sum.splits prod.splits option.splits)

lemma served_range: "unsent x \<Longrightarrow> served (downloadRange L W h rq i x w)"
  by (auto simp: downloadRange_def Let_def answers served_stream served_redirect
      split: sum.splits prod.splits option.splits rangeOutcome.splits)

lemma served_download: "unsent x \<Longrightarrow> served (h_download L W h rq i x w)"
  by (simp add: h_download_def served_range served_stream served_redirect)

lemma served_metadata: "unsent x \<Longrightarrow> served (h_metadata L W h i x w)"
  by (auto simp: h_metadata_def answers split: sum.splits prod.splits)

lemma served_delete: "unsent x \<Longrightarrow> served (h_delete L h i x w)"
  by (auto simp: h_delete_def answers split: sum.splits prod.splits)

lemma served_patch: "unsent x \<Longrightarrow> served (h_patchMetadata L W h rq i x w)"
  by (auto simp: h_patchMetadata_def answers split: sum.splits prod.splits option.splits)

lemma served_list: "unsent x \<Longrightarrow> served (h_list L W h rq x w)"
  by (auto simp: h_list_def Let_def answers split: sum.splits prod.splits)

lemma answered_plain [answers]: "unsent x \<Longrightarrow> answered (writePlain s m x)"
  by (simp add: writePlain_def answers)

lemma served_unmatched: "unsent x \<Longrightarrow> served (mux_unmatched pats rq x, w)"
  by (simp add: mux_unmatched_def http_Error_def Let_def answers)

lemma served_ready: "unsent x \<Longrightarrow> served (readyz p x w)"
  by (auto simp: readyz_def answers split: option.splits prod.splits)

lemmas served_handlers = served_upload served_download served_metadata served_delete served_patch
  served_list served_unmatched served_ready

lemma served_mux:
  assumes "answered (expose fresh)"
  shows "served (mux_ServeHTTP L W expose d rq fresh w)"
  using assms
  by (auto simp: mux_ServeHTTP_def serve_route_def healthz_def served_handlers answers
      split: option.splits prod.splits route.splits)

end
