(* ===== verification/ApiModel.thy ===== *)
theory ApiModel
  imports ApiFacts ServiceModel
begin

text \<open>
  The HTTP interface over the file service of \<open>ServiceModel\<close>: requests enter at the router,
  so each property covers routing, handler, service, store and tables together.
\<close>

abbreviation site ::
  "(string \<Rightarrow> string option) \<Rightarrow> (memstore, db) world readyFunc option \<Rightarrow> int64 \<Rightarrow> int64 \<Rightarrow>
    (memstore, db, unit) deps" where
  "site canon ready ttl mx \<equiv>
     \<lparr>dp_Files = Some (model canon), dp_ReadyCheck = ready, dp_PresignTTL = ttl, dp_MaxUploadBytes = mx\<rparr>"

abbreviation handler ::
  "(string \<Rightarrow> string option) \<Rightarrow> int64 \<Rightarrow> int64 \<Rightarrow> (memstore, db, unit) fileHandler" where
  "handler canon ttl mx \<equiv>
     registerFiles (model canon) (if ttl <=s 0 then defaultPresignTTL else ttl) mx"

lemma handler_sel [simp]:
  "fh_svc (registerFiles sv ttl mx) = sv" "fh_presignTTL (registerFiles sv ttl mx) = ttl"
  "fh_maxUpload (registerFiles sv ttl mx) = mx"
  by (simp_all add: registerFiles_def)

text \<open>The request lines of the interface.\<close>

definition posts_file :: "request \<Rightarrow> string \<Rightarrow> bool" where
  "posts_file rq key \<longleftrightarrow> rq_Method rq = ''POST'' \<and> rq_Path rq = [''files''] \<and>
     header_Get (rq_Header rq) ''Idempotency-Key'' = key"

definition gets_file :: "request \<Rightarrow> string \<Rightarrow> bool" where
  "gets_file rq i \<longleftrightarrow> rq_Method rq = ''GET'' \<and> rq_Path rq = [''files'', i] \<and> i \<noteq> []"

lemmas mux_defs = mux_ServeHTTP_def serve_route_def router_patterns_def router_handler_def
  health_patterns_def file_patterns_def match_method_def

lemma router_handler_site [simp]: "router_handler (site canon ready ttl mx) = Some (handler canon ttl mx)"
  by (auto simp: router_handler_def)

lemma mux_upload:
  "posts_file rq key \<Longrightarrow> mux_ServeHTTP L W expose (site canon ready ttl mx) rq x w =
    h_upload L W (handler canon ttl mx) rq x w"
  by (simp add: mux_defs posts_file_def)

lemma mux_download:
  "gets_file rq i \<Longrightarrow> mux_ServeHTTP L W expose (site canon ready ttl mx) rq x w =
    h_download L W (handler canon ttl mx) rq i x w"
  by (simp add: mux_defs gets_file_def)

section \<open>Uploads\<close>

text \<open>
  A client that sends as many bytes as it has declared, or declares nothing: what
  \<open>net/http\<close> hands to the handler.
\<close>

definition honest_request :: "request \<Rightarrow> bool" where
  "honest_request rq \<longleftrightarrow>
     honest_size (src_data (rq_Body rq)) (src_final (rq_Body rq)) (rq_ContentLength rq) \<and>
     src_final (rq_Body rq) \<noteq> UploadTooLarge"

definition too_large :: "int64 \<Rightarrow> request \<Rightarrow> bool" where
  "too_large mx rq \<longleftrightarrow> 0 < sint mx \<and>
     (sint mx < sint (rq_ContentLength rq) \<or> sint mx < int (length (src_data (rq_Body rq))))"

lemma capped_body_rest:
  "body_rest (capped_body h rq) =
     (if 0 <s fh_maxUpload h then take (nat (sint (fh_maxUpload h))) (src_data (rq_Body rq))
      else src_data (rq_Body rq))"
  "body_fin (capped_body h rq) =
     (if 0 <s fh_maxUpload h \<and> nat (sint (fh_maxUpload h)) < length (src_data (rq_Body rq))
      then UploadTooLarge else src_final (rq_Body rq))"
  "src_final (body_source (capped_body h rq)) = src_final (rq_Body rq)"
  by (simp_all add: capped_body_def new_limitReader_def lim_defs)

lemma honest_upload:
  assumes "honest_request rq" and "\<not> (0 <s fh_maxUpload h \<and> fh_maxUpload h <s rq_ContentLength rq)"
  shows "honest_input (upload_input W h rq tags)"
proof (cases "0 <s fh_maxUpload h \<and> nat (sint (fh_maxUpload h)) < length (src_data (rq_Body rq))")
  case True
  then have "sint (rq_ContentLength rq) < 0"
    using assms by (auto simp: honest_request_def honest_size_def int64_simps split: if_splits)
  then show ?thesis
    by (simp add: honest_input_def honest_size_def upload_input_def)
next
  case False
  then have "body_rest (capped_body h rq) = src_data (rq_Body rq)"
    "body_fin (capped_body h rq) = src_final (rq_Body rq)"
    by (auto simp: capped_body_rest)
  then show ?thesis
    using assms(1) by (simp add: honest_input_def honest_request_def upload_input_def)
qed

section \<open>Concrete requests\<close>

definition demo_web :: weblibs where
  "demo_web = \<lparr>wl_Valid = (\<lambda>_. Inr JNull), wl_Scan = (\<lambda>_. Value (JObj [(''a'', JStr ''1'')])),
     wl_ParseMediaType = (\<lambda>_. Inl EOF), wl_FormatMediaType = (\<lambda>_ _. ''attachment''),
     wl_RFC3339 = (\<lambda>_. ''1970-01-01T00:00:00Z'')\<rparr>"

definition web_uuids :: "nat \<Rightarrow> string res" where
  "web_uuids n = Inr (replicate (Suc n) CHR ''a'')"

definition web_start :: "(memstore, db) world" where
  "web_start = start web_uuids 0 []"

definition post_request :: "(string \<times> string) list \<Rightarrow> bytes \<Rightarrow> request" where
  "post_request hs bs = \<lparr>rq_Method = ''POST'', rq_Path = [''files''], rq_Query = [], rq_Header = hs,
     rq_ContentLength = -1,
     rq_Body = \<lparr>src_data = bs, src_final = EOF, src_sizes = [1], src_eager = False\<rparr>\<rparr>"

definition get_request :: "(string \<times> string) list \<Rightarrow> (string \<times> string list) list \<Rightarrow> request" where
  "get_request hs q = \<lparr>rq_Method = ''GET'', rq_Path = [''files'', ''a''], rq_Query = q, rq_Header = hs,
     rq_ContentLength = 0,
     rq_Body = \<lparr>src_data = [], src_final = EOF, src_sizes = [], src_eager = False\<rparr>\<rparr>"

definition web_file :: "string \<Rightarrow> File" where
  "web_file k = \<lparr>f_ID = k, f_StorageKey = k, f_Filename = [], f_ContentType = [], f_SizeBytes = 0,
     f_Checksum = [], f_Metadata = Some [], f_CreatedAt = 0, f_UpdatedAt = None, f_DeletedAt = None\<rparr>"

lemma post_request_facts:
  "posts_file (post_request [] bs) []" "uploadTags demo_web (post_request [] bs) = Inr None"
  "honest_request (post_request hs bs)" "src_final (rq_Body (post_request hs bs)) = EOF"
  "src_data (rq_Body (post_request hs bs)) = bs" "rq_ContentLength (post_request hs bs) = -1"
  "uploadFilename demo_web (post_request [] bs) = []"
  by (simp_all add: post_request_def posts_file_def header_Get_def uploadTags_def maps_Copy_def
      honest_request_def honest_size_def uploadFilename_def values_Get_def)

lemma web_start_facts:
  "fs.good web_start" "quiet web_start" "w_uuids web_start (w_next web_start) = Inr ''a''"
  "w_uuids web_start (Suc (w_next web_start)) = Inr ''aa''"
  "pg_rows (w_repo web_start) c = None" "d_files (w_repo web_start) = []"
  by (simp_all add: web_start_def start_def fs.good_def m_sane_def mem_New_def pg_good_def tables_ok_def
      acked_def quiet_def web_uuids_def pg_rows_def)

text \<open>A small upload without a cap.\<close>

lemma demo_post:
  obtains x w1 g b where
    "mux_ServeHTTP demo_libs demo_web id (site Some None 0 0) (post_request [] [1, 2, 3]) fresh web_start = (x, w1)"
    "sent_status x = Some 201" "sent_header x ''Location'' = Some (''/files/'' @ ''a'')"
    "sent_header x ''Idempotency-Replayed'' = None" "quiet w1" "f_ID g = ''a''"
    "fs.stored Some demo_libs (upload_input demo_web (handler Some 0 0) (post_request [] [1, 2, 3]) None)
       web_start g w1"
proof -
  let ?h = "handler Some 0 0" and ?rq = "post_request [] [1, 2, 3]"
  let ?inp = "upload_input demo_web ?h ?rq None"
  have honest: "honest_input ?inp"
    by (rule honest_upload) (simp_all add: post_request_facts)
  have fin: "body_fin (in_Body ?inp) = EOF"
    by (simp add: upload_input_def capped_body_rest post_request_facts)
  obtain g b w1 where up: "Service_Upload demo_libs (model Some) ?inp web_start = (Inr g, b, w1)"
    "f_ID g = ''a''" "quiet w1"
    using upload_succeeds [where canon = Some and L = demo_libs and c = "''a''", OF web_start_facts(1,2)
        honest fin web_start_facts(3,4)] web_start_facts(5,6) by auto
  have key: "header_Get (rq_Header ?rq) ''Idempotency-Key'' = []"
    by (simp add: post_request_def header_Get_def)
  let ?x = "writeJSON 201 (fileResponse_json demo_web (toResponse g))
    (header_Set ''Location'' (''/files/'' @ f_ID g) fresh)"
  have "mux_ServeHTTP demo_libs demo_web id (site Some None 0 0) ?rq fresh web_start = (?x, w1)"
    using up(1) key
    by (simp add: mux_upload [OF post_request_facts(1)] h_upload_def run_upload_def post_request_facts)
  moreover have "fs.stored Some demo_libs ?inp web_start g w1"
    using fs.Upload_ok [OF up(1) web_start_facts(1) honest] by blast
  ultimately show thesis
    using up(2,3) by (intro that [of ?x w1 g]) simp_all
qed

text \<open>How the two kinds of uploads end, by the length of the body.\<close>

lemma refused_upload:
  assumes "fs.good w" and "quiet w" and "honest_input inp"
    and "key = [] \<or> pg_claims (w_repo w) key = None"
    and "w_uuids w (w_next w) = Inr i" and "w_uuids w (Suc (w_next w)) = Inr k"
    and "body_fin (in_Body inp) = UploadTooLarge" and "src_final (body_source (in_Body inp)) \<noteq> UploadTooLarge"
  obtains e b w' where "run_upload L (model canon) key inp w = (Inl e, b, w')" "exceeded b"
    "pg_rows (w_repo w') = pg_rows (w_repo w)" "m_map (w_store w') = m_map (w_store w)"
    "pg_claims (w_repo w') = pg_claims (w_repo w)"
proof (cases "key = []")
  case True
  obtain e b where "stage L (model canon) inp w = (Inl e, b, w\<lparr>w_next := Suc (Suc (w_next w))\<rparr>)" "exceeded b"
    using stage_fails [of w i k inp L canon] assms(5-8) by auto
  then show thesis
    using that [of e b] True by (simp add: run_upload_def Service_Upload_def)
next
  case False
  then obtain e b w' where "Service_UploadIdempotent L (model canon) key inp w = (Inl e, b, w')" "exceeded b"
    "pg_rows (w_repo w') = pg_rows (w_repo w)" "w_store w' = w_store w" "pg_claims (w_repo w') = pg_claims (w_repo w)"
    using keyed_upload_fails [of w inp key i k L canon] assms by auto
  then show thesis
    using that [of e b w'] False by (simp add: run_upload_def)
qed

lemma accepted_upload:
  assumes "fs.good w" and "quiet w" and "honest_input inp"
    and "key = [] \<or> pg_claims (w_repo w) key = None"
    and "w_uuids w (w_next w) = Inr i" and "w_uuids w (Suc (w_next w)) = Inr k"
    and "body_fin (in_Body inp) = EOF" and "canon i = Some c" and "pg_rows (w_repo w) c = None"
    and "\<forall>r\<in>set (d_files (w_repo w)). f_StorageKey r \<noteq> k"
  obtains f b w' where "run_upload L (model canon) key inp w = (Inr (f, False), b, w')"
proof (cases "key = []")
  case True
  obtain f b w' where "Service_Upload L (model canon) inp w = (Inr f, b, w')"
    using upload_succeeds [where canon = canon and L = L, OF assms(1-3,7,5,6,8-10)] by blast
  then show thesis
    using that True by (simp add: run_upload_def)
next
  case False
  then obtain f b w' where "Service_UploadIdempotent L (model canon) key inp w = (Inr (f, False), b, w')"
    using idempotent_upload_succeeds [where canon = canon and L = L, OF assms(1-3,7,5,6,8-10), of key] assms(4)
    by auto
  then show thesis
    using that False by (simp add: run_upload_def)
qed

text \<open>C10. The size limit is exact, for uploads without an idempotency key and for the first one under a
  key; a retry is answered without its body being read.  With a cap configured, and a database
  that answers, such an upload of a complete body is refused with 413 exactly when its declared or its
  actual length is above the cap, however the body is cut into reads, and is stored with 201
  otherwise.  A refused upload leaves rows, keys and, in the in-memory store, objects as they were; a
  store that keeps part of an interrupted write keeps it as an orphan for the collector.\<close>

theorem upload_size_limit:
  assumes "posts_file rq key" and "uploadTags W rq = Inr tags" and "honest_request rq"
    and "src_final (rq_Body rq) = EOF" and "fs.good w" and "quiet w"
    and "key = [] \<or> length key \<le> maxIdempotencyKeyLen \<and> pg_claims (w_repo w) key = None"
    and "w_uuids w (w_next w) = Inr i" and "w_uuids w (Suc (w_next w)) = Inr k"
    and "canon i = Some c" and "pg_rows (w_repo w) c = None"
    and "\<forall>r\<in>set (d_files (w_repo w)). f_StorageKey r \<noteq> k"
    and "mux_ServeHTTP L W expose (site canon ready ttl mx) rq fresh w = (x, w')"
  shows "sent_status x = Some (if too_large mx rq then 413 else 201) \<and>
    (too_large mx rq \<longrightarrow> pg_rows (w_repo w') = pg_rows (w_repo w) \<and>
      m_map (w_store w') = m_map (w_store w) \<and> pg_claims (w_repo w') = pg_claims (w_repo w))"
proof -
  let ?h = "handler canon ttl mx"
  let ?inp = "upload_input W ?h rq tags"
  have key: "header_Get (rq_Header rq) ''Idempotency-Key'' = key" "\<not> maxIdempotencyKeyLen < length key"
    "key = [] \<or> pg_claims (w_repo w) key = None"
    using assms(1,7) by (auto simp: posts_file_def)
  have run: "h_upload L W ?h rq fresh w = (x, w')"
    using assms(13) by (simp add: mux_upload [OF assms(1)])
  show ?thesis
  proof (cases "0 <s mx \<and> mx <s rq_ContentLength rq")
    case True
    then have "too_large mx rq"
      by (simp add: too_large_def int64_simps)
    then show ?thesis
      using run assms(2) key(1,2) True
      by (auto simp: h_upload_def writeTooLarge_def split: goerr.splits)
  next
    case False
    have honest: "honest_input ?inp"
      using honest_upload [OF assms(3), of ?h] False by simp
    have large: "too_large mx rq \<longleftrightarrow> body_fin (in_Body ?inp) = UploadTooLarge"
      "\<not> too_large mx rq \<Longrightarrow> body_fin (in_Body ?inp) = EOF"
      "src_final (body_source (in_Body ?inp)) \<noteq> UploadTooLarge"
      using False assms(4)
      by (auto simp: too_large_def upload_input_def capped_body_rest int64_simps)
    show ?thesis
    proof (cases "too_large mx rq")
      case over: True
      obtain e b v where v: "run_upload L (model canon) key ?inp w = (Inl e, b, v)" "exceeded b"
        "pg_rows (w_repo v) = pg_rows (w_repo w)" "m_map (w_store v) = m_map (w_store w)"
        "pg_claims (w_repo v) = pg_claims (w_repo w)"
        using refused_upload [where L = L and canon = canon, OF assms(5,6) honest key(3) assms(8,9) _ large(3)] large(1) over
        by metis
      then have "x = writeTooLarge ?h fresh" "w' = v"
        using run assms(2) key(1,2) False by (simp_all add: h_upload_def)
      then show ?thesis
        using over v(3-5) by (simp add: writeTooLarge_def)
    next
      case fits: False
      obtain f b w1 where "run_upload L (model canon) key ?inp w = (Inr (f, False), b, w1)"
        using accepted_upload [where L = L and canon = canon, OF assms(5,6) honest key(3) assms(8,9) large(2) [OF fits] assms(10-12)]
        by metis
      then have "\<exists>y. x = writeJSON 201 (fileResponse_json W (toResponse f)) y \<and> unsent y"
        using run assms(2) key(1,2) False by (auto simp: h_upload_def)
      then show ?thesis
        using fits by auto
    qed
  qed
qed

theorem upload_size_limit_witness:
  "\<exists>x w. mux_ServeHTTP demo_libs demo_web id (site Some None 0 2) (post_request [] [1, 2, 3]) fresh web_start =
      (x, w) \<and> sent_status x = Some 413"
proof -
  obtain x w where
    r: "mux_ServeHTTP demo_libs demo_web id (site Some None 0 2) (post_request [] [1, 2, 3]) fresh web_start = (x, w)"
    by (metis surj_pair)
  have rows: "\<forall>r\<in>set (d_files (w_repo web_start)). f_StorageKey r \<noteq> ''aa''"
    by (simp add: web_start_facts)
  have "too_large 2 (post_request [] [1, 2, 3])"
    by (simp add: too_large_def post_request_facts)
  with upload_size_limit [OF post_request_facts(1,2,3,4) web_start_facts(1,2) _ web_start_facts(3,4) refl
      web_start_facts(5) rows r] r show ?thesis
    by auto
qed

section \<open>Downloads\<close>

text \<open>What a successful upload has stored, whichever way it went in.\<close>

lemma run_upload_stored:
  assumes "run_upload L (model canon) key inp w = (Inr (g, False), b, w')" and "fs.good w"
    and "honest_input inp"
  shows "fs.stored canon L inp w g w'"
proof (cases "key = []")
  case True
  obtain r b' v where r: "Service_Upload L (model canon) inp w = (r, b', v)"
    by (metis surj_pair)
  then have "r = Inr g" "v = w'"
    using assms(1) True by (cases r; simp add: run_upload_def)+
  then show ?thesis
    using fs.Upload_ok [OF _ assms(2,3)] r by blast
next
  case False
  then have "Service_UploadIdempotent L (model canon) key inp w = (Inr (g, False), b, w')"
    using assms(1) by (simp add: run_upload_def)
  then show ?thesis
    using assms(2,3) by (cases rule: fs.UploadIdempotent_cases) simp_all
qed

lemma sent_201:
  assumes "h_upload L W (handler canon ttl mx) rq fresh w = (x, w')" and "sent_status x = Some 201"
  obtains tags g replayed b where "uploadTags W rq = Inr tags"
    "\<not> (0 <s mx \<and> mx <s rq_ContentLength rq)"
    "run_upload L (model canon) (header_Get (rq_Header rq) ''Idempotency-Key'')
       (upload_input W (handler canon ttl mx) rq tags) w = (Inr (g, replayed), b, w')"
    "sent_header x ''Location'' = Some (''/files/'' @ f_ID g)"
    "sent_header x ''Idempotency-Replayed'' = (if replayed then Some ''true'' else None)"
    "x_Body x = [Json (fileResponse_json W (toResponse g))]"
proof -
  have no: "sent_status (handle_error e fresh) \<noteq> Some 201" for e
    by (auto simp: handle_error_def writeError_def fresh_def sent_status_def split: goerr.splits)
      (auto simp: writeJSON_def split: if_splits)
  show thesis
    using assms that no
    by (auto simp: h_upload_def Let_def writeTooLarge_def split: sum.splits goerr.splits if_splits prod.splits)
qed

lemma stored_rest:
  assumes "fs.stored canon L (upload_input W h rq tags) w g w'"
  shows "body_rest (capped_body h rq) = src_data (rq_Body rq)"
  using assms by (auto simp: fs.stored_def upload_input_def capped_body_rest split: if_splits)

text \<open>A stored file can be opened, and reads as it was sent.\<close>

lemma stored_opens:
  assumes "fs.stored canon L inp w g w'" and "quiet w'" and "lib_uuid_ok L (f_ID g)"
  obtains f where "Service_Open L (model canon) (f_ID g) w' =
      (Inr (f, newVerifyingReader (bytes_reader (body_rest (in_Body inp))) (f_Checksum f)), w')"
    "f_SizeBytes f = len64 (body_rest (in_Body inp))"
    "f_Checksum f = hex_encode (lib_sha256 L (body_rest (in_Body inp)))"
proof -
  obtain c ob where s: "canon (f_ID g) = Some c" "fs.good w'"
    "pg_rows (w_repo w') c = Some (g\<lparr>f_ID := c, f_DeletedAt := None\<rparr>)"
    "m_map (w_store w') (f_StorageKey g) = Some ob" "o_data ob = body_rest (in_Body inp)" "matches L g ob"
    using assms(1) by (auto simp: fs.stored_def)
  let ?f = "g\<lparr>f_ID := c, f_DeletedAt := None\<rparr>"
  have "Service_Open L (model canon) (f_ID g) w' =
      (Inr (?f, newVerifyingReader (bytes_reader (o_data ob)) (f_Checksum ?f)), w')"
    using Open_quiet [of w' L "f_ID g" canon c ?f ob] s assms(2,3) by simp
  then show thesis
    using s(5,6) by (intro that [of ?f]) (simp_all add: matches_def)
qed

lemma stream_answer:
  assumes "Service_Open L (fh_svc h) i w = (Inr (f, rc), w')" and "io_Copy (lib_sha256 L) rc = (bs, None)"
    and "downloadStream L W h rq i fresh w = (y, w2)"
  shows "sent_status y = Some 200" "x_Body y = [Raw_bytes bs]" "x_Log y = []"
    "sent_header y ''Content-Length'' = Some (show_int64 (f_SizeBytes f))"
    "sent_header y ''X-Checksum-Sha256'' = (if f_Checksum f = [] then None else Some (f_Checksum f))"
  using assms
  by (auto simp: downloadStream_def sent_status_def sent_header_def setDownloadHeaders_def Let_def
      simp del: io_Copy_result)

text \<open>C6. What was posted can be fetched: after a 201 that is not a replay, a streaming \<open>GET\<close> of
  the location the response names answers 200 with exactly the bytes that were posted, their
  length and their checksum, and no integrity alarm is raised.\<close>

theorem post_then_get:
  assumes "posts_file rq key" and "honest_request rq" and "fs.good w"
    and "mux_ServeHTTP L W expose (site canon ready ttl mx) rq fresh w = (x, w1)"
    and "sent_status x = Some 201" and "sent_header x ''Idempotency-Replayed'' = None" and "quiet w1"
    and "sent_header x ''Location'' = Some (''/files/'' @ i)" and "lib_uuid_ok L i"
    and "gets_file rq' i" and "header_Get (rq_Header rq') ''Range'' = []"
    and "values_Get (rq_Query rq') ''download'' = ''stream''"
    and "mux_ServeHTTP L W expose (site canon ready ttl mx) rq' fresh w1 = (y, w2)"
  shows "sent_status y = Some 200 \<and> x_Body y = [Raw_bytes (src_data (rq_Body rq))] \<and> x_Log y = [] \<and>
    sent_header y ''Content-Length'' = Some (show_int64 (len64 (src_data (rq_Body rq)))) \<and>
    sent_header y ''X-Checksum-Sha256'' =
      (let c = hex_encode (lib_sha256 L (src_data (rq_Body rq))) in if c = [] then None else Some c)"
proof -
  let ?h = "handler canon ttl mx"
  have post: "h_upload L W ?h rq fresh w = (x, w1)"
    using assms(4) by (simp add: mux_upload [OF assms(1)])
  obtain tags g replayed b where up: "\<not> (0 <s mx \<and> mx <s rq_ContentLength rq)"
    "run_upload L (model canon) (header_Get (rq_Header rq) ''Idempotency-Key'')
       (upload_input W ?h rq tags) w = (Inr (g, replayed), b, w1)" "f_ID g = i" "replayed = False"
  proof (rule sent_201 [OF post assms(5)])
  qed (use assms(6,8) that in \<open>auto split: if_splits\<close>)
  have st: "fs.stored canon L (upload_input W ?h rq tags) w g w1"
    using run_upload_stored [OF up(2) [unfolded up(4)] assms(3) honest_upload [OF assms(2)]] up(1) by simp
  have "in_Body (upload_input W ?h rq tags) = capped_body ?h rq"
    by (simp add: upload_input_def)
  then have data: "body_rest (in_Body (upload_input W ?h rq tags)) = src_data (rq_Body rq)"
    using stored_rest [OF st] by metis
  obtain f where "Service_Open L (model canon) i w1 =
      (Inr (f, newVerifyingReader (bytes_reader (src_data (rq_Body rq))) (f_Checksum f)), w1)"
    "f_SizeBytes f = len64 (src_data (rq_Body rq))"
    "f_Checksum f = hex_encode (lib_sha256 L (src_data (rq_Body rq)))"
    using stored_opens [OF st assms(7)] assms(9) up(3) unfolding data by blast
  moreover have "downloadStream L W ?h rq' i fresh w1 = (y, w2)"
    using assms(11-13) by (simp add: mux_download [OF assms(10)] h_download_def)
  ultimately show ?thesis
    using stream_answer [of L ?h i w1 f _ w1 "src_data (rq_Body rq)" W rq' y w2]
    by (simp add: newVerifyingReader_def v_rest_def v_fin_def bytes_reader_def eof_nil_def)
qed

theorem post_then_get_witness:
  "\<exists>x w y v. mux_ServeHTTP demo_libs demo_web id (site Some None 0 0) (post_request [] [1, 2, 3]) fresh web_start =
      (x, w) \<and>
    mux_ServeHTTP demo_libs demo_web id (site Some None 0 0) (get_request [] [(''download'', [''stream''])])
      fresh w = (y, v) \<and> sent_status y = Some 200 \<and> x_Body y = [Raw_bytes [1, 2, 3]]"
proof -
  let ?rq = "get_request [] [(''download'', [''stream''])]"
  obtain x w where post:
    "mux_ServeHTTP demo_libs demo_web id (site Some None 0 0) (post_request [] [1, 2, 3]) fresh web_start = (x, w)"
    "sent_status x = Some 201" "sent_header x ''Location'' = Some (''/files/'' @ ''a'')"
    "sent_header x ''Idempotency-Replayed'' = None" "quiet w"
    by (rule demo_post)
  obtain y v where get: "mux_ServeHTTP demo_libs demo_web id (site Some None 0 0) ?rq fresh w = (y, v)"
    by (metis surj_pair)
  have rq: "gets_file ?rq ''a''" "header_Get (rq_Header ?rq) ''Range'' = []"
    "values_Get (rq_Query ?rq) ''download'' = ''stream''" "lib_uuid_ok demo_libs ''a''"
    by (simp_all add: get_request_def gets_file_def header_Get_def values_Get_def demo_libs_def)
  from post_then_get [OF post_request_facts(1,3) web_start_facts(1) post(1,2,4,5,3) rq(4,1,2,3) get]
  show ?thesis
    using post(1) get by (auto simp: post_request_facts)
qed

text \<open>The bytes at an interval of positions.\<close>

lemma nths_interval: "nths xs {a..<b} = take (b - a) (drop a xs)"
proof (induction xs arbitrary: a b)
  case (Cons x xs)
  have "{j. Suc j \<in> {a..<b}} = {a - 1..<b - 1}" if "0 < a"
    using that by auto
  moreover have "{j. Suc j \<in> {0..<b}} = {0..<b - 1}"
    by auto
  ultimately show ?case
    using Cons.IH [of "a - 1" "b - 1"] Cons.IH [of 0 "b - 1"]
    by (cases a; cases b) (simp_all add: nths_Cons)
qed simp

lemma show_int64_nat: "0 \<le> sint k \<Longrightarrow> show_int64 k = show_nat (nat (sint k))"
  by (simp add: show_int64_def show_int_def)

lemma range_answer:
  assumes "Service_Metadata L (fh_svc h) i w = (Inr f, w)"
    and "parseSingleRange (header_Get (rq_Header rq) ''Range'') (f_SizeBytes f) = (off, len, rangeOK)"
    and "Service_OpenRange (fh_svc h) f off len w = (Inr (bytes_reader bs), w)"
    and "downloadRange L W h rq i fresh w = (y, w2)"
  shows "sent_status y = Some 206" "x_Body y = [Raw_bytes bs]"
    "sent_header y ''Content-Length'' = Some (show_int64 len)"
    "sent_header y ''Content-Range'' = Some (''bytes '' @ show_int64 off @ ''-'' @
       show_int64 (off + len - 1) @ ''/'' @ show_int64 (f_SizeBytes f))"
  using assms
  by (auto simp: downloadRange_def sent_status_def sent_header_def Let_def bytes_reader_def eof_nil_def)

lemma in_object_last:
  "in_object off len sz \<Longrightarrow> sint (off + len - 1) = sint off + sint len - 1 \<and> 0 \<le> sint off \<and> 0 < sint len"
  using sint_minus_one [of "off + len"] by (auto simp: in_object_def)

text \<open>The response to a range that a live file of \<open>n\<close> bytes does not have, or has.\<close>

definition range_response :: "byte_range \<Rightarrow> bytes \<Rightarrow> exchange \<Rightarrow> bool" where
  "range_response r bs y \<longleftrightarrow>
     (let n = length bs; sel = selects r n
      in if sel = {}
         then sent_status y = Some 416 \<and> sent_header y ''Content-Range'' = Some (''bytes */'' @ show_nat n)
         else sent_status y = Some 206 \<and> x_Body y = [Raw_bytes (nths bs sel)] \<and>
           sent_header y ''Content-Length'' = Some (show_nat (card sel)) \<and>
           sent_header y ''Content-Range'' = Some (''bytes '' @ show_nat (Min sel) @ ''-'' @
             show_nat (Max sel) @ ''/'' @ show_nat n))"

text \<open>The same request without the header.\<close>

definition without_range :: "request \<Rightarrow> request" where
  "without_range rq = rq\<lparr>rq_Header := filter (\<lambda>(k, v). k \<noteq> ''Range'') (rq_Header rq)\<rparr>"

lemma ignored_range:
  assumes "parseSingleRange (header_Get (rq_Header rq) ''Range'') (f_SizeBytes f) = (0, 0, rangeIgnore)"
    and "header_Get (rq_Header rq) ''Range'' \<noteq> []" and "Service_Metadata L (fh_svc h) i w = (Inr f, w)"
  shows "h_download L W h rq i x w = h_download L W h (without_range rq) i x w"
proof -
  have "map_of (filter (\<lambda>(k, v). k \<noteq> ''Range'') xs) ''Range'' = None" for xs :: "(string \<times> string) list"
    by (induction xs) auto
  then have "header_Get (rq_Header (without_range rq)) ''Range'' = []"
    by (simp add: without_range_def header_Get_def)
  moreover have same: "http_Redirect (without_range rq) = http_Redirect rq"
    by (simp add: fun_eq_iff http_Redirect_def without_range_def)
  have "downloadRedirect L h (without_range rq) i x w = downloadRedirect L h rq i x w"
    unfolding downloadRedirect_def same by (rule refl)
  moreover have "downloadStream L W h (without_range rq) i x w = downloadStream L W h rq i x w"
    "values_Get (rq_Query (without_range rq)) k = values_Get (rq_Query rq) k" for k
    by (simp_all add: downloadStream_def without_range_def)
  ultimately show ?thesis
    using assms by (simp add: h_download_def downloadRange_def)
qed

lemma range_request_answer:
  assumes "h_download L W h rq i fresh w = (y, w2)"
    and "header_Get (rq_Header rq) ''Range'' = ''bytes='' @ show_spec r @ t"
    and "representable r" and "range_tail t" and meta: "Service_Metadata L (fh_svc h) i w = (Inr f, w)"
    and "fh_svc h = model canon" and "m_map (w_store w) (f_StorageKey f) = Some ob" and "matches L f ob"
    and "length (o_data ob) < 2 ^ 63"
  shows "range_response r (o_data ob) y"
proof -
  let ?n = "length (o_data ob)"
  have run: "downloadRange L W h rq i fresh w = (y, w2)"
    using assms(1,2) by (simp add: h_download_def)
  have size: "f_SizeBytes f = word_of_nat ?n" "show_int64 (word_of_nat ?n) = show_nat ?n"
    using assms(8,9) by (simp_all add: matches_def len64_def show_int64_nat)
  obtain off len out where p: "parseSingleRange (''bytes='' @ show_spec r @ t) (word_of_nat ?n) = (off, len, out)"
    by (cases "parseSingleRange (''bytes='' @ show_spec r @ t) (word_of_nat ?n)") auto
  note sel = served_selected [OF assms(3,4,9) p]
  show ?thesis
  proof (cases "selects r ?n = {}")
    case True
    then have "y = writeClientError 416 ''unsatisfiable range''
        (header_Set ''Content-Range'' (''bytes */'' @ show_nat ?n) fresh)"
      using run meta p sel size by (auto simp: downloadRange_def assms(2))
    then show ?thesis
      using True by (simp add: range_response_def writeClientError_def)
  next
    case False
    then have p: "parseSingleRange (''bytes='' @ show_spec r @ t) (word_of_nat ?n) = (off, len, rangeOK)"
      using p sel by simp
    note win = served_window [OF assms(3,4,9) p]
    note last = in_object_last [OF win(1)]
    let ?a = "nat (sint off)" and ?l = "nat (sint len)"
    have ab: "selects r ?n = {?a..<?a + ?l}" "0 < ?l" "sint off + sint len \<le> int ?n"
      using win last assms(9) by (auto simp: in_object_def nat_add_distrib)
    have "Service_OpenRange (fh_svc h) f off len w =
        (Inr (bytes_reader (take ?l (drop ?a (o_data ob)))), w)"
      using mem_GetRange_window [OF assms(7) _ _ _ ab(3)] assms(9) last
      by (simp add: Service_OpenRange_def on_store_def assms(6))
    moreover have "nths (o_data ob) (selects r ?n) = take ?l (drop ?a (o_data ob))"
      by (simp add: ab(1) nths_interval)
    moreover have "Min (selects r ?n) = ?a" "Max (selects r ?n) = ?a + ?l - 1" "card (selects r ?n) = ?l"
      unfolding ab(1) using ab(2) by (auto intro!: Min_eqI Max_eqI)
    moreover have "show_int64 off = show_nat ?a" "show_int64 len = show_nat ?l"
      "show_int64 (off + len - 1) = show_nat (?a + ?l - 1)"
      using last by (auto simp: show_int64_nat intro!: arg_cong [where f = show_nat])
    ultimately show ?thesis
      using range_answer [OF meta _ _ run, of off len "take ?l (drop ?a (o_data ob))"] p size False
      by (simp add: range_response_def assms(2) Let_def)
  qed
qed

text \<open>C11. Range requests, over the in-memory store and a database that answers.  For a live file and a
  range of any of the three forms (the first one, when a comma and more follow), whose bounds are in
  order and whose positions are below \<open>2^63\<close>, the answer is 206 with exactly the bytes that RFC 9110
  selects and headers that name them, or 416 with the size of the file when it selects none.  Any
  other range specification is answered as the same request without the header.\<close>

theorem range_request_exact:
  assumes "gets_file rq i" and "header_Get (rq_Header rq) ''Range'' = ''bytes='' @ show_spec r @ t"
    and "range_tail t"
    and "fs.good w" and "quiet w" and "lib_uuid_ok L i" and "canon i = Some c"
    and "pg_rows (w_repo w) c = Some f" and "live f"
    and "m_map (w_store w) (f_StorageKey f) = Some ob" and "matches L f ob"
    and "length (o_data ob) < 2 ^ 63"
    and "mux_ServeHTTP L W expose (site canon ready ttl mx) rq fresh w = (y, w2)"
  shows "if representable r then range_response r (o_data ob) y
    else mux_ServeHTTP L W expose (site canon ready ttl mx) (without_range rq) fresh w = (y, w2)"
proof -
  let ?h = "handler canon ttl mx"
  have run: "h_download L W ?h rq i fresh w = (y, w2)"
    using assms(13) by (simp add: mux_download [OF assms(1)])
  have meta: "Service_Metadata L (fh_svc ?h) i w = (Inr f, w)"
    using Metadata_quiet [of w L i canon c] assms(4-9) by simp
  show ?thesis
  proof (cases "representable r")
    case True
    then show ?thesis
      using range_request_answer [OF run assms(2) True assms(3) meta _ assms(10-12)] by simp
  next
    case False
    have "gets_file (without_range rq) i"
      using assms(1) by (simp add: gets_file_def without_range_def)
    moreover have "h_download L W ?h rq i fresh w = h_download L W ?h (without_range rq) i fresh w"
      using unrepresentable_ignored [OF False assms(3)] by (intro ignored_range [OF _ _ meta]) (simp_all add: assms(2))
    ultimately show ?thesis
      using False run by (simp add: mux_download)
  qed
qed

theorem range_request_exact_witness:
  "\<exists>x w y v. mux_ServeHTTP demo_libs demo_web id (site Some None 0 0) (post_request [] [1, 2, 3]) fresh web_start =
      (x, w) \<and>
    mux_ServeHTTP demo_libs demo_web id (site Some None 0 0) (get_request [(''Range'', ''bytes=1-'')] []) fresh w =
      (y, v) \<and> sent_status y = Some 206 \<and> x_Body y = [Raw_bytes [2, 3]]"
proof -
  let ?rq = "get_request [(''Range'', ''bytes=1-'')] []"
  obtain x w g where post:
    "mux_ServeHTTP demo_libs demo_web id (site Some None 0 0) (post_request [] [1, 2, 3]) fresh web_start = (x, w)"
    "quiet w" "f_ID g = ''a''"
    "fs.stored Some demo_libs (upload_input demo_web (handler Some 0 0) (post_request [] [1, 2, 3]) None)
       web_start g w"
    by (rule demo_post)
  obtain ob where st: "fs.good w" "pg_rows (w_repo w) ''a'' = Some (g\<lparr>f_DeletedAt := None\<rparr>)"
    "m_map (w_store w) (f_StorageKey g) = Some ob" "o_data ob = [1, 2, 3]" "matches demo_libs g ob"
    using post(3,4) stored_rest [OF post(4)]
    by (cases g) (auto simp: fs.stored_def upload_input_def post_request_facts)
  obtain y v where get: "mux_ServeHTTP demo_libs demo_web id (site Some None 0 0) ?rq fresh w = (y, v)"
    by (metis surj_pair)
  have one: "show_nat 1 = ''1''"
    by code_simp
  have rq: "gets_file ?rq ''a''" "header_Get (rq_Header ?rq) ''Range'' = ''bytes='' @ show_spec (From 1) @ []"
    "representable (From 1)" "range_tail []" "lib_uuid_ok demo_libs ''a''"
    by (simp_all add: get_request_def gets_file_def header_Get_def range_tail_def demo_libs_def
        one [simplified])
  have ob: "m_map (w_store w) (f_StorageKey (g\<lparr>f_DeletedAt := None\<rparr>)) = Some ob"
    "matches demo_libs (g\<lparr>f_DeletedAt := None\<rparr>) ob" "length (o_data ob) < 2 ^ 63" "live (g\<lparr>f_DeletedAt := None\<rparr>)"
    using st by (simp_all add: matches_def)
  have sel: "selects (From 1) 3 = {1, 2}" "length (o_data ob) = 3"
    by (auto simp: st(4))
  have "range_response (From 1) (o_data ob) y \<Longrightarrow> sent_status y = Some 206 \<and> x_Body y = [Raw_bytes [2, 3]]"
    unfolding range_response_def Let_def sel by (simp add: st(4) nths_Cons)
  with range_request_exact [OF rq(1,2,4) st(1) post(2) rq(5) refl st(2) ob(4,1,2,3) get] rq(3) show ?thesis
    using post(1) get by (metis (no_types))
qed

end
