(* ===== verification/Paging.thy ===== *)
theory Paging
  imports ApiModel
begin

text \<open>
  Keyset pagination, from the \<open>order by id desc limit\<close> of the query through the handler's
  \<open>next_cursor\<close> to a client that follows it: the client sees every matching file once.
\<close>

section \<open>Pages of a descending list\<close>

abbreviation descending :: "File list \<Rightarrow> bool" where
  "descending \<equiv> sorted_wrt (\<lambda>f g. f_ID g < f_ID f)"

lemma newest_first_filter: "newest_first (filter P fs) = filter P (newest_first fs)"
  by (simp add: newest_first_def filter_sort flip: rev_filter)

lemma newest_first_sel [simp]:
  "set (newest_first fs) = set fs" "length (newest_first fs) = length fs"
  by (simp_all add: newest_first_def)

lemma newest_first_descending:
  assumes "distinct (map f_ID fs)"
  shows "descending (newest_first fs)"
proof -
  have "distinct (map f_ID (sort_key f_ID fs))"
    using assms by (simp add: distinct_map)
  then have "sorted_wrt (<) (map f_ID (sort_key f_ID fs))"
    by (simp add: strict_sorted_iff)
  then show ?thesis
    by (simp add: newest_first_def sorted_wrt_rev sorted_wrt_map)
qed

text \<open>Below the last file of what has been seen comes what has not.\<close>

lemma below_last:
  assumes "descending (A @ R)" and "A \<noteq> []"
  shows "filter (\<lambda>f. f_ID f < f_ID (last A)) (A @ R) = R"
proof -
  have R: "\<forall>g\<in>set R. f_ID g < f_ID (last A)"
    using assms by (simp add: sorted_wrt_append)
  obtain B f where A: "A = B @ [f]"
    using assms(2) by (cases A rule: rev_cases) auto
  then have "\<forall>g\<in>set A. \<not> f_ID g < f_ID (last A)"
    using assms(1) by (auto simp: sorted_wrt_append dest: order_less_asym)
  with R show ?thesis
    by (auto simp: filter_id_conv intro!: filter_True filter_False)
qed

lemma list_cond_cursor: "list_cond flt (Some c) = (\<lambda>f. list_cond flt None f \<and> f_ID f < c)"
  by (simp add: list_cond_def fun_eq_iff conj_ac)

lemma page_after:
  assumes "newest_first (filter (list_cond flt None) fs) = A @ R" and "A \<noteq> []"
    and "distinct (map f_ID fs)"
  shows "newest_first (filter (list_cond flt (Some (f_ID (last A)))) fs) = R"
proof -
  have "filter (list_cond flt (Some (f_ID (last A)))) fs =
      filter (\<lambda>f. f_ID f < f_ID (last A)) (filter (list_cond flt None) fs)"
    by (simp add: list_cond_cursor conj_commute)
  then have "newest_first (filter (list_cond flt (Some (f_ID (last A)))) fs) =
      filter (\<lambda>f. f_ID f < f_ID (last A)) (A @ R)"
    unfolding assms(1) [symmetric] by (simp only: newest_first_filter)
  moreover have "descending (newest_first (filter (list_cond flt None) fs))"
    using assms(3) by (intro newest_first_descending distinct_map_filter)
  ultimately show ?thesis
    using assms(1,2) below_last [of A R] by simp
qed

section \<open>The limit\<close>

lemma clampLimit_range: "1 \<le> sint (clampLimit n) \<and> sint (clampLimit n) \<le> 500"
  by (auto simp: clampLimit_def listDefaultLimit_api_def listMaxLimit_api_def int64_simps)

text \<open>The bounds applied by the handler are those of the query, so it echoes what was used.\<close>

lemma page_limit_clamp: "page_limit n = clampLimit n" "page_limit (clampLimit n) = clampLimit n"
  by (auto simp: page_limit_def clampLimit_def listDefaultLimit_api_def listMaxLimit_api_def
      listDefaultLimit_def listMaxLimit_def int64_simps Let_def)

section \<open>The walk\<close>

text \<open>\<open>GET /files\<close> with the query \<open>q\<close>, and the cursor once there is one.\<close>

definition list_request :: "(string \<times> string list) list \<Rightarrow> string \<Rightarrow> request" where
  "list_request q cur = \<lparr>rq_Method = ''GET'', rq_Path = [''files''],
     rq_Query = (if cur = [] then q else (''cursor'', [cur]) # q), rq_Header = [],
     rq_ContentLength = 0,
     rq_Body = \<lparr>src_data = [], src_final = EOF, src_sizes = [], src_eager = False\<rparr>\<rparr>"

definition query_filter :: "(string \<times> string list) list \<Rightarrow> int64 \<Rightarrow> string \<Rightarrow> listFilter" where
  "query_filter q n cur =
     \<lparr>lf_ContentType = values_Get q ''content_type'', lf_Tags = tagParams q, lf_Limit = clampLimit n,
      lf_Cursor = cur\<rparr>"

text \<open>A client that follows \<open>next_cursor\<close> and collects the files.\<close>

fun client_walk ::
  "nat \<Rightarrow> libs \<Rightarrow> weblibs \<Rightarrow> (exchange \<Rightarrow> exchange) \<Rightarrow> (memstore, db, unit) deps \<Rightarrow>
    (string \<times> string list) list \<Rightarrow> string \<Rightarrow> (memstore, db) world \<Rightarrow> json list option" where
  "client_walk 0 L W expose d q cur w = None"
| "client_walk (Suc n) L W expose d q cur w =
     (case mux_ServeHTTP L W expose d (list_request q cur) fresh w of
        (x, w') \<Rightarrow>
          (case x_Body x of
             [Json (JObj ms)] \<Rightarrow>
               (case (map_of ms ''files'', map_of ms ''next_cursor'') of
                  (Some (JArr fs), None) \<Rightarrow> Some fs
                | (Some (JArr fs), Some (JStr c)) \<Rightarrow>
                    map_option (\<lambda>rest. fs @ rest) (client_walk n L W expose d q c w')
                | _ \<Rightarrow> None)
           | _ \<Rightarrow> None))"

lemma list_request_sel:
  assumes "map_of q ''cursor'' = None"
  shows "values_Get (rq_Query (list_request q cur)) ''cursor'' = cur"
    "values_Get (rq_Query (list_request q cur)) ''limit'' = values_Get q ''limit''"
    "values_Get (rq_Query (list_request q cur)) ''content_type'' = values_Get q ''content_type''"
    "tagParams (rq_Query (list_request q cur)) = tagParams q"
  using assms
  by (auto simp: list_request_def values_Get_def cut_prefix_def has_prefix_def tagPrefix_def)

lemma mux_list:
  "mux_ServeHTTP L W expose (site canon ready ttl mx) (list_request q cur) fresh w =
    h_list L W (handler canon ttl mx) (list_request q cur) fresh w"
  by (simp add: mux_defs list_request_def)

text \<open>One request gets one page.\<close>

lemma list_page:
  assumes "map_of q ''cursor'' = None" and "atoiDefault (values_Get q ''limit'') 0 = Inr n"
    and "quiet w" and "cur \<noteq> [] \<Longrightarrow> lib_uuid_ok L cur \<and> canon cur = Some cur"
  shows "mux_ServeHTTP L W expose (site canon ready ttl mx) (list_request q cur) fresh w =
    (writeJSON 200 (listResponse_json W (page_response (clampLimit n)
       (take (nat (sint (clampLimit n)))
         (newest_first (filter (list_cond (query_filter q n []) (if cur = [] then None else Some cur))
           (d_files (w_repo w))))))) fresh, w)"
proof -
  have cond: "list_cond (query_filter q n cur) = list_cond (query_filter q n [])"
    by (simp add: list_cond_def query_filter_def fun_eq_iff)
  have "Service_List L (model canon) (query_filter q n cur) w =
    (Inr (take (nat (sint (clampLimit n)))
       (newest_first (filter (list_cond (query_filter q n []) (if cur = [] then None else Some cur))
         (d_files (w_repo w))))), w)"
    using assms(3,4)
    by (auto simp: Service_List_def on_repo_def pg_List_def send_quiet quiet_def sql_list_def Let_def
        cond page_limit_clamp(2) validID_def)
      (auto simp: query_filter_def page_limit_clamp(2))
  then show ?thesis
    using assms(2)
    by (simp add: mux_list h_list_def Let_def list_request_sel [OF assms(1)] query_filter_def)
qed

text \<open>What the client reads off a page.\<close>

lemma page_fields:
  fixes n :: int64 and R :: "File list"
  assumes "1 \<le> sint n" and "\<forall>f\<in>set R. f_ID f \<noteq> []"
  defines "k \<equiv> nat (sint n)"
  obtains ms where "listResponse_json W (page_response n (take k R)) = JObj ms"
    "map_of ms ''files'' = Some (JArr (map (fileResponse_json W \<circ> toResponse) (take k R)))"
    "map_of ms ''next_cursor'' =
      (if length R < k then None else Some (JStr (f_ID (last (take k R)))))"
proof -
  have k: "0 < k" "int k = sint n"
    using assms(1) by (simp_all add: k_def)
  have full: "int (length (take k R)) = sint n \<longleftrightarrow> \<not> length R < k"
    using k(2) by auto
  have "f_ID (last (take k R)) \<noteq> []" if "\<not> length R < k"
    using assms(2) k(1) that in_set_takeD [of "last (take k R)" k R] last_in_set [of "take k R"] by fastforce
  moreover have "fr_ID (last (map toResponse (take k R))) = f_ID (last (take k R))" if "\<not> length R < k"
  proof -
    have "take k R \<noteq> []"
      using that k(1) by auto
    from last_map [OF this, of toResponse] show ?thesis
      by (simp add: toResponse_def)
  qed
  ultimately show thesis
    using full k(1)
    by (intro that [OF refl [THEN trans [OF listResponse_json_def]]])
      (auto simp: page_response_def Let_def)
qed

lemma walk_from:
  fixes w :: "(memstore, db) world" and n :: int64
  assumes q: "map_of q ''cursor'' = None" "atoiDefault (values_Get q ''limit'') 0 = Inr n"
    and w: "quiet w" "distinct (map f_ID (d_files (w_repo w)))"
    and ids: "\<forall>f\<in>set (d_files (w_repo w)). f_ID f \<noteq> [] \<and> lib_uuid_ok L (f_ID f) \<and> canon (f_ID f) = Some (f_ID f)"
    and all: "newest_first (filter (list_cond (query_filter q n []) None) (d_files (w_repo w))) = A @ R"
    and cur: "cur = (if A = [] then [] else f_ID (last A))" and fuel: "length R < m"
  shows "client_walk m L W expose (site canon ready ttl mx) q cur w =
    Some (map (fileResponse_json W \<circ> toResponse) R)"
  using all cur fuel
proof (induction m arbitrary: A R cur)
  case (Suc m)
  let ?files = "d_files (w_repo w)" and ?flt = "query_filter q n []" and ?k = "nat (sint (clampLimit n))"
  have k: "1 \<le> sint (clampLimit n)" "0 < ?k"
    using clampLimit_range [of n] by simp_all
  have sub: "set (A @ R) \<subseteq> set ?files"
    unfolding Suc.prems(1) [symmetric] by auto
  have lastA: "f_ID (last A) \<noteq> [] \<and> lib_uuid_ok L (f_ID (last A)) \<and> canon (f_ID (last A)) = Some (f_ID (last A))"
    if "A \<noteq> []"
    using that sub ids by (auto dest!: subsetD [OF _ last_in_set])
  then have rest: "newest_first (filter (list_cond ?flt (if cur = [] then None else Some cur)) ?files) = R"
    using Suc.prems(1,2) page_after [OF Suc.prems(1) _ w(2)] by auto
  have cur: "cur \<noteq> [] \<Longrightarrow> lib_uuid_ok L cur \<and> canon cur = Some cur"
    using lastA Suc.prems(2) by (auto split: if_splits)
  have ne: "\<forall>f\<in>set R. f_ID f \<noteq> []"
    using sub ids by auto
  obtain ms where ms: "listResponse_json W (page_response (clampLimit n) (take ?k R)) = JObj ms"
    "map_of ms ''files'' = Some (JArr (map (fileResponse_json W \<circ> toResponse) (take ?k R)))"
    "map_of ms ''next_cursor'' =
      (if length R < ?k then None else Some (JStr (f_ID (last (take ?k R)))))"
    by (rule page_fields [OF k(1) ne])
  note page = list_page [where canon = canon and L = L and W = W and expose = expose and ready = ready
      and ttl = ttl and mx = mx, OF q w(1) cur, unfolded rest ms(1)]
  show ?case
  proof (cases "length R < ?k")
    case True
    then show ?thesis
      using page ms(2,3) by simp
  next
    case False
    then have R: "take ?k R \<noteq> []"
      using k(2) by auto
    have "client_walk m L W expose (site canon ready ttl mx) q (f_ID (last (take ?k R))) w =
        Some (map (fileResponse_json W \<circ> toResponse) (drop ?k R))"
    proof (rule Suc.IH)
      show "newest_first (filter (list_cond ?flt None) ?files) = (A @ take ?k R) @ drop ?k R"
        using Suc.prems(1) by simp
      show "f_ID (last (take ?k R)) = (if A @ take ?k R = [] then [] else f_ID (last (A @ take ?k R)))"
        using R by simp
      show "length (drop ?k R) < m"
        using Suc.prems(3) False k(2) by auto
    qed
    then show ?thesis
      using page ms(2,3) False by (simp flip: map_append)
  qed
qed simp

text \<open>C12. A client that follows the cursors sees everything once: the walk ends, and returns each
  live file that matches the content type and the tags exactly once, newest first, whatever
  limit was asked for.\<close>

theorem list_walk_complete:
  assumes "map_of q ''cursor'' = None" and "atoiDefault (values_Get q ''limit'') 0 = Inr n"
    and "quiet w" and "tables_ok (w_repo w)"
    and "\<forall>f\<in>set (d_files (w_repo w)). f_ID f \<noteq> [] \<and> lib_uuid_ok L (f_ID f) \<and> canon (f_ID f) = Some (f_ID f)"
    and "length (d_files (w_repo w)) < m"
  shows "\<exists>fs. client_walk m L W expose (site canon ready ttl mx) q [] w =
      Some (map (fileResponse_json W \<circ> toResponse) fs) \<and>
    set fs = {f \<in> set (d_files (w_repo w)). live f \<and>
      (values_Get q ''content_type'' = [] \<or> f_ContentType f = values_Get q ''content_type'') \<and>
      (tagParams q = [] \<or>
        jsonb_contains (JObj (case f_Metadata f of None \<Rightarrow> [] | Some t \<Rightarrow> t)) (JObj (tagParams q)))} \<and>
    sorted_wrt (\<lambda>f g. f_ID g < f_ID f) fs"
proof -
  let ?files = "d_files (w_repo w)"
  let ?fs = "newest_first (filter (list_cond (query_filter q n []) None) ?files)"
  have ids: "distinct (map f_ID ?files)"
    using assms(4) by (simp add: tables_ok_def)
  have "length ?fs < m"
    using assms(6) le_less_trans [OF length_filter_le] by (simp only: newest_first_sel)
  then have "client_walk m L W expose (site canon ready ttl mx) q [] w =
      Some (map (fileResponse_json W \<circ> toResponse) ?fs)"
    using walk_from [OF assms(1,2,3) ids assms(5), of "[]" ?fs "[]"] by simp
  moreover have "descending ?fs"
    using ids by (intro newest_first_descending distinct_map_filter)
  ultimately show ?thesis
    by (intro exI [of _ ?fs]) (auto simp: list_cond_def query_filter_def)
qed

definition page_world :: "(memstore, db) world" where
  "page_world = web_start\<lparr>w_repo := \<lparr>d_files = map web_file [''a'', ''c'', ''b''], d_idem = [], d_now = 0,
     d_faults = []\<rparr>\<rparr>"

theorem list_walk_complete_witness:
  "\<exists>fs. client_walk 4 demo_libs demo_web id (site Some None 0 0) [(''limit'', [''2''])] [] page_world =
      Some (map (fileResponse_json demo_web \<circ> toResponse) fs) \<and> f_ID ` set fs = {''a'', ''b'', ''c''}"
proof -
  let ?q = "[(''limit'', [''2''])]"
  have two: "parse_int64 ''2'' = Inr 2"
    by (simp add: parse_eval)
  have q: "map_of ?q ''cursor'' = None" "atoiDefault (values_Get ?q ''limit'') 0 = Inr 2"
    "values_Get ?q ''content_type'' = []" "tagParams ?q = []"
    by (simp_all add: atoiDefault_def values_Get_def two cut_prefix_def has_prefix_def tagPrefix_def)
  have w: "quiet page_world" "tables_ok (w_repo page_world)"
    by (simp_all add: page_world_def quiet_def tables_ok_def web_file_def)
  have ids: "\<forall>f\<in>set (d_files (w_repo page_world)). f_ID f \<noteq> [] \<and> lib_uuid_ok demo_libs (f_ID f) \<and>
      Some (f_ID f) = Some (f_ID f)"
    by (simp add: page_world_def web_file_def demo_libs_def)
  have len: "length (d_files (w_repo page_world)) < 4"
    by (simp add: page_world_def)
  have "f_ID ` {f \<in> set (d_files (w_repo page_world)). live f} = {''a'', ''b'', ''c''}"
    unfolding set_filter [symmetric] by (auto simp: page_world_def web_file_def)
  moreover obtain fs where "client_walk 4 demo_libs demo_web id (site Some None 0 0) ?q [] page_world =
      Some (map (fileResponse_json demo_web \<circ> toResponse) fs)"
    "set fs = {f \<in> set (d_files (w_repo page_world)). live f}"
    using list_walk_complete [where expose = id and W = demo_web and ready = None and ttl = 0 and mx = 0,
      OF q(1,2) w ids len] unfolding q(3,4) simp_thms by blast
  ultimately show ?thesis
    by metis
qed

end
