(* ===== verification/ApiErrors.thy ===== *)
theory ApiErrors
  imports ApiModel
begin

text \<open>
  What the HTTP interface does when things go wrong: the status of every error, the hiding
  of internal ones, the panic of a null \<open>X-Metadata\<close> header, and readiness.
\<close>

section \<open>Every request is answered, and recorded as it was\<close>

text \<open>The route a request is recorded under: the pattern that the mux serves it by.\<close>

definition served_pattern :: "('s, 'd, 'c) deps \<Rightarrow> request \<Rightarrow> string" where
  "served_pattern d rq =
     (case mux_Handler (router_patterns d) rq of None \<Rightarrow> ''unmatched'' | Some (p, _) \<Rightarrow> pattern_text p)"

text \<open>C26. Every request whose handler does not panic is answered with a status, and observed by exactly
  one count and one duration, which carry this status, the method, and the pattern of the route that
  serves the request, or \<open>unmatched\<close> where there is none: one of finitely many, never the raw
  path.  A request whose handler panics is not observed.\<close>

theorem answered_and_observed:
  assumes "instrument L W expose d elapsed rq w m = (x, w', m')" and "answered (expose fresh)"
  shows "served_pattern d rq \<in> insert ''unmatched'' (pattern_text ` set (router_patterns d)) \<and>
    (if x_Panic x = None
     then \<exists>code. sent_status x = Some code \<and>
       m' = m @ [Inc httpRequests [rq_Method rq, served_pattern d rq, show_nat code],
                 Observe httpDuration [rq_Method rq, served_pattern d rq] elapsed]
     else m' = m)"
proof -
  have mem: "mux_Handler pats rq = Some (p, vs) \<Longrightarrow> p \<in> set pats" for pats p vs
    by (induction pats rq rule: mux_Handler.induct) (auto split: option.splits if_splits)
  then have pat: "served_pattern d rq \<in> insert ''unmatched'' (pattern_text ` set (router_patterns d))"
    by (auto simp: served_pattern_def split: option.splits)
  have "answered x" if "x_Panic x = None"
    using served_mux [of expose L W d rq w, OF assms(2)] assms(1) that
    by (auto simp: instrument_def served_def split: prod.splits)
  then show ?thesis
    using assms(1) pat
    by (auto simp: instrument_def ObserveRequest_def answered_def served_pattern_def Let_def split: prod.splits)
qed

theorem answered_and_observed_witness:
  "\<exists>x w' m'. instrument demo_libs demo_web (writePlain 200 ''metrics'') (site Some None 0 0) 7
      (get_request [] []) web_start [] = (x, w', m') \<and> sent_status x = Some 404 \<and>
    m' = [Inc httpRequests [''GET'', ''GET /files/{id}'', show_nat 404],
          Observe httpDuration [''GET'', ''GET /files/{id}''] 7]"
proof -
  let ?go = "instrument demo_libs demo_web (writePlain 200 ''metrics'') (site Some None 0 0) 7
    (get_request [] []) web_start []"
  have mux: "mux_ServeHTTP demo_libs demo_web (writePlain 200 ''metrics'') (site Some None 0 0)
      (get_request [] []) fresh web_start = (writeError FilesNotFound fresh, web_start)"
  proof -
    have "Service_Metadata demo_libs (model Some) ''a'' web_start = (Inl FilesNotFound, web_start)"
      using Metadata_quiet [OF web_start_facts(1,2), of demo_libs "''a''" Some "''a''"] web_start_facts(5)
      by (simp add: demo_libs_def)
    then show ?thesis
      by (simp add: mux_download [of _ "''a''"] gets_file_def get_request_def h_download_def header_Get_def
          values_Get_def downloadRedirect_def Service_Presign_def handle_error_def)
  qed
  obtain x w' m' where go: "?go = (x, w', m')"
    by (metis surj_pair)
  then have x: "x = writeError FilesNotFound fresh"
    using mux by (simp add: instrument_def)
  have "answered (writePlain 200 ''metrics'' fresh)" "x_Panic x = None" "sent_status x = Some 404"
    by (simp_all add: x answered_plain writeError_def)
  moreover have "served_pattern (site Some None 0 0) (get_request [] []) = ''GET /files/{id}''"
    "rq_Method (get_request [] []) = ''GET''"
    by (simp_all add: served_pattern_def get_request_def mux_defs pattern_text_def)
  ultimately show ?thesis
    using answered_and_observed [OF go] go by fastforce
qed

section \<open>Internal errors stay inside\<close>

text \<open>The errors that \<open>writeError\<close> tells the client about.\<close>

abbreviation sentinels :: "goerr set" where
  "sentinels \<equiv> {FilesNotFound, InvalidID, IdempotencyConflict, IdempotencyResultGone}"

definition foreign :: "goerr \<Rightarrow> bool" where
  "foreign e \<longleftrightarrow> (\<forall>s\<in>sentinels. \<not> errors_is e s)"

text \<open>An error is clean when it is one of them bare, or none of them however deep.\<close>

definition clean :: "goerr \<Rightarrow> bool" where
  "clean e \<longleftrightarrow> e \<in> sentinels \<or> foreign e"

lemma foreign_simps [simp]:
  "foreign (Wrapped p e) = foreign e" "foreign (Opaque t)" "foreign (Panicked t)" "foreign MetadataNotFound"
  "foreign StorageNotFound" "foreign ChecksumMismatch" "foreign UploadTooLarge" "foreign EOF"
  "foreign NoRows" "foreign uuid_syntax" "foreign unique_violation"
  by (auto simp: foreign_def uuid_syntax_def unique_violation_def)

lemma clean_simps [simp]:
  "foreign e \<Longrightarrow> clean e" "clean FilesNotFound" "clean InvalidID" "clean IdempotencyConflict"
  "clean IdempotencyResultGone"
  by (simp_all add: clean_def)

lemma clean_translate: "foreign e \<Longrightarrow> clean (translateNotFound e)"
  by (simp add: translateNotFound_def)

text \<open>The tables and the store know none of them.\<close>

lemma send_foreign:
  assumes "send f d = (Inl e, d')" and "\<And>b b' e. f b = (Inl e, b') \<Longrightarrow> foreign e"
  shows "foreign e"
  using assms by (auto simp: send_def Let_def split: list.splits fault.splits)

lemma sql_foreign:
  "sql_get canon i d = (Inl e, d') \<Longrightarrow> foreign e"
  "sql_insert_file canon f d = (Inl e, d') \<Longrightarrow> foreign e"
  "sql_update_live canon g i d = (Inl e, d') \<Longrightarrow> foreign e"
  "sql_list canon flt d = (Inl e, d') \<Longrightarrow> foreign e"
  "sql_claim k d = (Inl e, d') \<Longrightarrow> foreign e"
  "sql_read_idem k d = (Inl e, d') \<Longrightarrow> foreign e"
  by (auto simp: sql_get_def sql_insert_file_def sql_update_live_def sql_list_def Let_def sql_claim_def
      sql_read_idem_def split: option.splits if_splits)

lemma send_sql_foreign:
  "send (sql_get canon i) d = (Inl e, d') \<Longrightarrow> foreign e"
  "send (sql_insert_file canon f) d = (Inl e, d') \<Longrightarrow> foreign e"
  "send (sql_update_live canon g i) d = (Inl e, d') \<Longrightarrow> foreign e"
  "send (sql_list canon flt) d = (Inl e, d') \<Longrightarrow> foreign e"
  "send (sql_claim k) d = (Inl e, d') \<Longrightarrow> foreign e"
  "send (sql_read_idem k) d = (Inl e, d') \<Longrightarrow> foreign e"
  "send (sql_rows h) d = (Inl e, d') \<Longrightarrow> foreign e"
  "send (sql_complete k i) d = (Inl e, d') \<Longrightarrow> foreign e"
  "commit d0 d = (Inl e, d') \<Longrightarrow> foreign e"
  by (auto simp: sql_rows_def sql_complete_def commit_def intro: sql_foreign elim!: send_foreign)

lemma pg_foreign:
  "pg_Get canon i d = (Inl e, d') \<Longrightarrow> foreign e"
  "insertFile canon f d = (Inl e, d') \<Longrightarrow> foreign e"
  "pg_Delete canon i d = (Inl e, d') \<Longrightarrow> foreign e"
  "pg_UpdateMetadata canon i tags mrg d = (Inl e, d') \<Longrightarrow> foreign e"
  "pg_List canon flt d = (Inl e, d') \<Longrightarrow> foreign e"
  "pg_ClaimIdempotencyKey k d = (Inl e, d') \<Longrightarrow> foreign e"
  by (auto simp: pg_Get_def insertFile_def pg_Delete_def pg_UpdateMetadata_def pg_List_def Let_def
      pg_ClaimIdempotencyKey_def dest: send_sql_foreign
      split: sum.splits prod.splits list.splits if_splits)

lemma pg_CreateForKey_foreign: "pg_CreateForKey canon f k d = (Inl e, d') \<Longrightarrow> foreign e"
  by (auto simp: pg_CreateForKey_def dest: pg_foreign(2) send_sql_foreign
      split: sum.splits prod.splits if_splits)

lemma mem_foreign:
  "mem_Get k s = (Inl e, s') \<Longrightarrow> foreign e" "mem_GetRange k off len s = (Inl e, s') \<Longrightarrow> foreign e"
  "mem_Stat k s = (Inl e, s') \<Longrightarrow> foreign e" "mem_PresignGet k ttl s = (Inl e, s') \<Longrightarrow> foreign e"
  by (auto simp: mem_Get_def mem_GetRange_def mem_Stat_def mem_PresignGet_def Let_def
      split: option.splits if_splits)

text \<open>So every error of the service is clean.\<close>

lemma service_clean:
  "Service_Metadata L (model canon) i w = (Inl e, w') \<Longrightarrow> clean e"
  "Service_Delete L (model canon) i w = (Inl e, w') \<Longrightarrow> clean e"
  "Service_UpdateMetadata L (model canon) i tags mrg w = (Inl e, w') \<Longrightarrow> clean e"
  "Service_List L (model canon) flt w = (Inl e, w') \<Longrightarrow> clean e"
  by (auto simp: Service_Metadata_def Service_Delete_def Service_UpdateMetadata_def Service_List_def
      on_repo_def dest!: pg_foreign intro!: clean_translate split: if_splits sum.splits prod.splits)

lemma service_read_clean:
  "Service_Open L (model canon) i w = (Inl e, w') \<Longrightarrow> clean e"
  "Service_Presign L (model canon) i ttl w = (Inl e, w') \<Longrightarrow> clean e"
  "Service_OpenRange (model canon) f off len w = (Inl e, w') \<Longrightarrow> clean e"
  by (auto simp: Service_Open_def Service_Presign_def Service_OpenRange_def on_store_def
      dest!: mem_foreign intro: service_clean(1) intro!: clean_translate split: sum.splits prod.splits)

lemma stage_foreign:
  assumes "stage L (model canon) inp w = (Inl e, b, w')" and "foreign (body_fin (in_Body inp))"
    and "\<forall>n e. w_uuids w n = Inl e \<longrightarrow> foreign e"
  shows "foreign e"
proof -
  have put: "foreign e'"
    if "sniff L inp (new_upload (in_Body inp)) = (ct, src)" "mem_Put upload_ReadAll k src n ct s = (Inl e', src', s')"
    for ct src k n s e' src' s'
    using that assms(2) fs.sniff_facts(1,3) [OF that(1)] upload_ReadAll_result [of src]
    by (auto simp: mem_Put_def eof_nil_def split: prod.splits option.splits if_splits)
  show ?thesis
    using assms(1,3)
    by (auto simp: stage_def newID_def resolve_size_def on_store_def dest: put mem_foreign(3)
        split: sum.splits prod.splits if_splits)
qed

lemma upload_clean:
  assumes "run_upload L (model canon) key inp w = (Inl e, b, w')" and "foreign (body_fin (in_Body inp))"
    and "\<forall>n e. w_uuids w n = Inl e \<longrightarrow> foreign e"
  shows "clean e"
proof (cases "key = []")
  case True
  then have "Service_Upload L (model canon) inp w = (Inl e, b, w')"
    using assms(1) by (auto simp: run_upload_def split: prod.splits sum.splits) (auto simp: map_sum_def split: sum.splits)
  then show ?thesis
    using stage_foreign [OF _ assms(2,3)]
    by (auto simp: Service_Upload_def on_repo_def pg_Create_def dest: pg_foreign(2) split: sum.splits prod.splits)
next
  case False
  have staged: "foreign e'" if "stage L (model canon) inp v = (Inl e', b', w2)" "w_uuids v = w_uuids w" for e' b' v w2
    using stage_foreign [OF that(1) assms(2)] assms(3) that(2) by simp
  have replay: "clean e'" if "replay (model canon) ex v = (Inl e', w2)" for ex v e' w2
    using that
    by (auto simp: replay_def on_repo_def dest: pg_foreign(1) split: option.splits bool.splits sum.splits prod.splits if_splits)
  have "Service_UploadIdempotent L (model canon) key inp w = (Inl e, b, w')"
    using assms(1) False by (simp add: run_upload_def)
  then show ?thesis
    by (auto simp: Service_UploadIdempotent_def on_repo_def dest: staged replay pg_foreign(6) pg_CreateForKey_foreign
        split: sum.splits prod.splits bool.splits)
qed

definition public_messages :: "string set" where
  "public_messages = {''files: not found'', ''files: invalid id'', ''files: idempotency key conflict'',
     ''the file created under this Idempotency-Key was deleted; use a new key'', ''unsatisfiable range'',
     ''internal server error''}"

text \<open>
  What is wrong with a request, from the request, the syntax of its parts and the cap alone: no call to
  the database or the store has a say in it.
\<close>

definition client_errors :: "weblibs \<Rightarrow> int64 \<Rightarrow> request \<Rightarrow> string set" where
  "client_errors W mx rq =
     {''Idempotency-Key too long'', ''limit must be an integer'', ''body must be a JSON object, not null'',
      ''upload exceeds the '' @ show_int64 mx @ ''-byte limit'',
      ''metadata body exceeds the '' @ show_nat maxMetadataBodyBytes @ ''-byte limit''} \<union>
     {error_text e | e. uploadTags W rq = Inl e} \<union>
     {''body must be a JSON object: '' @ error_text e | e.
        decode_capped W maxMetadataBodyBytes (rq_Body rq) None = Inl (Some e)}"

definition plain_texts :: "string set" where
  "plain_texts = (\<lambda>t. t @ [CHR 0x0A]) ` {''ok'', ''404 page not found'', ''Method Not Allowed''}"

text \<open>
  The error of a response is a public message or says what is wrong with the request; its plain text is
  one of three, or the link of a redirect.
\<close>

definition discreet :: "weblibs \<Rightarrow> int64 \<Rightarrow> request \<Rightarrow> exchange \<Rightarrow> bool" where
  "discreet W mx rq x \<longleftrightarrow> (\<forall>p\<in>set (x_Body x).
     case p of
       Json j \<Rightarrow> (\<forall>m. j = errorBody m \<longrightarrow> m \<in> public_messages \<union> client_errors W mx rq)
     | Text t \<Rightarrow> t \<in> plain_texts \<or> sent_status x = Some 302
     | Raw_bytes bs \<Rightarrow> True)"

lemma no_error_body [simp]:
  "fileResponse_json W r \<noteq> errorBody m" "listResponse_json W l \<noteq> errorBody m"
  "errorBody m \<noteq> fileResponse_json W r" "errorBody m \<noteq> listResponse_json W l"
  "errorBody m = errorBody n \<longleftrightarrow> m = n"
  by (auto simp: fileResponse_json_def listResponse_json_def errorBody_def)

lemma discreet_simps [simp]:
  "discreet W mx rq (writeJSON s (fileResponse_json V r) (header_Set k v fresh))"
  "discreet W mx rq (writeJSON s (fileResponse_json V r) fresh)"
  "discreet W mx rq (writeJSON s (listResponse_json V l) fresh)"
  "discreet W mx rq (writeClientError s m fresh) \<longleftrightarrow> m \<in> public_messages \<union> client_errors W mx rq"
  "discreet W mx rq (statusWriter_WriteHeader s fresh)" "discreet W mx rq (panic t fresh)"
  "discreet W mx rq (writeJSON s (fileResponse_json V r) (header_Set k v (header_Set k' v' fresh)))"
  "discreet W mx rq (writeClientError s ''unsatisfiable range'' (header_Set k v fresh))"
  by (simp_all add: discreet_def public_messages_def)

lemma discreet_error: "clean e \<Longrightarrow> discreet W mx rq (handle_error e fresh)"
  by (cases e) (auto simp: discreet_def handle_error_def writeError_def public_messages_def clean_def foreign_def)

lemma discreet_redirect: "discreet W mx rq (http_Redirect r url 302 fresh)"
  by (simp add: discreet_def http_Redirect_def sent_status_def Let_def)

lemma discreet_stream:
  "downloadStream L V (handler canon ttl c) r i fresh w = (x, w') \<Longrightarrow> discreet W mx rq x"
  by (auto simp: downloadStream_def Let_def intro: discreet_error service_read_clean(1)
      split: sum.splits prod.splits option.splits) (auto simp: discreet_def split: option.splits if_splits)

lemma discreet_to_url:
  "downloadRedirect L (handler canon ttl c) r i fresh w = (x, w') \<Longrightarrow> discreet W mx rq x"
  by (auto simp: downloadRedirect_def intro: discreet_error service_read_clean(2) discreet_redirect
      split: sum.splits prod.splits)

lemma discreet_upload:
  assumes "h_upload L W (handler canon ttl mx) rq fresh w = (y, w')"
    and "foreign (src_final (rq_Body rq))" and "\<forall>n e. w_uuids w n = Inl e \<longrightarrow> foreign e"
  shows "discreet W mx rq y"
proof -
  have "foreign (body_fin (in_Body (upload_input W (handler canon ttl mx) rq tags)))" for tags
    using assms(2) by (simp add: upload_input_def capped_body_rest)
  with assms(1,3) show ?thesis
    by (auto simp: h_upload_def writeTooLarge_def client_errors_def Let_def intro!: discreet_error
        dest: upload_clean split: sum.splits goerr.splits if_splits prod.splits)
qed

lemma discreet_range:
  "downloadRange L V (handler canon ttl c) r i fresh w = (y, w') \<Longrightarrow> discreet W mx rq y"
  by (auto simp: downloadRange_def Let_def
      intro: discreet_error service_clean(1) service_read_clean(3) discreet_stream discreet_to_url
      split: sum.splits prod.splits rangeOutcome.splits if_splits option.splits)
    (auto simp: discreet_def split: option.splits if_splits)

lemma discreet_download:
  "h_download L V (handler canon ttl c) r i fresh w = (y, w') \<Longrightarrow> discreet W mx rq y"
  by (auto simp: h_download_def intro: discreet_range discreet_stream discreet_to_url split: if_splits)

lemma discreet_rest:
  "h_metadata L V (handler canon ttl c) i fresh w = (y, w') \<Longrightarrow> discreet W mx rq y"
  "h_delete L (handler canon ttl c) i fresh w = (y, w') \<Longrightarrow> discreet W mx rq y"
  "h_list L V (handler canon ttl c) r fresh w = (y, w') \<Longrightarrow> discreet W mx rq y"
  "h_patchMetadata L W (handler canon ttl c) rq i fresh w = (y, w') \<Longrightarrow> discreet W mx rq y"
  by (auto simp: h_metadata_def h_delete_def h_list_def h_patchMetadata_def client_errors_def Let_def
      intro: discreet_error service_clean split: sum.splits prod.splits option.splits)

lemma match_one: "match_path [Lit s] ps = (if ps = [s] then Some [] else None)"
proof (cases ps)
  case (Cons q qs)
  then show ?thesis
    by (cases qs) auto
qed simp

text \<open>C25. Internal errors do not reach the client of the file interface.  On every path but those of the
  readiness probe, which reports its failure as text, and of the metrics, whatever fails in the
  database, the store or the body, an error message in the response is one of six fixed ones or is
  determined by the request, the syntax of its parts and the upload cap; plain text is one of three
  fixed ones, or the link of a redirect.  The text of a failure only goes to the log.\<close>

theorem internal_errors_hidden:
  assumes "mux_ServeHTTP L W expose (site canon ready ttl mx) rq fresh w = (x, w')"
    and "rq_Path rq \<notin> {[''readyz''], [''metrics'']}"
    and "foreign (src_final (rq_Body rq))" and "\<forall>n e. w_uuids w n = Inl e \<longrightarrow> foreign e"
    and "p \<in> set (x_Body x)"
  shows "case p of
      Json j \<Rightarrow> (\<forall>m. j = errorBody m \<longrightarrow> m \<in> public_messages \<union> client_errors W mx rq)
    | Text t \<Rightarrow> t \<in> plain_texts \<or> sent_status x = Some 302
    | Raw_bytes bs \<Rightarrow> True"
proof -
  have plain: "discreet W mx rq (healthz fresh)" "discreet W mx rq (mux_unmatched pats rq fresh)" for pats
    by (simp_all add: discreet_def healthz_def writePlain_def mux_unmatched_def http_Error_def plain_texts_def Let_def)
  have "discreet W mx rq x"
  proof (cases "mux_Handler (router_patterns (site canon ready ttl mx)) rq")
    case None
    then show ?thesis
      using assms(1) plain(2) by (auto simp: mux_ServeHTTP_def)
  next
    case (Some q)
    obtain me segs r vs where q: "q = ((me, segs, r), vs)"
      by (cases q) auto
    then have r: "r \<noteq> Readyz" "r \<noteq> Metrics"
      using Some assms(2) by (auto simp: mux_defs match_one split: if_splits option.splits)
    have "serve_route L W expose (site canon ready ttl mx) r vs rq fresh w = (x, w')"
      using assms(1) Some q by (simp add: mux_ServeHTTP_def)
    then show ?thesis
      using r plain(1) discreet_upload [OF _ assms(3,4)] discreet_download discreet_rest
      by (cases r) (auto simp: serve_route_def)
  qed
  then show ?thesis
    using assms(5) by (auto simp: discreet_def)
qed

theorem internal_errors_hidden_witness:
  "\<exists>x w'. mux_ServeHTTP demo_libs demo_web id (site Some None 0 0) (get_request [] []) fresh
      (start web_uuids 0 [Lost ''password is secret'']) = (x, w') \<and>
    x_Body x = [Json (errorBody ''internal server error'')] \<and>
    ''internal server error'' \<in> public_messages \<union> client_errors demo_web 0 (get_request [] [])"
proof -
  let ?w = "start web_uuids 0 [Lost ''password is secret'']"
  let ?e = "Wrapped ''postgres: get file'' (Opaque ''password is secret'')"
  obtain v where "Service_Metadata demo_libs (model Some) ''a'' ?w = (Inl ?e, v)"
    by (simp add: Service_Metadata_def validID_def demo_libs_def on_repo_def pg_Get_def send_def start_def
        translateNotFound_def)
  then have run: "mux_ServeHTTP demo_libs demo_web id (site Some None 0 0) (get_request [] []) fresh ?w =
      (writeError ?e fresh, v)"
    by (simp add: mux_download [of _ "''a''"] gets_file_def get_request_def h_download_def header_Get_def
        values_Get_def downloadRedirect_def Service_Presign_def handle_error_def)
  have "rq_Path (get_request [] []) \<notin> {[''readyz''], [''metrics'']}"
    "foreign (src_final (rq_Body (get_request [] [])))" "\<forall>n e. w_uuids ?w n = Inl e \<longrightarrow> foreign e"
    "Json (errorBody ''internal server error'') \<in> set (x_Body (writeError ?e fresh))"
    by (simp_all add: get_request_def start_def web_uuids_def writeError_def)
  from internal_errors_hidden [OF run this] run show ?thesis
    by (auto simp: writeError_def)
qed

section \<open>A null header\<close>

text \<open>C38. \<open>X-Metadata: null\<close> is accepted as an empty tag set, unless the query also has tags: then
  the handler panics, because decoding \<open>null\<close> into the map has made it nil; the client gets no
  response and the request is not observed.\<close>

theorem null_metadata_panics:
  assumes "wl_Valid W ''null'' = Inr JNull" and "header_Get (rq_Header rq) ''X-Metadata'' = ''null''"
    and "posts_file rq key"
    and "instrument L W expose (site canon ready ttl mx) elapsed rq w m = (x, w', m')"
  shows "if tagParams (rq_Query rq) = [] then uploadTags W rq = Inr None
    else x_Panic x = Some ''assignment to entry in nil map'' \<and> sent_status x = None \<and> w' = w \<and> m' = m"
proof -
  have tags: "uploadTags W rq = (if tagParams (rq_Query rq) = [] then Inr None
      else Inl (Panicked ''assignment to entry in nil map''))"
    using assms(1,2) by (simp add: uploadTags_def json_Unmarshal_def into_map_def maps_Copy_def)
  then show ?thesis
    using assms(4) by (auto simp: instrument_def mux_upload [OF assms(3)] h_upload_def split: if_splits)
qed

theorem null_metadata_panics_witness:
  "\<exists>x. instrument demo_libs demo_web id (site Some None 0 0) 0
      ((post_request [(''X-Metadata'', ''null'')] [1])\<lparr>rq_Query := [(''tag.env'', [''prod''])]\<rparr>) web_start [] =
      (x, web_start, []) \<and> x_Panic x = Some ''assignment to entry in nil map'' \<and> sent_status x = None"
proof -
  let ?rq = "(post_request [(''X-Metadata'', ''null'')] [1])\<lparr>rq_Query := [(''tag.env'', [''prod''])]\<rparr>"
  have rq: "wl_Valid demo_web ''null'' = Inr JNull" "header_Get (rq_Header ?rq) ''X-Metadata'' = ''null''"
    "posts_file ?rq []" "tagParams (rq_Query ?rq) \<noteq> []"
    by (simp_all add: demo_web_def post_request_def header_Get_def posts_file_def cut_prefix_def
        has_prefix_def tagPrefix_def)
  obtain x w' m' where
    go: "instrument demo_libs demo_web id (site Some None 0 0) 0 ?rq web_start [] = (x, w', m')"
    by (metis surj_pair)
  from null_metadata_panics [OF rq(1,2,3) go] go rq(4) show ?thesis
    by auto
qed

end
