(* ===== verification/ApiEdits.thy ===== *)
theory ApiEdits
  imports ApiModel
begin

text \<open>
  Idempotent retries and metadata edits as HTTP requests: what a retry under a key is
  answered, and what a \<open>PATCH\<close> changes.
\<close>

section \<open>Retries\<close>

text \<open>A request under a key that gets as far as the service.\<close>

definition retries :: "request \<Rightarrow> weblibs \<Rightarrow> int64 \<Rightarrow> string \<Rightarrow> bool" where
  "retries rq W mx key \<longleftrightarrow> posts_file rq key \<and> key \<noteq> [] \<and> length key \<le> 255 \<and>
     (\<exists>tags. uploadTags W rq = Inr tags) \<and> \<not> (0 <s mx \<and> mx <s rq_ContentLength rq)"

lemma exceeded_capped_body [simp]: "\<not> exceeded (capped_body h rq)"
  by (simp add: capped_body_def new_limitReader_def)

lemma retry_handler:
  assumes "posts_file rq key" "key \<noteq> []" "length key \<le> 255" "uploadTags W rq = Inr tags"
    and "\<not> (0 <s fh_maxUpload h \<and> fh_maxUpload h <s rq_ContentLength rq)"
    and "\<And>inp. Service_UploadIdempotent L (fh_svc h) key inp w = (r, in_Body inp, w)"
  shows "h_upload L W h rq fresh w =
    (case r of
       Inl e \<Rightarrow> handle_error e fresh
     | Inr (f, replayed) \<Rightarrow>
         writeJSON 201 (fileResponse_json W (toResponse f))
           (header_Set ''Location'' (''/files/'' @ f_ID f)
             (if replayed then header_Set ''Idempotency-Replayed'' ''true'' fresh else fresh)), w)"
proof -
  have "header_Get (rq_Header rq) ''Idempotency-Key'' = key"
    using assms(1) by (simp add: posts_file_def)
  moreover have "in_Body (upload_input W h rq tags) = capped_body h rq"
    by (simp add: upload_input_def)
  ultimately show ?thesis
    using assms(2-4,6)
    by (simp add: h_upload_def Let_def maxIdempotencyKeyLen_def run_upload_def if_not_P [OF assms(5)]
        split: sum.split)
qed

lemma retry_response:
  assumes "retries rq W mx key"
    and "\<And>inp. Service_UploadIdempotent L (model canon) key inp w = (r, in_Body inp, w)"
  shows "mux_ServeHTTP L W expose (site canon ready ttl mx) rq fresh w =
    (case r of
       Inl e \<Rightarrow> handle_error e fresh
     | Inr (f, replayed) \<Rightarrow>
         writeJSON 201 (fileResponse_json W (toResponse f))
           (header_Set ''Location'' (''/files/'' @ f_ID f)
             (if replayed then header_Set ''Idempotency-Replayed'' ''true'' fresh else fresh)), w)"
proof -
  obtain tags where rq: "posts_file rq key" "key \<noteq> []" "length key \<le> 255" "uploadTags W rq = Inr tags"
    "\<not> (0 <s mx \<and> mx <s rq_ContentLength rq)"
    using assms(1) by (auto simp: retries_def)
  show ?thesis
    unfolding mux_upload [OF rq(1)]
    by (rule retry_handler [OF rq(1-4)]) (use rq(5) assms(2) in simp_all)
qed

text \<open>A world with a finished upload under one key and a running one under another.\<close>

definition edit_world :: "(memstore, db) world" where
  "edit_world = web_start\<lparr>w_repo := \<lparr>d_files = [web_file ''a''],
     d_idem = [\<lparr>k_Key = ''done'', k_FileID = Some ''a'', k_Status = IdempotencyCompleted, k_CreatedAt = 0\<rparr>,
       \<lparr>k_Key = ''open'', k_FileID = None, k_Status = IdempotencyPending, k_CreatedAt = 0\<rparr>],
     d_now = 5, d_faults = []\<rparr>\<rparr>"

lemma edit_world_facts:
  "fs.good edit_world" "quiet edit_world" "pg_rows (w_repo edit_world) ''a'' = Some (web_file ''a'')"
  "pg_claims (w_repo edit_world) ''done'' = Some \<lparr>ir_Status = IdempotencyCompleted, ir_FileID = Some ''a''\<rparr>"
  "pg_claims (w_repo edit_world) ''open'' = Some \<lparr>ir_Status = IdempotencyPending, ir_FileID = None\<rparr>"
  "live (web_file ''a'')"
  using web_start_facts(1)
  by (simp_all add: edit_world_def fs.good_def pg_good_def tables_ok_def acked_def quiet_def pg_rows_def
      pg_claims_def web_file_def)

lemma key_request:
  "length key \<le> 255 \<Longrightarrow> key \<noteq> [] \<Longrightarrow> retries (post_request [(''Idempotency-Key'', key)] bs) demo_web 0 key"
  by (simp add: retries_def post_request_def posts_file_def header_Get_def uploadTags_def maps_Copy_def)

text \<open>C22. A retry under a completed key is answered with the file of the first upload, marked as a
  replay, whatever its body and tags, as long as that file is live; once it is deleted, with
  410 and no \<open>Retry-After\<close>.  Nothing is stored.\<close>

theorem retry_over_http:
  assumes "retries rq W mx key" and "fs.good w" and "quiet w" and "canon i = Some c"
    and "pg_claims (w_repo w) key = Some \<lparr>ir_Status = IdempotencyCompleted, ir_FileID = Some i\<rparr>"
    and "mux_ServeHTTP L W expose (site canon ready ttl mx) rq fresh w = (x, w')"
  shows "w' = w \<and>
    (case pg_rows (w_repo w) c of
       Some f \<Rightarrow>
         if live f
         then sent_status x = Some 201 \<and> x_Body x = [Json (fileResponse_json W (toResponse f))] \<and>
           sent_header x ''Location'' = Some (''/files/'' @ f_ID f) \<and>
           sent_header x ''Idempotency-Replayed'' = Some ''true''
         else sent_status x = Some 410 \<and> sent_header x ''Retry-After'' = None
     | None \<Rightarrow> sent_status x = Some 410 \<and> sent_header x ''Retry-After'' = None)"
  using retry_response [OF assms(1) retry_quiet [of w canon, OF assms(2-5)]] assms(6)
  by (auto simp: handle_error_def writeError_def split: option.split)

theorem retry_over_http_witness:
  "\<exists>x. mux_ServeHTTP demo_libs demo_web id (site Some None 0 0)
      (post_request [(''Idempotency-Key'', ''done'')] [9]) fresh edit_world = (x, edit_world) \<and>
    sent_status x = Some 201 \<and> sent_header x ''Idempotency-Replayed'' = Some ''true''"
proof -
  obtain x w where r: "mux_ServeHTTP demo_libs demo_web id (site Some None 0 0)
      (post_request [(''Idempotency-Key'', ''done'')] [9]) fresh edit_world = (x, w)"
    by (metis surj_pair)
  have "retries (post_request [(''Idempotency-Key'', ''done'')] [9]) demo_web 0 ''done''"
    by (rule key_request) simp_all
  from retry_over_http [OF this edit_world_facts(1,2) refl edit_world_facts(4) r] r show ?thesis
    by (simp add: edit_world_facts(3,6))
qed

text \<open>While the first upload is running, a retry is answered with 409 and told to come back in 30
  seconds; nothing is stored.\<close>

theorem conflict_over_http:
  assumes "retries rq W mx key" and "quiet w"
    and "pg_claims (w_repo w) key = Some \<lparr>ir_Status = IdempotencyPending, ir_FileID = None\<rparr>"
    and "mux_ServeHTTP L W expose (site canon ready ttl mx) rq fresh w = (x, w')"
  shows "w' = w \<and> sent_status x = Some 409 \<and> sent_header x ''Retry-After'' = Some (show_nat 30)"
  using retry_response [OF assms(1) conflict_quiet [OF assms(2,3)], where canon = canon and L = L] assms(4)
  by (auto simp: handle_error_def writeError_def idempotencyRetryAfterSeconds_def)

theorem conflict_over_http_witness:
  "\<exists>x. mux_ServeHTTP demo_libs demo_web id (site Some None 0 0)
      (post_request [(''Idempotency-Key'', ''open'')] [9]) fresh edit_world = (x, edit_world) \<and>
    sent_status x = Some 409"
proof -
  obtain x w where r: "mux_ServeHTTP demo_libs demo_web id (site Some None 0 0)
      (post_request [(''Idempotency-Key'', ''open'')] [9]) fresh edit_world = (x, w)"
    by (metis surj_pair)
  have "retries (post_request [(''Idempotency-Key'', ''open'')] [9]) demo_web 0 ''open''"
    by (rule key_request) simp_all
  from conflict_over_http [OF this edit_world_facts(2,5) r] r show ?thesis
    by simp
qed

section \<open>Edits\<close>

definition patches_file :: "request \<Rightarrow> string \<Rightarrow> bool" where
  "patches_file rq i \<longleftrightarrow> rq_Method rq = ''PATCH'' \<and> rq_Path rq = [''files'', i, ''metadata''] \<and> i \<noteq> []"

lemma mux_patch:
  "patches_file rq i \<Longrightarrow> mux_ServeHTTP L W expose (site canon ready ttl mx) rq x w =
    h_patchMetadata L W (handler canon ttl mx) rq i x w"
  by (simp add: mux_defs patches_file_def)

lemma merged_tags: "map_of (edited_tags f tags mrg) =
    (if mrg then map_of (case f_Metadata f of None \<Rightarrow> [] | Some t \<Rightarrow> t) ++ map_of tags else map_of tags)"
  by (simp add: edited_tags_def jsonb_concat_def merge_conv')

text \<open>C23. A \<open>PATCH\<close> edits the tags and nothing else: when it answers 200, the body was a JSON object
  of at most 1 MiB, the live file has the merged tags (the patch wins) or, with
  \<open>mode=replace\<close>, the patch for its tags, the response shows the file as it now is, and no other
  field, no other file and no object has changed.\<close>

theorem patch_edits_tags:
  assumes "patches_file rq i" and "fs.good w"
    and "mux_ServeHTTP L W expose (site canon ready ttl mx) rq fresh w = (x, w')"
    and "sent_status x = Some 200"
  shows "\<exists>c f g t tags. canon i = Some c \<and> pg_rows (w_repo w) c = Some f \<and> live f \<and>
    decode_capped W 1048576 (rq_Body rq) None = Inr (Some tags) \<and>
    g = f\<lparr>f_Metadata := f_Metadata g, f_UpdatedAt := Some t\<rparr> \<and>
    pg_rows (w_repo w') = (pg_rows (w_repo w))(c \<mapsto> g) \<and> m_map (w_store w') = m_map (w_store w) \<and>
    map_of (the (f_Metadata g)) =
      (if values_Get (rq_Query rq) ''mode'' = ''replace'' then map_of tags
       else map_of (case f_Metadata f of None \<Rightarrow> [] | Some t \<Rightarrow> t) ++ map_of tags) \<and>
    x_Body x = [Json (fileResponse_json W (toResponse g))]"
proof -
  let ?mrg = "values_Get (rq_Query rq) ''mode'' \<noteq> ''replace''"
  have no: "sent_status (handle_error e fresh) \<noteq> Some 200" for e
    by (cases e) (auto simp: handle_error_def writeError_def)
  have run: "h_patchMetadata L W (handler canon ttl mx) rq i fresh w = (x, w')"
    using assms(3) by (simp add: mux_patch [OF assms(1)])
  obtain tags g where up: "decode_capped W 1048576 (rq_Body rq) None = Inr (Some tags)"
    "Service_UpdateMetadata L (model canon) i tags ?mrg w = (Inr g, w')"
    "x = writeJSON 200 (fileResponse_json W (toResponse g)) fresh"
    using run assms(4) no
    by (auto simp: h_patchMetadata_def maxMetadataBodyBytes_def split: sum.splits option.splits prod.splits)
  then obtain d where d: "pg_UpdateMetadata canon i tags ?mrg (w_repo w) = (Inr g, d)" "w' = w\<lparr>w_repo := d\<rparr>"
    by (auto simp: Service_UpdateMetadata_def split: if_splits sum.splits prod.splits elim!: fs.on_repoE)
  from d(1) assms(2) obtain c f t where "canon i = Some c" "pg_rows (w_repo w) c = Some f" "live f"
    "g = f\<lparr>f_Metadata := Some (edited_tags f tags ?mrg), f_UpdatedAt := Some t\<rparr>"
    "pg_rows d = (pg_rows (w_repo w))(c \<mapsto> g)"
    using pg.Update_ok [of "w_repo w" canon i tags ?mrg g d] by (auto simp: fs.good_def)
  then show ?thesis
    using up(1,3) d(2)
    by (intro exI [of _ c] exI [of _ f] exI [of _ g] exI [of _ t] exI [of _ tags]) (simp add: merged_tags)
qed

definition patch_request :: request where
  "patch_request = \<lparr>rq_Method = ''PATCH'', rq_Path = [''files'', ''a'', ''metadata''], rq_Query = [],
     rq_Header = [], rq_ContentLength = 2,
     rq_Body = \<lparr>src_data = [123, 125], src_final = EOF, src_sizes = [], src_eager = False\<rparr>\<rparr>"

theorem patch_edits_tags_witness:
  "\<exists>x w g. mux_ServeHTTP demo_libs demo_web id (site Some None 0 0) patch_request fresh edit_world = (x, w) \<and>
    pg_rows (w_repo w) ''a'' = Some g \<and> map_of (the (f_Metadata g)) = [''a'' \<mapsto> JStr ''1'']"
proof -
  have rq: "patches_file patch_request ''a''"
    by (simp add: patches_file_def patch_request_def)
  have decoded: "decode_capped demo_web 1048576 (rq_Body patch_request) None = Inr (Some [(''a'', JStr ''1'')])"
    by (simp add: decode_capped_def demo_web_def into_map_def)
  have mode: "values_Get (rq_Query patch_request) ''mode'' = []" "validID demo_libs ''a''"
    by (simp_all add: patch_request_def values_Get_def validID_def demo_libs_def)
  have "\<exists>g d. pg_UpdateMetadata Some ''a'' [(''a'', JStr ''1'')] True (w_repo edit_world) = (Inr g, d)"
    by (simp add: pg_UpdateMetadata_def send_def sql_update_live_def edit_world_def web_file_def live_row_def)
  then obtain x w where r: "mux_ServeHTTP demo_libs demo_web id (site Some None 0 0) patch_request fresh edit_world = (x, w)"
    "sent_status x = Some 200"
    using decoded mode
    by (auto simp: mux_patch [OF rq] h_patchMetadata_def maxMetadataBodyBytes_def Service_UpdateMetadata_def
        on_repo_def)
  obtain c f g tags where p: "Some ''a'' = Some c" "pg_rows (w_repo edit_world) c = Some f"
    "decode_capped demo_web 1048576 (rq_Body patch_request) None = Inr (Some tags)"
    "pg_rows (w_repo w) = (pg_rows (w_repo edit_world))(c \<mapsto> g)"
    "map_of (the (f_Metadata g)) =
      (if values_Get (rq_Query patch_request) ''mode'' = ''replace'' then map_of tags
       else map_of (case f_Metadata f of None \<Rightarrow> [] | Some t \<Rightarrow> t) ++ map_of tags)"
    using patch_edits_tags [OF rq edit_world_facts(1) r] by blast
  have "f_Metadata f = Some []" "tags = [(''a'', JStr ''1'')]"
    using p(1-3) decoded edit_world_facts(3) by (auto simp: web_file_def)
  then show ?thesis
    using mode r(1) p(1,4,5) by (intro exI [of _ x] exI [of _ w] exI [of _ g]) auto
qed

end
