(* ===== verification/Durations.thy ===== *)
theory Durations
  imports GoStd
begin

text \<open>
  \<open>time.ParseDuration\<close> of Go's standard library, written out: terms of a decimal number and a
  unit, summed in 64 bits unsigned.  Multiplying the fraction of a term by its unit is done in
  floating point there; that product is the parameter \<open>fr\<close> (of the digits of the fraction, the
  unit and the power of ten), everything else is computed.
\<close>

section \<open>The lexical parts\<close>

type_synonym fraction = "nat \<Rightarrow> nat \<Rightarrow> nat \<Rightarrow> nat"

fun leading_int :: "nat \<Rightarrow> string \<Rightarrow> (nat \<times> string) option" where
  "leading_int x [] = Some (x, [])"
| "leading_int x (c # cs) =
     (if \<not> is_digit c then Some (x, c # cs)
      else if 2 ^ 63 div 10 < x then None
      else let y = 10 * x + digit_value c
           in if 2 ^ 63 < y then None else leading_int y cs)"

text \<open>Digits of a fraction that no longer fit are skipped.\<close>

fun leading_fraction :: "nat \<Rightarrow> nat \<Rightarrow> bool \<Rightarrow> string \<Rightarrow> nat \<times> nat \<times> string" where
  "leading_fraction x scale overflow [] = (x, scale, [])"
| "leading_fraction x scale overflow (c # cs) =
     (if \<not> is_digit c then (x, scale, c # cs)
      else if overflow then leading_fraction x scale True cs
      else if (2 ^ 63 - 1) div 10 < x then leading_fraction x scale True cs
      else let y = 10 * x + digit_value c
           in if 2 ^ 63 < y then leading_fraction x scale True cs
              else leading_fraction y (10 * scale) False cs)"

definition unit_ns :: "string \<Rightarrow> nat option" where
  "unit_ns u = map_of
     [(''ns'', 1), (''us'', 10 ^ 3), ([CHR 0xC2, CHR 0xB5, CHR ''s''], 10 ^ 3),
      ([CHR 0xCE, CHR 0xBC, CHR ''s''], 10 ^ 3), (''ms'', 10 ^ 6), (''s'', 10 ^ 9),
      (''m'', 60 * 10 ^ 9), (''h'', 3600 * 10 ^ 9)] u"

text \<open>The package's own quoting: bytes outside printable ASCII in hexadecimal.\<close>

definition time_quote_char :: "char \<Rightarrow> string" where
  "time_quote_char c =
     (let n = of_char c :: nat
      in if 128 \<le> n \<or> n < 32 then [CHR 92, CHR ''x'', hex_digit (n div 16), hex_digit (n mod 16)]
         else if c = CHR 34 \<or> c = CHR 92 then [CHR 92, c]
         else [c])"

definition time_quote :: "string \<Rightarrow> string" where
  "time_quote s = CHR 34 # concat (map time_quote_char s) @ [CHR 34]"

definition invalid_duration :: "string \<Rightarrow> string" where
  "invalid_duration orig = ''time: invalid duration '' @ time_quote orig"

section \<open>Terms and their sum\<close>

text \<open>The integer part, and the fraction after a point: its digits, its power of ten and whether
  it has digits.\<close>

definition fraction_part :: "string \<Rightarrow> nat \<times> nat \<times> bool \<times> string" where
  "fraction_part s =
     (if s \<noteq> [] \<and> hd s = CHR ''.''
      then (case leading_fraction 0 1 False (tl s) of
              (f, scale, t) \<Rightarrow> (f, scale, length (tl s) \<noteq> length t, t))
      else (0, 1, False, s))"

definition unit_char :: "char \<Rightarrow> bool" where
  "unit_char c \<longleftrightarrow> \<not> (c = CHR ''.'' \<or> is_digit c)"

text \<open>One term: its value in nanoseconds and the rest of the string.\<close>

definition duration_term :: "fraction \<Rightarrow> string \<Rightarrow> string \<Rightarrow> string + nat \<times> string" where
  "duration_term fr orig s =
     (if s = [] \<or> unit_char (hd s) then Inl (invalid_duration orig)
      else case leading_int 0 s of
        None \<Rightarrow> Inl (invalid_duration orig)
      | Some (v, s1) \<Rightarrow>
          (case fraction_part s1 of
             (f, scale, post, s2) \<Rightarrow>
               if length s = length s1 \<and> \<not> post then Inl (invalid_duration orig)
               else let u = takeWhile unit_char s2
                    in if u = [] then Inl (''time: missing unit in duration '' @ time_quote orig)
                       else case unit_ns u of
                         None \<Rightarrow> Inl (''time: unknown unit '' @ time_quote u @ '' in duration '' @ time_quote orig)
                       | Some unit \<Rightarrow>
                           let w = v * unit + (if 0 < f then fr f unit scale else 0)
                           in if 2 ^ 63 div unit < v \<or> (0 < f \<and> 2 ^ 63 < w)
                              then Inl (invalid_duration orig)
                              else Inr (w, dropWhile unit_char s2)))"

lemma leading_int_shorter: "leading_int x s = Some (v, t) \<Longrightarrow> length t \<le> length s"
  by (induction x s rule: leading_int.induct) (auto simp: Let_def split: if_splits)

lemma leading_fraction_shorter: "leading_fraction x sc ov s = (f, sc', t) \<Longrightarrow> length t \<le> length s"
  by (induction x sc ov s rule: leading_fraction.induct) (auto simp: Let_def split: if_splits)

lemma fraction_part_shorter: "fraction_part s = (f, sc, post, t) \<Longrightarrow> length t \<le> length s"
  by (cases s) (auto simp: fraction_part_def dest: leading_fraction_shorter split: if_splits prod.splits)

lemma duration_term_shorter:
  assumes "duration_term fr orig s = Inr (w, t)"
  shows "length t < length s"
proof -
  obtain v s1 f sc post s2 where p: "leading_int 0 s = Some (v, s1)" "fraction_part s1 = (f, sc, post, s2)"
    "takeWhile unit_char s2 \<noteq> []" "t = dropWhile unit_char s2"
    using assms by (auto simp: duration_term_def Let_def split: if_splits option.splits prod.splits)
  have "length (takeWhile unit_char s2) + length t = length s2"
    unfolding p(4) by (metis length_append takeWhile_dropWhile_id)
  moreover have "0 < length (takeWhile unit_char s2)"
    using p(3) by simp
  ultimately have "length t < length s2"
    by linarith
  then show ?thesis
    using leading_int_shorter [OF p(1)] fraction_part_shorter [OF p(2)] by linarith
qed

text \<open>The sum is kept in a \<open>uint64\<close>.\<close>

function duration_sum :: "fraction \<Rightarrow> string \<Rightarrow> nat \<Rightarrow> string \<Rightarrow> string + nat" where
  "duration_sum fr orig d s =
     (if s = [] then Inr d
      else case duration_term fr orig s of
        Inl e \<Rightarrow> Inl e
      | Inr (w, t) \<Rightarrow>
          let d' = (d + w) mod 2 ^ 64
          in if 2 ^ 63 < d' then Inl (invalid_duration orig) else duration_sum fr orig d' t)"
  by pat_completeness auto
termination
  by (relation "measure (\<lambda>(fr, orig, d, s). length s)") (auto dest: duration_term_shorter)

declare duration_sum.simps [simp del]

definition parse_duration :: "fraction \<Rightarrow> string \<Rightarrow> string + int64" where
  "parse_duration fr s =
     (let neg = (s \<noteq> [] \<and> hd s = CHR ''-'');
          t = (if s \<noteq> [] \<and> (hd s = CHR ''-'' \<or> hd s = CHR ''+'') then tl s else s)
      in if t = ''0'' then Inr 0
         else if t = '''' then Inl (invalid_duration s)
         else case duration_sum fr s 0 t of
           Inl e \<Rightarrow> Inl e
         | Inr d \<Rightarrow>
             if neg then Inr (- word_of_int (int d))
             else if 2 ^ 63 - 1 < d then Inl (invalid_duration s)
             else Inr (word_of_int (int d)))"

lemmas duration_eval = parse_duration_def duration_sum.simps duration_term_def fraction_part_def
  unit_char_def unit_ns_def is_digit_def digit_value_def

section \<open>Durations as people write them\<close>

lemma leading_int_digits:
  "list_all is_digit s \<Longrightarrow> t = [] \<or> \<not> is_digit (hd t) \<Longrightarrow> parse_uint_loop x s = Inr n \<Longrightarrow> n < 2 ^ 63 \<Longrightarrow>
    leading_int x (s @ t) = Some (n, t)"
proof (induction s arbitrary: x)
  case Nil
  then show ?case by (cases t) auto
next
  case (Cons c s)
  have grow: "parse_uint_loop a u = Inr n \<Longrightarrow> a \<le> n" for a u
    by (induction a u rule: parse_uint_loop.induct) (auto simp: Let_def split: if_splits)
  let ?y = "10 * x + digit_value c"
  have y: "parse_uint_loop ?y s = Inr n" "is_digit c"
    using Cons.prems by (auto simp: Let_def split: if_splits)
  then have "?y \<le> n"
    using grow by simp
  then have "\<not> 2 ^ 63 < ?y" "\<not> 2 ^ 63 div 10 < x"
    using Cons.prems(4) by auto
  then show ?case
    using Cons y by (simp add: Let_def)
qed

text \<open>A whole number of a unit, as in \<open>10s\<close> or \<open>15m\<close>, is that many nanoseconds, when they fit.\<close>

lemma parse_duration_whole:
  assumes "unit_ns u = Some k" and "n * k < 2 ^ 63"
  shows "parse_duration fr (show_nat n @ u) = Inr (word_of_int (int (n * k)))"
proof -
  obtain c cs where c: "show_nat n = c # cs" "is_digit c"
    using show_nat_digits [of n] by (cases "show_nat n") auto
  then have first: "c \<noteq> CHR ''-''" "c \<noteq> CHR ''+''" "\<not> unit_char c"
    by (auto simp: unit_char_def)
  have u: "list_all unit_char u" "u \<noteq> []" "0 < k"
    using assms(1) by (auto simp: unit_ns_def unit_char_def is_digit_def split: if_splits)
  then have hd_u: "\<not> is_digit (hd u)" "hd u \<noteq> CHR ''.''"
    by (cases u; auto simp: unit_char_def)+
  have "n * 1 \<le> n * k"
    using u(3) by (intro mult_le_mono2) simp
  then have n: "n < 2 ^ 63"
    using assms(2) by linarith
  have li: "leading_int 0 (show_nat n @ u) = Some (n, u)"
    by (rule leading_int_digits) (use n hd_u in \<open>simp_all add: show_nat_digits parse_uint_loop_show\<close>)
  have hd_c: "hd (show_nat n @ u) = c"
    by (simp add: c(1))
  have tw: "takeWhile unit_char u = u" "dropWhile unit_char u = []"
    using u(1) by (simp_all add: list_all_iff)
  have "n \<le> 2 ^ 63 div k"
    using assms(2) u(3) by (simp add: less_eq_div_iff_mult_less_eq)
  then have t: "duration_term fr orig (show_nat n @ u) = Inr (n * k, [])" for orig
    using first(3) hd_u(2) u(2) assms(1) by (simp add: duration_term_def fraction_part_def li tw hd_c)
  have "duration_sum fr orig 0 (show_nat n @ u) = Inr (n * k)" for orig
    using assms(2) t by (subst duration_sum.simps) (simp add: duration_sum.simps [of _ _ _ "[]"])
  then show ?thesis
    using first c(1) u(2) assms(2) by (simp add: parse_duration_def Let_def)
qed

end
