(* ===== verification/Config.thy ===== *)
theory Config
  imports Durations
begin

text \<open>
  \<open>internal/config/config.go\<close>: the configuration.  The environment is the map that
  \<open>os.LookupEnv\<close> reads.  A function that overrides \<open>*dst\<close> and returns an error is a function
  from the old value to an error or the new one; the steps of \<open>Load\<close> are chained with
  \<open>and_then\<close>, the early return on an error.
\<close>

section \<open>The configuration\<close>

type_synonym env = "string \<rightharpoonup> string"

record gcConfig =
  gc_Interval :: int64
  gc_GracePeriod :: int64
  gc_IdempotencyTTL :: int64

record storageConfig =
  cs_Endpoint :: string
  cs_PublicEndpoint :: string
  cs_Region :: string
  cs_AccessKey :: string
  cs_SecretKey :: string
  cs_Bucket :: string
  cs_UseSSL :: bool
  cs_PublicUseSSL :: bool

record config =
  cf_HTTPAddr :: string
  cf_ShutdownTimeout :: int64
  cf_PresignTTL :: int64
  cf_MaxUploadBytes :: int64
  cf_DSN :: string
  cf_Storage :: storageConfig
  cf_GC :: gcConfig

definition second :: int64 where
  "second = 1000000000"

section \<open>Reading the environment\<close>

definition and_then :: "'a res \<Rightarrow> ('a \<Rightarrow> 'b res) \<Rightarrow> 'b res" where
  "and_then x f = (case x of Inl e \<Rightarrow> Inl e | Inr a \<Rightarrow> f a)"

lemma and_then_simps [simp]: "and_then (Inl e) f = Inl e" "and_then (Inr a) f = f a"
  by (simp_all add: and_then_def)

lemma and_then_Inr_iff: "and_then x f = Inr b \<longleftrightarrow> (\<exists>a. x = Inr a \<and> f a = Inr b)"
  by (cases x) simp_all

definition getenv :: "env \<Rightarrow> string \<Rightarrow> string \<Rightarrow> string" where
  "getenv env key fallback = (case env key of Some v \<Rightarrow> v | None \<Rightarrow> fallback)"

definition getduration :: "fraction \<Rightarrow> env \<Rightarrow> string \<Rightarrow> int64 \<Rightarrow> int64 res" where
  "getduration fr env key dst =
     (case env key of
        None \<Rightarrow> Inr dst
      | Some v \<Rightarrow>
          (case parse_duration fr v of
             Inl msg \<Rightarrow> Inl (Wrapped (''config: '' @ key) (Opaque msg))
           | Inr parsed \<Rightarrow> Inr parsed))"

text \<open>The errors of \<open>strconv\<close>.\<close>

fun num_error_text :: "num_error \<Rightarrow> string" where
  "num_error_text ErrSyntax = ''invalid syntax''"
| "num_error_text ErrRange = ''value out of range''"

definition num_error :: "string \<Rightarrow> string \<Rightarrow> num_error \<Rightarrow> goerr" where
  "num_error func s e =
     Opaque (''strconv.'' @ func @ '': parsing '' @ quote s @ '': '' @ num_error_text e)"

definition getint64 :: "env \<Rightarrow> string \<Rightarrow> int64 \<Rightarrow> int64 res" where
  "getint64 env key dst =
     (case env key of
        None \<Rightarrow> Inr dst
      | Some v \<Rightarrow>
          (case parse_int64 v of
             Inl e \<Rightarrow> Inl (Wrapped (''config: '' @ key) (num_error ''ParseInt'' v e))
           | Inr parsed \<Rightarrow> Inr parsed))"

text \<open>\<open>strconv.ParseBool\<close>.\<close>

definition parse_bool :: "string \<Rightarrow> num_error + bool" where
  "parse_bool s =
     (if s \<in> set [''1'', ''t'', ''T'', ''true'', ''TRUE'', ''True''] then Inr True
      else if s \<in> set [''0'', ''f'', ''F'', ''false'', ''FALSE'', ''False''] then Inr False
      else Inl ErrSyntax)"

definition getbool :: "env \<Rightarrow> string \<Rightarrow> bool \<Rightarrow> bool res" where
  "getbool env key dst =
     (case env key of
        None \<Rightarrow> Inr dst
      | Some v \<Rightarrow>
          (case parse_bool v of
             Inl e \<Rightarrow> Inl (Wrapped (''config: '' @ key) (num_error ''ParseBool'' v e))
           | Inr parsed \<Rightarrow> Inr parsed))"

definition loadStorage :: "env \<Rightarrow> storageConfig res" where
  "loadStorage env =
     (let endpoint = getenv env ''CAIRNMARK_S3_ENDPOINT'' ''''
      in and_then (getbool env ''CAIRNMARK_S3_USE_SSL'' False) (\<lambda>useSSL.
         and_then (getbool env ''CAIRNMARK_S3_PUBLIC_USE_SSL'' useSSL) (\<lambda>publicUseSSL.
           Inr \<lparr>cs_Endpoint = endpoint,
             cs_PublicEndpoint = getenv env ''CAIRNMARK_S3_PUBLIC_ENDPOINT'' endpoint,
             cs_Region = getenv env ''CAIRNMARK_S3_REGION'' ''us-east-1'',
             cs_AccessKey = getenv env ''CAIRNMARK_S3_ACCESS_KEY'' '''',
             cs_SecretKey = getenv env ''CAIRNMARK_S3_SECRET_KEY'' '''',
             cs_Bucket = getenv env ''CAIRNMARK_S3_BUCKET'' '''',
             cs_UseSSL = useSSL, cs_PublicUseSSL = publicUseSSL\<rparr>)))"

section \<open>Validation\<close>

definition validateEndpoint :: "string \<Rightarrow> string \<Rightarrow> goerr option" where
  "validateEndpoint name v =
     (if v = '''' then None
      else if contains v ''://''
      then Some (Opaque (''config: '' @ name @ '' must be a bare host:port without a scheme, got '' @ quote v))
      else if contains_any v '' /''
      then Some (Opaque (''config: '' @ name @ '' must be a bare host:port, got '' @ quote v))
      else None)"

definition validate :: "config \<Rightarrow> goerr option" where
  "validate c =
     (let missing =
        (if cf_DSN c = '''' then [''CAIRNMARK_POSTGRES_DSN''] else []) @
        (if cs_Endpoint (cf_Storage c) = '''' then [''CAIRNMARK_S3_ENDPOINT''] else []) @
        (if cs_AccessKey (cf_Storage c) = '''' then [''CAIRNMARK_S3_ACCESS_KEY''] else []) @
        (if cs_SecretKey (cf_Storage c) = '''' then [''CAIRNMARK_S3_SECRET_KEY''] else []) @
        (if cs_Bucket (cf_Storage c) = '''' then [''CAIRNMARK_S3_BUCKET''] else [])
      in if missing \<noteq> []
         then Some (Opaque (''config: required env vars not set: '' @ join missing '', ''))
         else case validateEndpoint ''CAIRNMARK_S3_ENDPOINT'' (cs_Endpoint (cf_Storage c)) of
           Some e \<Rightarrow> Some e
         | None \<Rightarrow> validateEndpoint ''CAIRNMARK_S3_PUBLIC_ENDPOINT'' (cs_PublicEndpoint (cf_Storage c)))"

definition Load :: "fraction \<Rightarrow> env \<Rightarrow> config res" where
  "Load fr env =
     and_then (loadStorage env) (\<lambda>storage.
     and_then (getduration fr env ''CAIRNMARK_SHUTDOWN_TIMEOUT'' (10 * second)) (\<lambda>shutdown.
     and_then (getduration fr env ''CAIRNMARK_PRESIGN_TTL'' (15 * (60 * second))) (\<lambda>presign.
     and_then (getduration fr env ''CAIRNMARK_GC_INTERVAL'' (5 * (60 * second))) (\<lambda>interval.
     and_then (getduration fr env ''CAIRNMARK_GC_GRACE_PERIOD'' (3600 * second)) (\<lambda>grace.
     and_then (getduration fr env ''CAIRNMARK_IDEMPOTENCY_TTL'' (24 * (3600 * second))) (\<lambda>ttl.
     and_then (getint64 env ''CAIRNMARK_MAX_UPLOAD_BYTES'' 0) (\<lambda>maxUpload.
       let cfg = \<lparr>cf_HTTPAddr = getenv env ''CAIRNMARK_HTTP_ADDR'' '':8080'',
             cf_ShutdownTimeout = shutdown, cf_PresignTTL = presign, cf_MaxUploadBytes = maxUpload,
             cf_DSN = getenv env ''CAIRNMARK_POSTGRES_DSN'' '''', cf_Storage = storage,
             cf_GC = \<lparr>gc_Interval = interval, gc_GracePeriod = grace, gc_IdempotencyTTL = ttl\<rparr>\<rparr>
       in if maxUpload <s 0
          then Inl (Opaque (''config: CAIRNMARK_MAX_UPLOAD_BYTES must be >= 0 (0 disables the cap), got '' @
            show_int64 maxUpload))
          else if shutdown <=s 0
          then Inl (Opaque (''config: CAIRNMARK_SHUTDOWN_TIMEOUT must be positive, got '' @
            duration_string shutdown))
          else if presign <=s 0
          then Inl (Opaque (''config: CAIRNMARK_PRESIGN_TTL must be positive, got '' @
            duration_string presign))
          else case validate cfg of
            Some e \<Rightarrow> Inl e
          | None \<Rightarrow> Inr cfg)))))))"

section \<open>What a configuration has to be\<close>

text \<open>A setting is its default when the variable is unset, else what its text parses to.\<close>

definition setting :: "(string \<Rightarrow> 'e + 'a) \<Rightarrow> env \<Rightarrow> string \<Rightarrow> 'a \<Rightarrow> 'a \<Rightarrow> bool" where
  "setting parse env key dflt v \<longleftrightarrow>
     (case env key of None \<Rightarrow> v = dflt | Some s \<Rightarrow> parse s = Inr v)"

text \<open>The settings of a configuration, in nanoseconds and bytes, whatever their values.\<close>

definition settings :: "fraction \<Rightarrow> env \<Rightarrow> config \<Rightarrow> bool" where
  "settings fr env c \<longleftrightarrow>
     (let s = cf_Storage c; g = cf_GC c; text = setting (Inr :: string \<Rightarrow> unit + string) env;
          dur = setting (parse_duration fr) env; flag = setting parse_bool env
      in text ''CAIRNMARK_HTTP_ADDR'' '':8080'' (cf_HTTPAddr c) \<and>
         text ''CAIRNMARK_POSTGRES_DSN'' '''' (cf_DSN c) \<and>
         text ''CAIRNMARK_S3_ENDPOINT'' '''' (cs_Endpoint s) \<and>
         text ''CAIRNMARK_S3_PUBLIC_ENDPOINT'' (cs_Endpoint s) (cs_PublicEndpoint s) \<and>
         text ''CAIRNMARK_S3_REGION'' ''us-east-1'' (cs_Region s) \<and>
         text ''CAIRNMARK_S3_ACCESS_KEY'' '''' (cs_AccessKey s) \<and>
         text ''CAIRNMARK_S3_SECRET_KEY'' '''' (cs_SecretKey s) \<and>
         text ''CAIRNMARK_S3_BUCKET'' '''' (cs_Bucket s) \<and>
         flag ''CAIRNMARK_S3_USE_SSL'' False (cs_UseSSL s) \<and>
         flag ''CAIRNMARK_S3_PUBLIC_USE_SSL'' (cs_UseSSL s) (cs_PublicUseSSL s) \<and>
         dur ''CAIRNMARK_SHUTDOWN_TIMEOUT'' (word_of_int (10 * 10 ^ 9)) (cf_ShutdownTimeout c) \<and>
         dur ''CAIRNMARK_PRESIGN_TTL'' (word_of_int (900 * 10 ^ 9)) (cf_PresignTTL c) \<and>
         dur ''CAIRNMARK_GC_INTERVAL'' (word_of_int (300 * 10 ^ 9)) (gc_Interval g) \<and>
         dur ''CAIRNMARK_GC_GRACE_PERIOD'' (word_of_int (3600 * 10 ^ 9)) (gc_GracePeriod g) \<and>
         dur ''CAIRNMARK_IDEMPOTENCY_TTL'' (word_of_int (86400 * 10 ^ 9)) (gc_IdempotencyTTL g) \<and>
         setting parse_int64 env ''CAIRNMARK_MAX_UPLOAD_BYTES'' 0 (cf_MaxUploadBytes c))"

definition bounds_ok :: "config \<Rightarrow> bool" where
  "bounds_ok c \<longleftrightarrow>
     0 \<le> sint (cf_MaxUploadBytes c) \<and> 0 < sint (cf_ShutdownTimeout c) \<and> 0 < sint (cf_PresignTTL c)"

definition bare_host :: "string \<Rightarrow> bool" where
  "bare_host v \<longleftrightarrow> CHR '' '' \<notin> set v \<and> CHR ''/'' \<notin> set v"

definition required :: "(string \<times> (config \<Rightarrow> string)) list" where
  "required =
     [(''CAIRNMARK_POSTGRES_DSN'', cf_DSN),
      (''CAIRNMARK_S3_ENDPOINT'', \<lambda>c. cs_Endpoint (cf_Storage c)),
      (''CAIRNMARK_S3_ACCESS_KEY'', \<lambda>c. cs_AccessKey (cf_Storage c)),
      (''CAIRNMARK_S3_SECRET_KEY'', \<lambda>c. cs_SecretKey (cf_Storage c)),
      (''CAIRNMARK_S3_BUCKET'', \<lambda>c. cs_Bucket (cf_Storage c))]"

definition missing_settings :: "config \<Rightarrow> string list" where
  "missing_settings c = map fst (filter (\<lambda>(name, get). get c = '''') required)"

section \<open>The loaded configuration\<close>

lemma setting_text: "setting Inr env key d v \<longleftrightarrow> v = getenv env key d"
  by (auto simp: setting_def getenv_def split: option.splits)

lemma getduration_Inr: "getduration fr env key d = Inr v \<longleftrightarrow> setting (parse_duration fr) env key d v"
  by (auto simp: getduration_def setting_def split: option.splits sum.splits)

lemma getint64_Inr: "getint64 env key d = Inr v \<longleftrightarrow> setting parse_int64 env key d v"
  by (auto simp: getint64_def setting_def split: option.splits sum.splits)

lemma getbool_Inr: "getbool env key d = Inr v \<longleftrightarrow> setting parse_bool env key d v"
  by (auto simp: getbool_def setting_def split: option.splits sum.splits)

lemmas setting_simps = setting_text getduration_Inr [symmetric] getint64_Inr [symmetric] getbool_Inr [symmetric]

lemma contains_sub: "contains s p \<Longrightarrow> set p \<subseteq> set s"
proof (induction s p rule: contains.induct)
  case (2 x xs p)
  have "set p \<subseteq> set (x # xs)" if "has_prefix (x # xs) p"
    using that set_take_subset [of "length p" "x # xs"] by (simp add: has_prefix_def)
  then show ?case
    using 2 by auto
qed simp

lemma validateEndpoint_None: "validateEndpoint name v = None \<longleftrightarrow> bare_host v"
proof -
  have "\<not> bare_host v" if "contains v ''://''"
    using contains_sub [OF that] by (simp add: bare_host_def)
  moreover have "contains_any v '' /'' \<longleftrightarrow> \<not> bare_host v"
    by (auto simp: contains_any_def bare_host_def list_ex_iff)
  moreover have "bare_host ''''"
    by (simp add: bare_host_def)
  ultimately show ?thesis
    by (auto simp: validateEndpoint_def)
qed

lemma validate_result:
  "validate c =
     (if missing_settings c \<noteq> []
      then Some (Opaque (''config: required env vars not set: '' @ join (missing_settings c) '', ''))
      else case validateEndpoint ''CAIRNMARK_S3_ENDPOINT'' (cs_Endpoint (cf_Storage c)) of
        Some e \<Rightarrow> Some e
      | None \<Rightarrow> validateEndpoint ''CAIRNMARK_S3_PUBLIC_ENDPOINT'' (cs_PublicEndpoint (cf_Storage c)))"
  by (simp add: validate_def missing_settings_def required_def Let_def)

lemma Load_result:
  assumes "settings fr env c"
  shows "Load fr env =
    (if cf_MaxUploadBytes c <s 0
     then Inl (Opaque (''config: CAIRNMARK_MAX_UPLOAD_BYTES must be >= 0 (0 disables the cap), got '' @
       show_int64 (cf_MaxUploadBytes c)))
     else if cf_ShutdownTimeout c <=s 0
     then Inl (Opaque (''config: CAIRNMARK_SHUTDOWN_TIMEOUT must be positive, got '' @
       duration_string (cf_ShutdownTimeout c)))
     else if cf_PresignTTL c <=s 0
     then Inl (Opaque (''config: CAIRNMARK_PRESIGN_TTL must be positive, got '' @
       duration_string (cf_PresignTTL c)))
     else case validate c of Some e \<Rightarrow> Inl e | None \<Rightarrow> Inr c)"
proof -
  have st: "loadStorage env = Inr (cf_Storage c)"
    using assms by (simp add: settings_def Let_def setting_simps loadStorage_def)
  note s = assms [unfolded settings_def Let_def setting_simps]
  have cfg: "\<lparr>cf_HTTPAddr = getenv env ''CAIRNMARK_HTTP_ADDR'' '':8080'',
      cf_ShutdownTimeout = cf_ShutdownTimeout c, cf_PresignTTL = cf_PresignTTL c,
      cf_MaxUploadBytes = cf_MaxUploadBytes c, cf_DSN = getenv env ''CAIRNMARK_POSTGRES_DSN'' '''',
      cf_Storage = cf_Storage c,
      cf_GC = \<lparr>gc_Interval = gc_Interval (cf_GC c), gc_GracePeriod = gc_GracePeriod (cf_GC c),
        gc_IdempotencyTTL = gc_IdempotencyTTL (cf_GC c)\<rparr>\<rparr> = c"
    using s by (cases c) simp
  show ?thesis
    using s by (simp add: Load_def st second_def Let_def cfg cong: option.case_cong)
qed

lemma Load_settings: "Load fr env = Inr c \<Longrightarrow> settings fr env c"
  by (auto simp: Load_def loadStorage_def and_then_Inr_iff settings_def setting_simps Let_def second_def
      split: if_splits option.splits)

lemma Load_iff:
  "Load fr env = Inr c \<longleftrightarrow>
     settings fr env c \<and> bounds_ok c \<and> missing_settings c = [] \<and>
     bare_host (cs_Endpoint (cf_Storage c)) \<and> bare_host (cs_PublicEndpoint (cf_Storage c))"
proof (cases "settings fr env c")
  case True
  have "validate c = None \<longleftrightarrow> missing_settings c = [] \<and>
      bare_host (cs_Endpoint (cf_Storage c)) \<and> bare_host (cs_PublicEndpoint (cf_Storage c))"
    using validateEndpoint_None [of "''CAIRNMARK_S3_ENDPOINT''" "cs_Endpoint (cf_Storage c)"]
      validateEndpoint_None [of "''CAIRNMARK_S3_PUBLIC_ENDPOINT''" "cs_PublicEndpoint (cf_Storage c)"]
    by (cases "validateEndpoint ''CAIRNMARK_S3_ENDPOINT'' (cs_Endpoint (cf_Storage c))")
      (simp_all add: validate_result)
  then show ?thesis
    using True by (auto simp: Load_result [OF True] bounds_ok_def sint64_less_iff sint64_le_iff
        split: option.splits)
next
  case False
  then show ?thesis
    using Load_settings by blast
qed

section \<open>Properties\<close>

text \<open>C13. What \<open>Load\<close> accepts: exactly the environments whose settings parse, with the documented
  defaults, whose cap is not negative and whose timeouts are positive, that name every required
  value and bare host names; and the configuration is those settings.\<close>

theorem Load_exact:
  "Load fr env = Inr c \<longleftrightarrow>
     settings fr env c \<and> bounds_ok c \<and> missing_settings c = [] \<and>
     bare_host (cs_Endpoint (cf_Storage c)) \<and> bare_host (cs_PublicEndpoint (cf_Storage c))"
  by (rule Load_iff)

text \<open>A configuration that lacks required values is refused with all of their names at once.\<close>

theorem Load_names_missing:
  assumes "settings fr env c" and "bounds_ok c" and "missing_settings c \<noteq> []"
  shows "Load fr env =
    Inl (Opaque (''config: required env vars not set: '' @ join (missing_settings c) '', ''))"
  using assms(2,3)
  by (simp add: Load_result [OF assms(1)] validate_result bounds_ok_def sint64_less_iff sint64_le_iff)

definition demo_env :: env where
  "demo_env = map_of
     [(''CAIRNMARK_POSTGRES_DSN'', ''postgres:x''), (''CAIRNMARK_S3_ENDPOINT'', ''minio:9000''),
      (''CAIRNMARK_S3_ACCESS_KEY'', ''k''), (''CAIRNMARK_S3_SECRET_KEY'', ''s''),
      (''CAIRNMARK_S3_BUCKET'', ''b''), (''CAIRNMARK_GC_GRACE_PERIOD'', ''-1h''),
      (''CAIRNMARK_S3_PUBLIC_USE_SSL'', ''true'')]"

lemma minus_one_hour: "parse_duration fr ''-1h'' = Inr (- word_of_int (3600 * 10 ^ 9))"
  by (simp add: duration_eval)

definition demo_config :: config where
  "demo_config =
     \<lparr>cf_HTTPAddr = '':8080'', cf_ShutdownTimeout = word_of_int (10 * 10 ^ 9),
      cf_PresignTTL = word_of_int (900 * 10 ^ 9), cf_MaxUploadBytes = 0, cf_DSN = ''postgres:x'',
      cf_Storage = \<lparr>cs_Endpoint = ''minio:9000'', cs_PublicEndpoint = ''minio:9000'', cs_Region = ''us-east-1'',
        cs_AccessKey = ''k'', cs_SecretKey = ''s'', cs_Bucket = ''b'', cs_UseSSL = False,
        cs_PublicUseSSL = True\<rparr>,
      cf_GC = \<lparr>gc_Interval = word_of_int (300 * 10 ^ 9), gc_GracePeriod = - word_of_int (3600 * 10 ^ 9),
        gc_IdempotencyTTL = word_of_int (86400 * 10 ^ 9)\<rparr>\<rparr>"

lemma demo_settings: "settings fr demo_env demo_config"
  by (simp add: settings_def setting_def demo_env_def demo_config_def parse_bool_def minus_one_hour)

lemma demo_config_valid: "bounds_ok demo_config" "missing_settings demo_config = []"
  by (simp_all add: bounds_ok_def missing_settings_def required_def demo_config_def)

lemma demo_load: "Load fr demo_env = Inr demo_config"
proof -
  have "bare_host ''minio:9000''"
    by (simp add: bare_host_def)
  then have "bare_host (cs_Endpoint (cf_Storage demo_config))" "bare_host (cs_PublicEndpoint (cf_Storage demo_config))"
    by (simp_all add: demo_config_def)
  then show ?thesis
    using demo_config_valid by (simp add: Load_iff demo_settings)
qed

theorem Load_names_missing_witness:
  "Load (\<lambda>_ _ _. 0) (\<lambda>_. None) =
     Inl (Opaque (''config: required env vars not set: CAIRNMARK_POSTGRES_DSN, CAIRNMARK_S3_ENDPOINT, '' @
       ''CAIRNMARK_S3_ACCESS_KEY, CAIRNMARK_S3_SECRET_KEY, CAIRNMARK_S3_BUCKET''))"
proof -
  let ?c = "demo_config\<lparr>cf_DSN := '''', cf_Storage := \<lparr>cs_Endpoint = '''', cs_PublicEndpoint = '''',
    cs_Region = ''us-east-1'', cs_AccessKey = '''', cs_SecretKey = '''', cs_Bucket = '''', cs_UseSSL = False,
    cs_PublicUseSSL = False\<rparr>, cf_GC := (cf_GC demo_config)\<lparr>gc_GracePeriod := word_of_int (3600 * 10 ^ 9)\<rparr>\<rparr>"
  have "settings (\<lambda>_ _ _. 0) (\<lambda>_. None) ?c"
    by (simp add: settings_def setting_def demo_config_def)
  moreover have "bounds_ok ?c"
    by (simp add: bounds_ok_def demo_config_def)
  moreover have "missing_settings ?c = [''CAIRNMARK_POSTGRES_DSN'', ''CAIRNMARK_S3_ENDPOINT'',
      ''CAIRNMARK_S3_ACCESS_KEY'', ''CAIRNMARK_S3_SECRET_KEY'', ''CAIRNMARK_S3_BUCKET'']"
    by (simp add: missing_settings_def required_def)
  ultimately show ?thesis
    using Load_names_missing [of "\<lambda>_ _ _. 0" "\<lambda>_. None" ?c] by simp
qed

end
