(* ===== verification/S3Backend.thy ===== *)
theory S3Backend
  imports MemoryBackend
begin

text \<open>
  \<open>internal/storage/s3/s3.go\<close>: the object store behind S3.  \<open>minio-go\<close> is not part of the
  program, so its functions are the fields of the parameter \<open>minio\<close>, over a client \<open>'k\<close>, the
  options \<open>'g\<close> and the handle \<open>'o\<close> of a read, and a store state \<open>'s\<close>; an object handle's bytes
  are those it delivers from the state it is left in.  What the program relies on is
  \<open>minio_laws\<close>; under it the backend satisfies the contract of \<open>Storage\<close>.
\<close>

section \<open>minio-go, as far as it is used\<close>

record minioInfo =
  mo_Key :: string
  mo_Size :: int64
  mo_LastModified :: int
  mo_ContentType :: string
  mo_ETag :: string

record ('k, 'g, 'o, 's, 'r) minio =
  mn_New :: "string \<Rightarrow> string \<Rightarrow> string \<Rightarrow> bool \<Rightarrow> string \<Rightarrow> 'k res"
  mn_BucketExists :: "'k \<Rightarrow> string \<Rightarrow> 's \<Rightarrow> bool res \<times> 's"
  mn_MakeBucket :: "'k \<Rightarrow> string \<Rightarrow> string \<Rightarrow> 's \<Rightarrow> unit res \<times> 's"
  mn_PutObject :: "'k \<Rightarrow> string \<Rightarrow> string \<Rightarrow> 'r \<Rightarrow> int64 \<Rightarrow> string \<Rightarrow> int64 \<Rightarrow> 's \<Rightarrow> unit res \<times> 'r \<times> 's"
  mn_GetOptions :: 'g
  mn_SetRange :: "int64 \<Rightarrow> int64 \<Rightarrow> 'g \<Rightarrow> 'g res"
  mn_GetObject :: "'k \<Rightarrow> string \<Rightarrow> string \<Rightarrow> 'g \<Rightarrow> 's \<Rightarrow> 'o res \<times> 's"
  mn_ObjectStat :: "'o \<Rightarrow> 's \<Rightarrow> goerr option \<times> 'o \<times> 's"
  mn_Body :: "'o \<Rightarrow> 's \<Rightarrow> source"
  mn_RemoveObject :: "'k \<Rightarrow> string \<Rightarrow> string \<Rightarrow> 's \<Rightarrow> unit res \<times> 's"
  mn_ListObjects :: "'k \<Rightarrow> string \<Rightarrow> ctx \<Rightarrow> 's \<Rightarrow> (goerr + minioInfo) list \<times> 's"
  mn_StatObject :: "'k \<Rightarrow> string \<Rightarrow> string \<Rightarrow> 's \<Rightarrow> minioInfo res \<times> 's"
  mn_PresignedGetObject :: "'k \<Rightarrow> string \<Rightarrow> string \<Rightarrow> int64 \<Rightarrow> 's \<Rightarrow> string res \<times> 's"
  mn_PresignedPutObject :: "'k \<Rightarrow> string \<Rightarrow> string \<Rightarrow> int64 \<Rightarrow> 's \<Rightarrow> string res \<times> 's"
  mn_Code :: "goerr \<Rightarrow> string"

section \<open>Construction\<close>

record s3Options =
  op_Endpoint :: string
  op_PublicEndpoint :: string
  op_Region :: string
  op_AccessKey :: string
  op_SecretKey :: string
  op_Bucket :: string
  op_UseSSL :: bool
  op_PublicUseSSL :: bool

record 'k s3Backend =
  s3_client :: 'k
  s3_presign :: 'k
  s3_bucket :: string

definition ensureBucket ::
  "('k, 'g, 'o, 's, 'r) minio \<Rightarrow> 'k s3Backend \<Rightarrow> string \<Rightarrow> 's \<Rightarrow> unit res \<times> 's" where
  "ensureBucket M b region s =
     (case mn_BucketExists M (s3_client b) (s3_bucket b) s of
        (Inl e, s1) \<Rightarrow> (Inl (Wrapped ''s3: bucket exists check'' e), s1)
      | (Inr True, s1) \<Rightarrow> (Inr (), s1)
      | (Inr False, s1) \<Rightarrow>
          (case mn_MakeBucket M (s3_client b) (s3_bucket b) region s1 of
             (Inl e, s2) \<Rightarrow> (Inl (Wrapped (''s3: make bucket '' @ quote (s3_bucket b)) e), s2)
           | (Inr _, s2) \<Rightarrow> (Inr (), s2)))"

definition s3_New ::
  "('k, 'g, 'o, 's, 'r) minio \<Rightarrow> s3Options \<Rightarrow> 's \<Rightarrow> 'k s3Backend res \<times> 's" where
  "s3_New M opts s =
     (case mn_New M (op_Endpoint opts) (op_AccessKey opts) (op_SecretKey opts) (op_UseSSL opts)
             (op_Region opts) of
        Inl e \<Rightarrow> (Inl (Wrapped ''s3: new client'' e), s)
      | Inr client \<Rightarrow>
          (case (if op_PublicEndpoint opts \<noteq> '''' \<and> op_PublicEndpoint opts \<noteq> op_Endpoint opts
                 then mn_New M (op_PublicEndpoint opts) (op_AccessKey opts) (op_SecretKey opts)
                        (op_PublicUseSSL opts) (op_Region opts)
                 else Inr client) of
             Inl e \<Rightarrow> (Inl (Wrapped ''s3: new presign client'' e), s)
           | Inr presign \<Rightarrow>
               let b = \<lparr>s3_client = client, s3_presign = presign, s3_bucket = op_Bucket opts\<rparr>
               in (case ensureBucket M b (op_Region opts) s of
                     (Inl e, s1) \<Rightarrow> (Inl e, s1)
                   | (Inr _, s1) \<Rightarrow> (Inr b, s1))))"

section \<open>The methods\<close>

definition unknownSizePartSize :: int64 where
  "unknownSizePartSize = push_bit 20 16"

definition mapErr :: "('k, 'g, 'o, 's, 'r) minio \<Rightarrow> string \<Rightarrow> goerr \<Rightarrow> goerr" where
  "mapErr M key e =
     (if mn_Code M e = ''NoSuchKey'' then Wrapped (''s3: '' @ quote key) StorageNotFound
      else Wrapped (''s3: '' @ quote key) e)"

definition s3_Put ::
  "('k, 'g, 'o, 's, 'r) minio \<Rightarrow> 'k s3Backend \<Rightarrow> string \<Rightarrow> 'r \<Rightarrow> int64 \<Rightarrow> string \<Rightarrow> 's \<Rightarrow>
    unit res \<times> 'r \<times> 's" where
  "s3_Put M b key r sz contentType s =
     (let ct = (if contentType = '''' then ''application/octet-stream'' else contentType);
          partSize = (if sz <s 0 then unknownSizePartSize else 0)
      in (case mn_PutObject M (s3_client b) (s3_bucket b) key r sz ct partSize s of
            (Inl e, r', s') \<Rightarrow> (Inl (Wrapped (''s3: put '' @ quote key) e), r', s')
          | (Inr _, r', s') \<Rightarrow> (Inr (), r', s')))"

definition s3_Get ::
  "('k, 'g, 'o, 's, 'r) minio \<Rightarrow> 'k s3Backend \<Rightarrow> string \<Rightarrow> 's \<Rightarrow> source res \<times> 's" where
  "s3_Get M b key s =
     (case mn_GetObject M (s3_client b) (s3_bucket b) key (mn_GetOptions M) s of
        (Inl e, s1) \<Rightarrow> (Inl (mapErr M key e), s1)
      | (Inr obj, s1) \<Rightarrow>
          (case mn_ObjectStat M obj s1 of
             (Some e, _, s2) \<Rightarrow> (Inl (mapErr M key e), s2)
           | (None, obj', s2) \<Rightarrow> (Inr (mn_Body M obj' s2), s2)))"

text \<open>The end of the range is \<open>offset+length-1\<close> in 64 bits; an end of zero means an open range.\<close>

definition s3_range_options ::
  "('k, 'g, 'o, 's, 'r) minio \<Rightarrow> int64 \<Rightarrow> int64 \<Rightarrow> 'g res" where
  "s3_range_options M offset len =
     (if 0 <s len then
        (case mn_SetRange M offset (offset + len - 1) (mn_GetOptions M) of
           Inl e \<Rightarrow> Inl (Wrapped ''s3: set range'' e) | Inr g \<Rightarrow> Inr g)
      else if 0 <s offset then
        (case mn_SetRange M offset 0 (mn_GetOptions M) of
           Inl e \<Rightarrow> Inl (Wrapped ''s3: set range'' e) | Inr g \<Rightarrow> Inr g)
      else Inr (mn_GetOptions M))"

definition s3_GetRange ::
  "('k, 'g, 'o, 's, 'r) minio \<Rightarrow> 'k s3Backend \<Rightarrow> string \<Rightarrow> int64 \<Rightarrow> int64 \<Rightarrow> 's \<Rightarrow> source res \<times> 's" where
  "s3_GetRange M b key offset len s =
     (case s3_range_options M offset len of
        Inl e \<Rightarrow> (Inl e, s)
      | Inr opts \<Rightarrow>
          (case mn_GetObject M (s3_client b) (s3_bucket b) key opts s of
             (Inl e, s1) \<Rightarrow> (Inl (mapErr M key e), s1)
           | (Inr obj, s1) \<Rightarrow> (Inr (mn_Body M obj s1), s1)))"

definition s3_Delete ::
  "('k, 'g, 'o, 's, 'r) minio \<Rightarrow> 'k s3Backend \<Rightarrow> string \<Rightarrow> 's \<Rightarrow> unit res \<times> 's" where
  "s3_Delete M b key s =
     (case mn_RemoveObject M (s3_client b) (s3_bucket b) key s of
        (Inl e, s1) \<Rightarrow> (Inl (Wrapped (''s3: delete '' @ quote key) e), s1)
      | (Inr _, s1) \<Rightarrow> (Inr (), s1))"

text \<open>The listing is what the channel of \<open>ListObjects\<close> delivers; an entry may be an error.\<close>

fun s3_list_loop :: "(storedObject \<Rightarrow> 'c \<times> 's \<Rightarrow> unit res \<times> 'c \<times> 's) \<Rightarrow> (goerr + minioInfo) list \<Rightarrow>
    'c \<times> 's \<Rightarrow> unit res \<times> 'c \<times> 's" where
  "s3_list_loop fn [] cs = (Inr (), cs)"
| "s3_list_loop fn (Inl e # obs) cs = (Inl (Wrapped ''s3: list objects'' e), cs)"
| "s3_list_loop fn (Inr ob # obs) cs =
     (case fn \<lparr>so_key = mo_Key ob, so_size = mo_Size ob, so_mtime = mo_LastModified ob\<rparr> cs of
        (Inl e, cs') \<Rightarrow> (Inl e, cs')
      | (Inr _, cs') \<Rightarrow> s3_list_loop fn obs cs')"

definition s3_List ::
  "('k, 'g, 'o, 's, 'r) minio \<Rightarrow> 'k s3Backend \<Rightarrow> ctx \<Rightarrow>
    (storedObject \<Rightarrow> 'c \<times> 's \<Rightarrow> unit res \<times> 'c \<times> 's) \<Rightarrow> 'c \<times> 's \<Rightarrow> unit res \<times> 'c \<times> 's" where
  "s3_List M b ctx fn cs =
     (case mn_ListObjects M (s3_client b) (s3_bucket b) ctx (snd cs) of
        (obs, s1) \<Rightarrow> s3_list_loop fn obs (fst cs, s1))"

definition s3_Stat ::
  "('k, 'g, 'o, 's, 'r) minio \<Rightarrow> 'k s3Backend \<Rightarrow> string \<Rightarrow> 's \<Rightarrow> objectInfo res \<times> 's" where
  "s3_Stat M b key s =
     (case mn_StatObject M (s3_client b) (s3_bucket b) key s of
        (Inl e, s1) \<Rightarrow> (Inl (mapErr M key e), s1)
      | (Inr info, s1) \<Rightarrow>
          (Inr \<lparr>i_size = mo_Size info, i_ctype = mo_ContentType info, i_etag = mo_ETag info\<rparr>, s1))"

definition s3_PresignGet ::
  "('k, 'g, 'o, 's, 'r) minio \<Rightarrow> 'k s3Backend \<Rightarrow> string \<Rightarrow> int64 \<Rightarrow> 's \<Rightarrow> string res \<times> 's" where
  "s3_PresignGet M b key ttl s =
     (case mn_PresignedGetObject M (s3_presign b) (s3_bucket b) key ttl s of
        (Inl e, s1) \<Rightarrow> (Inl (mapErr M key e), s1)
      | (Inr u, s1) \<Rightarrow> (Inr u, s1))"

definition s3_PresignPut ::
  "('k, 'g, 'o, 's, 'r) minio \<Rightarrow> 'k s3Backend \<Rightarrow> string \<Rightarrow> int64 \<Rightarrow> 's \<Rightarrow> string res \<times> 's" where
  "s3_PresignPut M b key ttl s =
     (case mn_PresignedPutObject M (s3_presign b) (s3_bucket b) key ttl s of
        (Inl e, s1) \<Rightarrow> (Inl (mapErr M key e), s1)
      | (Inr u, s1) \<Rightarrow> (Inr u, s1))"

definition s3_backend ::
  "('k, 'g, 'o, 's, 'r) minio \<Rightarrow> 'k s3Backend \<Rightarrow> ('s, 'r, 'c) backend" where
  "s3_backend M b =
     \<lparr>b_Put = s3_Put M b, b_Get = s3_Get M b, b_GetRange = s3_GetRange M b, b_Delete = s3_Delete M b,
      b_List = s3_List M b, b_Stat = s3_Stat M b, b_PresignGet = s3_PresignGet M b,
      b_PresignPut = s3_PresignPut M b\<rparr>"

lemma s3_backend_sel [simp]:
  "b_Put (s3_backend M b) = s3_Put M b" "b_Get (s3_backend M b) = s3_Get M b"
  "b_GetRange (s3_backend M b) = s3_GetRange M b" "b_Delete (s3_backend M b) = s3_Delete M b"
  "b_List (s3_backend M b) = s3_List M b" "b_Stat (s3_backend M b) = s3_Stat M b"
  "b_PresignGet (s3_backend M b) = s3_PresignGet M b" "b_PresignPut (s3_backend M b) = s3_PresignPut M b"
  by (simp_all add: s3_backend_def)

section \<open>What the program relies on\<close>

text \<open>
  A successful write puts the whole body under its key, a failed one touches no other key, and
  both leave the reader where reads have taken it.
\<close>

definition put_law ::
  "('k, 'g, 'o, 's, uploadReader) minio \<Rightarrow> 'k \<Rightarrow> string \<Rightarrow> ('s \<Rightarrow> string \<rightharpoonup> object) \<Rightarrow> ('s \<Rightarrow> bool) \<Rightarrow> bool" where
  "put_law M k bk objs sane \<longleftrightarrow>
     (\<forall>key r sz ct part s x r' s'.
       mn_PutObject M k bk key r sz ct part s = (x, r', s') \<longrightarrow> sane s \<longrightarrow>
       sane s' \<and> (\<forall>k'. k' \<noteq> key \<longrightarrow> objs s' k' = objs s k') \<and>
       (up_ok r \<longrightarrow> reads bufio_read r r') \<and>
       (x = Inr () \<longrightarrow> up_ok r \<longrightarrow> honest_size (up_rest r) (up_fin r) sz \<longrightarrow>
         up_fin r = EOF \<and> up_rest r' = [] \<and> (\<exists>ob. objs s' key = Some ob \<and> o_data ob = up_rest r)))"

text \<open>The options of a read, and the bytes of the object they select.\<close>

definition selects :: "('k, 'g, 'o, 's, 'r) minio \<Rightarrow> 'g \<Rightarrow> (bytes \<Rightarrow> bytes) \<Rightarrow> bool" where
  "selects M g sel \<longleftrightarrow>
     (g = mn_GetOptions M \<and> sel = id) \<or>
     (\<exists>i j. mn_SetRange M i j (mn_GetOptions M) = Inr g \<and> 0 \<le> sint i \<and> sint i \<le> sint j \<and>
       sel = (\<lambda>d. take (Suc (nat (sint j - sint i))) (drop (nat (sint i)) d))) \<or>
     (\<exists>i. mn_SetRange M i 0 (mn_GetOptions M) = Inr g \<and> 0 < sint i \<and> sel = drop (nat (sint i)))"

definition get_law ::
  "('k, 'g, 'o, 's, 'r) minio \<Rightarrow> 'k \<Rightarrow> string \<Rightarrow> ('s \<Rightarrow> string \<rightharpoonup> object) \<Rightarrow> ('s \<Rightarrow> bool) \<Rightarrow> bool" where
  "get_law M k bk objs sane \<longleftrightarrow>
     (\<forall>key g s x s1. mn_GetObject M k bk key g s = (x, s1) \<longrightarrow> sane s \<longrightarrow>
       sane s1 \<and> objs s1 = objs s \<and>
       (\<forall>obj. x = Inr obj \<longrightarrow>
         (\<forall>sel ob. selects M g sel \<longrightarrow> objs s key = Some ob \<longrightarrow> delivers (mn_Body M obj s1) (sel (o_data ob))) \<and>
         (\<forall>y obj' s2. mn_ObjectStat M obj s1 = (y, obj', s2) \<longrightarrow>
           sane s2 \<and> objs s2 = objs s \<and>
           (y = None \<longrightarrow> (\<exists>ob. objs s key = Some ob \<and>
             (g = mn_GetOptions M \<longrightarrow> delivers (mn_Body M obj' s2) (o_data ob)))))))"

definition remove_law ::
  "('k, 'g, 'o, 's, 'r) minio \<Rightarrow> 'k \<Rightarrow> string \<Rightarrow> ('s \<Rightarrow> string \<rightharpoonup> object) \<Rightarrow> ('s \<Rightarrow> bool) \<Rightarrow> bool" where
  "remove_law M k bk objs sane \<longleftrightarrow>
     (\<forall>key s x s'. mn_RemoveObject M k bk key s = (x, s') \<longrightarrow> sane s \<longrightarrow>
       sane s' \<and> (objs s' = (objs s)(key := None) \<or> (x \<noteq> Inr () \<and> objs s' = objs s)))"

definition stat_law ::
  "('k, 'g, 'o, 's, 'r) minio \<Rightarrow> 'k \<Rightarrow> string \<Rightarrow> ('s \<Rightarrow> string \<rightharpoonup> object) \<Rightarrow> ('s \<Rightarrow> bool) \<Rightarrow> bool" where
  "stat_law M k bk objs sane \<longleftrightarrow>
     (\<forall>key s x s'. mn_StatObject M k bk key s = (x, s') \<longrightarrow> sane s \<longrightarrow>
       sane s' \<and> objs s' = objs s \<and>
       (\<forall>info. x = Inr info \<longrightarrow> (\<exists>ob. objs s key = Some ob \<and> mo_Size info = len64 (o_data ob))))"

text \<open>What a listing delivers are objects of the store.\<close>

definition list_law ::
  "('k, 'g, 'o, 's, 'r) minio \<Rightarrow> 'k \<Rightarrow> string \<Rightarrow> ('s \<Rightarrow> string \<rightharpoonup> object) \<Rightarrow> ('s \<Rightarrow> bool) \<Rightarrow> bool" where
  "list_law M k bk objs sane \<longleftrightarrow>
     (\<forall>ctx s obs s'. mn_ListObjects M k bk ctx s = (obs, s') \<longrightarrow> sane s \<longrightarrow>
       sane s' \<and> objs s' = objs s \<and>
       (\<forall>info. Inr info \<in> set obs \<longrightarrow>
         (\<exists>ob. objs s (mo_Key info) = Some ob \<and> mo_LastModified info = o_mtime ob)))"

text \<open>Signing a URL performs no I/O.\<close>

definition presign_law :: "('k, 'g, 'o, 's, 'r) minio \<Rightarrow> 'k \<Rightarrow> string \<Rightarrow> bool" where
  "presign_law M k bk \<longleftrightarrow>
     (\<forall>key ttl s. snd (mn_PresignedGetObject M k bk key ttl s) = s \<and>
       snd (mn_PresignedPutObject M k bk key ttl s) = s)"

definition minio_laws ::
  "('k, 'g, 'o, 's, uploadReader) minio \<Rightarrow> 'k s3Backend \<Rightarrow> ('s \<Rightarrow> string \<rightharpoonup> object) \<Rightarrow> ('s \<Rightarrow> bool) \<Rightarrow> bool" where
  "minio_laws M b objs sane \<longleftrightarrow>
     put_law M (s3_client b) (s3_bucket b) objs sane \<and> get_law M (s3_client b) (s3_bucket b) objs sane \<and>
     remove_law M (s3_client b) (s3_bucket b) objs sane \<and> stat_law M (s3_client b) (s3_bucket b) objs sane \<and>
     list_law M (s3_client b) (s3_bucket b) objs sane \<and> presign_law M (s3_presign b) (s3_bucket b)"

lemma put_lawD:
  assumes "put_law M k bk objs sane" and "mn_PutObject M k bk key r sz ct part s = (x, r', s')" and "sane s"
  shows "sane s'" "k' \<noteq> key \<Longrightarrow> objs s' k' = objs s k'" "up_ok r \<Longrightarrow> reads bufio_read r r'"
    "x = Inr () \<Longrightarrow> up_ok r \<Longrightarrow> honest_size (up_rest r) (up_fin r) sz \<Longrightarrow>
      up_fin r = EOF \<and> up_rest r' = [] \<and> (\<exists>ob. objs s' key = Some ob \<and> o_data ob = up_rest r)"
  using assms(1) [unfolded put_law_def, rule_format, OF assms(2,3)] by simp_all

lemma get_lawD:
  assumes "get_law M k bk objs sane" and "mn_GetObject M k bk key g s = (x, s1)" and "sane s"
  shows "sane s1" "objs s1 = objs s"
    "x = Inr obj \<Longrightarrow> selects M g sel \<Longrightarrow> objs s key = Some ob \<Longrightarrow> delivers (mn_Body M obj s1) (sel (o_data ob))"
    "x = Inr obj \<Longrightarrow> mn_ObjectStat M obj s1 = (y, obj', s2) \<Longrightarrow> sane s2 \<and> objs s2 = objs s"
    "x = Inr obj \<Longrightarrow> mn_ObjectStat M obj s1 = (None, obj', s2) \<Longrightarrow> g = mn_GetOptions M \<Longrightarrow>
      \<exists>ob. objs s key = Some ob \<and> delivers (mn_Body M obj' s2) (o_data ob)"
  using assms(1) [unfolded get_law_def, rule_format, OF assms(2,3)] by blast+

lemma remove_lawD:
  assumes "remove_law M k bk objs sane" and "mn_RemoveObject M k bk key s = (x, s')" and "sane s"
  shows "sane s'" "objs s' = (objs s)(key := None) \<or> (x \<noteq> Inr () \<and> objs s' = objs s)"
  using assms(1) [unfolded remove_law_def, rule_format, OF assms(2,3)] by simp_all

lemma stat_lawD:
  assumes "stat_law M k bk objs sane" and "mn_StatObject M k bk key s = (x, s')" and "sane s"
  shows "sane s'" "objs s' = objs s"
    "x = Inr info \<Longrightarrow> \<exists>ob. objs s key = Some ob \<and> mo_Size info = len64 (o_data ob)"
  using assms(1) [unfolded stat_law_def, rule_format, OF assms(2,3)] by simp_all

lemma list_lawD:
  assumes "list_law M k bk objs sane" and "mn_ListObjects M k bk ctx s = (obs, s')" and "sane s"
  shows "sane s'" "objs s' = objs s"
    "Inr info \<in> set obs \<Longrightarrow> \<exists>ob. objs s (mo_Key info) = Some ob \<and> mo_LastModified info = o_mtime ob"
  using assms(1) [unfolded list_law_def, rule_format, OF assms(2,3)] by simp_all

section \<open>The contract\<close>

lemma range_selects:
  assumes "s3_range_options M off len = Inr g" and "0 \<le> sint off"
    and "0 < sint len \<Longrightarrow> sint off + sint len \<le> 2 ^ 63"
  shows "selects M g (\<lambda>d. if 0 < sint len then take (nat (sint len)) (drop (nat (sint off)) d)
    else drop (nat (sint off)) d)"
proof (cases "0 < sint len")
  case True
  have "sint (len - 1) = sint len - 1"
    using True sint64_sub [of len 1] sint64_upper [of len] by simp
  then have stop: "sint (off + len - 1) = sint off + sint len - 1"
    using True assms(2,3) sint64_add [of off "len - 1"] by (simp add: algebra_simps)
  have "Suc (nat (sint (off + len - 1) - sint off)) = nat (sint len)"
    using True by (simp add: stop)
  moreover have "mn_SetRange M off (off + len - 1) (mn_GetOptions M) = Inr g"
    using assms(1) True by (simp add: s3_range_options_def sint64_less_iff split: sum.splits)
  ultimately show ?thesis
    unfolding selects_def using True assms(2) stop
    by (intro disjI2 disjI1 exI [of _ off] exI [of _ "off + len - 1"]) simp
next
  case False
  then show ?thesis
  proof (cases "0 < sint off")
    case True
    then show ?thesis
      using assms(1) False unfolding selects_def
      by (intro disjI2 exI [of _ off]) (simp add: s3_range_options_def sint64_less_iff split: sum.splits)
  next
    case off: False
    then have "g = mn_GetOptions M"
      using assms(1) False by (simp add: s3_range_options_def sint64_less_iff)
    then show ?thesis
      using False off assms(2) by (auto simp: selects_def fun_eq_iff)
  qed
qed

lemma s3_GetRange_selected:
  assumes "get_law M (s3_client b) (s3_bucket b) objs sane" and "sane s" and "objs s key = Some ob"
    and "0 \<le> sint off" and "0 < sint len \<Longrightarrow> sint off + sint len \<le> 2 ^ 63"
    and "s3_GetRange M b key off len s = (Inr src, s')"
  shows "delivers src (if 0 < sint len then take (nat (sint len)) (drop (nat (sint off)) (o_data ob))
    else drop (nat (sint off)) (o_data ob))"
proof -
  obtain g obj where g: "s3_range_options M off len = Inr g"
    "mn_GetObject M (s3_client b) (s3_bucket b) key g s = (Inr obj, s')" "src = mn_Body M obj s'"
    using assms(6) by (auto simp: s3_GetRange_def split: sum.splits prod.splits)
  show ?thesis
    using get_lawD(3) [OF assms(1) g(2) assms(2) refl range_selects [OF g(1) assms(4,5)] assms(3)] g(3)
    by simp
qed

text \<open>The methods, under the laws.\<close>

lemma minio_lawsD:
  assumes "minio_laws M b objs sane"
  shows "put_law M (s3_client b) (s3_bucket b) objs sane" "get_law M (s3_client b) (s3_bucket b) objs sane"
    "remove_law M (s3_client b) (s3_bucket b) objs sane" "stat_law M (s3_client b) (s3_bucket b) objs sane"
    "presign_law M (s3_presign b) (s3_bucket b)" "list_law M (s3_client b) (s3_bucket b) objs sane"
  using assms by (simp_all add: minio_laws_def)

lemma s3_Put_law:
  assumes "minio_laws M b objs sane" and s: "sane s" and "s3_Put M b k r sz ct s = (x, r', s')"
  shows "sane s'" "k' \<noteq> k \<Longrightarrow> objs s' k' = objs s k'" "up_ok r \<Longrightarrow> reads bufio_read r r'"
    "x = Inr () \<Longrightarrow> up_ok r \<Longrightarrow> honest_size (up_rest r) (up_fin r) sz \<Longrightarrow>
      up_fin r = EOF \<and> up_rest r' = [] \<and> (\<exists>ob. objs s' = (objs s)(k \<mapsto> ob) \<and> o_data ob = up_rest r)"
proof -
  obtain ct' part y where p: "mn_PutObject M (s3_client b) (s3_bucket b) k r sz ct' part s = (y, r', s')"
    "x = Inr () \<Longrightarrow> y = Inr ()"
    using assms(3) by (auto simp: s3_Put_def Let_def split: sum.splits prod.splits)
  note put = put_lawD [OF minio_lawsD(1) [OF assms(1)] p(1) s]
  show "sane s'" "k' \<noteq> k \<Longrightarrow> objs s' k' = objs s k'" "up_ok r \<Longrightarrow> reads bufio_read r r'"
    using put(1-3) by simp_all
  show "up_fin r = EOF \<and> up_rest r' = [] \<and> (\<exists>ob. objs s' = (objs s)(k \<mapsto> ob) \<and> o_data ob = up_rest r)"
    if x: "x = Inr ()" "up_ok r" "honest_size (up_rest r) (up_fin r) sz"
  proof -
    obtain ob where ob: "up_fin r = EOF" "up_rest r' = []" "objs s' k = Some ob" "o_data ob = up_rest r"
      using put(4) [OF p(2) [OF x(1)] x(2,3)] by blast
    moreover have "objs s' = (objs s)(k \<mapsto> ob)"
      using ob(3) put(2) by (auto simp: fun_eq_iff)
    ultimately show ?thesis
      by blast
  qed
qed

lemma s3_Get_law:
  assumes "minio_laws M b objs sane" and s: "sane s" and g: "s3_Get M b k s = (x, s')"
  shows "objs s' = objs s \<and> sane s'" "x = Inr src \<Longrightarrow> \<exists>ob. objs s k = Some ob \<and> delivers src (o_data ob)"
proof -
  note get = get_lawD [OF minio_lawsD(2) [OF assms(1)] _ s]
  show "objs s' = objs s \<and> sane s'"
    using g get(1,2,4) by (auto simp: s3_Get_def split: sum.splits prod.splits option.splits)
  show "\<exists>ob. objs s k = Some ob \<and> delivers src (o_data ob)" if "x = Inr src"
    using that g get(5) by (auto simp: s3_Get_def split: sum.splits prod.splits option.splits)
qed

lemma s3_GetRange_frame:
  assumes "minio_laws M b objs sane" and "sane s" and "s3_GetRange M b k off len s = (x, s')"
  shows "objs s' = objs s \<and> sane s'"
  using assms(3) get_lawD(1,2) [OF minio_lawsD(2) [OF assms(1)] _ assms(2)] assms(2)
  by (auto simp: s3_GetRange_def split: sum.splits prod.splits)

lemma s3_Stat_law:
  assumes "minio_laws M b objs sane" and "sane s" and g: "s3_Stat M b k s = (x, s')"
  shows "objs s' = objs s \<and> sane s'" "x = Inr i \<Longrightarrow> \<exists>ob. objs s k = Some ob \<and> i_size i = len64 (o_data ob)"
proof -
  note stat = stat_lawD [OF minio_lawsD(4) [OF assms(1)] _ assms(2)]
  show "objs s' = objs s \<and> sane s'"
    using g stat(1,2) by (auto simp: s3_Stat_def split: sum.splits prod.splits)
  show "\<exists>ob. objs s k = Some ob \<and> i_size i = len64 (o_data ob)" if "x = Inr i"
    using that g stat(3) by (auto simp: s3_Stat_def split: sum.splits prod.splits)
qed

lemma s3_Delete_law:
  assumes "minio_laws M b objs sane" and "sane s" and g: "s3_Delete M b k s = (x, s')"
  shows "sane s'" "objs s' = (objs s)(k := None) \<or> (x \<noteq> Inr () \<and> objs s' = objs s)"
proof -
  obtain y where y: "mn_RemoveObject M (s3_client b) (s3_bucket b) k s = (y, s')" "y \<noteq> Inr () \<Longrightarrow> x \<noteq> Inr ()"
    using g by (auto simp: s3_Delete_def split: sum.splits prod.splits)
  note remove = remove_lawD [OF minio_lawsD(3) [OF assms(1)] y(1) assms(2)]
  show "sane s'" "objs s' = (objs s)(k := None) \<or> (x \<noteq> Inr () \<and> objs s' = objs s)"
    using remove y(2) by auto
qed

lemma s3_Presign_law:
  assumes "minio_laws M b objs sane"
  shows "s3_PresignGet M b k ttl s = (x, s') \<Longrightarrow> s' = s" "s3_PresignPut M b k ttl s = (x, s') \<Longrightarrow> s' = s"
  using minio_lawsD(5) [OF assms, unfolded presign_law_def, rule_format, of k ttl s]
  by (auto simp: s3_PresignGet_def s3_PresignPut_def split: sum.splits prod.splits)

lemma s3_object_store:
  assumes laws: "minio_laws M b objs sane"
  shows "object_store bufio_read up_rest up_fin up_ok (s3_backend M b) objs sane"
proof
  fix s k r sz ct e r' s'
  assume "sane s" and "b_Put (s3_backend M b) k r sz ct s = (Inl e, r', s')"
  then show "\<forall>k'. k' \<noteq> k \<longrightarrow> objs s' k' = objs s k'"
    using s3_Put_law(2) [OF laws] by simp
next
  fix s k off len src s' ob
  assume r: "sane s" "b_GetRange (s3_backend M b) k off len s = (Inr src, s')" "objs s k = Some ob"
    and w: "0 \<le> sint off" "0 < sint len" "sint off + sint len \<le> int (length (o_data ob))"
      "int (length (o_data ob)) < 2 ^ 63"
  have "delivers src (if 0 < sint len then take (nat (sint len)) (drop (nat (sint off)) (o_data ob))
      else drop (nat (sint off)) (o_data ob))"
    by (rule s3_GetRange_selected [OF minio_lawsD(2) [OF laws]]) (use r w in simp_all)
  then show "delivers src (take (nat (sint len)) (drop (nat (sint off)) (o_data ob)))"
    using w(2) by simp
next
  fix s r sz k ct r' s'
  assume "sane s" and "up_ok r" and "honest_size (up_rest r) (up_fin r) sz"
    and "b_Put (s3_backend M b) k r sz ct s = (Inr (), r', s')"
  then show "up_fin r = EOF \<and> up_rest r' = [] \<and> (\<exists>ob. objs s' = (objs s)(k \<mapsto> ob) \<and> o_data ob = up_rest r)"
    using s3_Put_law(4) [OF laws] by simp
next
  fix s k r sz ct x r' s'
  assume "sane s" and p: "b_Put (s3_backend M b) k r sz ct s = (x, r', s')"
  then show "sane s'" and "up_ok r \<Longrightarrow> reads bufio_read r r'"
    using s3_Put_law(1,3) [OF laws] by simp_all
next
  fix s k src s'
  assume "sane s" and "b_Get (s3_backend M b) k s = (Inr src, s')"
  then show "\<exists>ob. objs s k = Some ob \<and> delivers src (o_data ob)"
    using s3_Get_law(2) [OF laws] by simp
next
  fix s k g s'
  assume "sane s" and "b_Get (s3_backend M b) k s = (g, s')"
  then show "objs s' = objs s \<and> sane s'"
    using s3_Get_law(1) [OF laws] by simp
next
  fix s k off len g s'
  assume "sane s" and "b_GetRange (s3_backend M b) k off len s = (g, s')"
  then show "objs s' = objs s \<and> sane s'"
    using s3_GetRange_frame [OF laws] by simp
next
  fix s k i s'
  assume "sane s" and "b_Stat (s3_backend M b) k s = (Inr i, s')"
  then show "\<exists>ob. objs s k = Some ob \<and> i_size i = len64 (o_data ob)"
    using s3_Stat_law(2) [OF laws] by simp
next
  fix s k g s'
  assume "sane s" and "b_Stat (s3_backend M b) k s = (g, s')"
  then show "objs s' = objs s \<and> sane s'"
    using s3_Stat_law(1) [OF laws] by simp
next
  fix s k s'
  assume "sane s" and "b_Delete (s3_backend M b) k s = (Inr (), s')"
  then show "objs s' = (objs s)(k := None)"
    using s3_Delete_law(2) [OF laws, of s k "Inr ()" s'] by simp
next
  fix s k e s'
  assume "sane s" and "b_Delete (s3_backend M b) k s = (Inl e, s')"
  then show "objs s' = objs s \<or> objs s' = (objs s)(k := None)"
    using s3_Delete_law(2) [OF laws, of s k "Inl e" s'] by auto
next
  fix s k x s'
  assume "sane s" and "b_Delete (s3_backend M b) k s = (x, s')"
  then show "sane s'"
    using s3_Delete_law(1) [OF laws] by simp
next
  fix s k ttl u s'
  assume "sane s" and "b_PresignGet (s3_backend M b) k ttl s = (u, s')"
  then show "objs s' = objs s \<and> sane s'"
    using s3_Presign_law(1) [OF laws, of k ttl s u s'] by simp
next
  fix s k ttl u s'
  assume "sane s" and "b_PresignPut (s3_backend M b) k ttl s = (u, s')"
  then show "objs s' = objs s \<and> sane s'"
    using s3_Presign_law(2) [OF laws, of k ttl s u s'] by simp
qed

text \<open>What holds before an enumeration, and is kept by every visit of a listed object, holds after.\<close>

lemma s3_list_loop_visits:
  "s3_list_loop fn obs cs = (x, cs') \<Longrightarrow> P cs \<Longrightarrow>
    (\<And>info cs y cs''. Inr info \<in> set obs \<Longrightarrow> P cs \<Longrightarrow>
      fn \<lparr>so_key = mo_Key info, so_size = mo_Size info, so_mtime = mo_LastModified info\<rparr> cs = (y, cs'') \<Longrightarrow>
      P cs'') \<Longrightarrow> P cs'"
proof (induction fn obs cs rule: s3_list_loop.induct)
  case (3 fn info obs cs)
  obtain y cs1 where v: "fn \<lparr>so_key = mo_Key info, so_size = mo_Size info, so_mtime = mo_LastModified info\<rparr> cs =
      (y, cs1)"
    by (rule prod.exhaust)
  then have "P cs1"
    using "3.prems"(3) [of info cs y cs1] "3.prems"(2) by simp
  show ?case
  proof (cases y)
    case (Inl e)
    then show ?thesis
      using "3.prems"(1) v \<open>P cs1\<close> by simp
  next
    case (Inr u)
    have "s3_list_loop fn obs cs1 = (x, cs')"
      using "3.prems"(1) v Inr by simp
    then show ?thesis
      using "3.IH" [OF v [symmetric] Inr _ \<open>P cs1\<close>] "3.prems"(3) by (meson list.set_intros(2))
  qed
qed auto

section \<open>A client in memory\<close>

text \<open>An object store that keeps the laws; a client is the URL it is for.\<close>

definition demo_window :: "(int64 \<times> int64) option \<Rightarrow> bytes \<Rightarrow> bytes" where
  "demo_window g d =
     (case g of
        None \<Rightarrow> d
      | Some (i, j) \<Rightarrow>
          if 0 <s i \<and> j = 0 then drop (nat (sint i)) d
          else take (Suc (nat (sint j - sint i))) (drop (nat (sint i)) d))"

definition demo_info :: "string \<Rightarrow> object \<Rightarrow> minioInfo" where
  "demo_info k ob =
     \<lparr>mo_Key = k, mo_Size = len64 (o_data ob), mo_LastModified = o_mtime ob, mo_ContentType = o_ctype ob,
      mo_ETag = ''''\<rparr>"

definition demo_minio :: "(string, (int64 \<times> int64) option, source, memstore, uploadReader) minio" where
  "demo_minio =
     \<lparr>mn_New = (\<lambda>ep ak sk secure region. Inr ((if secure then ''https://'' else ''http://'') @ ep)),
      mn_BucketExists = (\<lambda>k bk s. (Inr True, s)), mn_MakeBucket = (\<lambda>k bk region s. (Inr (), s)),
      mn_PutObject = (\<lambda>k bk key r sz ct part. mem_Put upload_ReadAll key r sz ct),
      mn_GetOptions = None,
      mn_SetRange = (\<lambda>i j g. if (0 <s i \<and> j = 0) \<or> (0 <=s i \<and> i <=s j) then Inr (Some (i, j))
        else Inl (Opaque ''Invalid range specified'')),
      mn_GetObject = (\<lambda>k bk key g s.
        (case m_map s key of
           None \<Rightarrow> (Inl (ErrorResponse ''NoSuchKey''), s)
         | Some ob \<Rightarrow> (Inr (bytes_reader (demo_window g (o_data ob))), s))),
      mn_ObjectStat = (\<lambda>obj s. (None, obj, s)), mn_Body = (\<lambda>obj s. obj),
      mn_RemoveObject = (\<lambda>k bk. mem_Delete),
      mn_ListObjects = (\<lambda>k bk ctx s. (map (\<lambda>(key, ob). Inr (demo_info key ob)) (m_objects s), s)),
      mn_StatObject = (\<lambda>k bk key s.
        (case m_map s key of
           None \<Rightarrow> (Inl (ErrorResponse ''NoSuchKey''), s) | Some ob \<Rightarrow> (Inr (demo_info key ob), s))),
      mn_PresignedGetObject = (\<lambda>k bk key ttl s. (Inr (k @ ''/'' @ bk @ ''/'' @ key), s)),
      mn_PresignedPutObject = (\<lambda>k bk key ttl s. (Inr (k @ ''/'' @ bk @ ''/'' @ key), s)),
      mn_Code = (\<lambda>e. case e of ErrorResponse c \<Rightarrow> c | _ \<Rightarrow> '''')\<rparr>"

lemma demo_minio_sel [simp]:
  "mn_New demo_minio ep ak sk secure region = Inr ((if secure then ''https://'' else ''http://'') @ ep)"
  "mn_BucketExists demo_minio k bk s = (Inr True, s)"
  "mn_PutObject demo_minio k bk key r sz ct part = mem_Put upload_ReadAll key r sz ct"
  "mn_GetOptions demo_minio = None"
  "mn_SetRange demo_minio i j g =
     (if (0 <s i \<and> j = 0) \<or> (0 <=s i \<and> i <=s j) then Inr (Some (i, j))
      else Inl (Opaque ''Invalid range specified''))"
  "mn_GetObject demo_minio k bk key g s =
     (case m_map s key of
        None \<Rightarrow> (Inl (ErrorResponse ''NoSuchKey''), s)
      | Some ob \<Rightarrow> (Inr (bytes_reader (demo_window g (o_data ob))), s))"
  "mn_ObjectStat demo_minio obj s = (None, obj, s)" "mn_Body demo_minio obj s = obj"
  "mn_RemoveObject demo_minio k bk = mem_Delete"
  "mn_StatObject demo_minio k bk key s =
     (case m_map s key of
        None \<Rightarrow> (Inl (ErrorResponse ''NoSuchKey''), s) | Some ob \<Rightarrow> (Inr (demo_info key ob), s))"
  "mn_PresignedGetObject demo_minio k bk key ttl s = (Inr (k @ ''/'' @ bk @ ''/'' @ key), s)"
  "mn_PresignedPutObject demo_minio k bk key ttl s = (Inr (k @ ''/'' @ bk @ ''/'' @ key), s)"
  "mn_Code demo_minio (ErrorResponse c) = c"
  by (simp_all add: demo_minio_def)

lemma demo_selects: "selects demo_minio g sel \<Longrightarrow> sel = demo_window g"
  by (auto simp: selects_def demo_window_def fun_eq_iff sint64_less_iff sint64_le_iff split: if_splits)

lemma demo_put: "put_law demo_minio k bk m_map m_sane"
  unfolding put_law_def
proof (intro allI impI)
  fix key r sz ct part s x r' s'
  assume "mn_PutObject demo_minio k bk key r sz ct part s = (x, r', s')" and "m_sane s"
  then have p: "b_Put (mem_backend upload_ReadAll) key r sz ct s = (x, r', s')" "m_sane s"
    by simp_all
  have "m_map s' k' = m_map s k'" if "k' \<noteq> key" for k'
    using p that by (auto simp: mem_Put_def update_conv' split: option.splits prod.splits)
  moreover have "\<exists>ob. m_map s' key = Some ob \<and> o_data ob = up_rest r"
    if "up_ok r" "honest_size (up_rest r) (up_fin r) sz" "x = Inr ()"
    using mem.Put_ok [OF p(2) that(1,2) p(1) [unfolded that(3)]] by auto
  ultimately show "m_sane s' \<and> (\<forall>k'. k' \<noteq> key \<longrightarrow> m_map s' k' = m_map s k') \<and>
      (up_ok r \<longrightarrow> reads bufio_read r r') \<and>
      (x = Inr () \<longrightarrow> up_ok r \<longrightarrow> honest_size (up_rest r) (up_fin r) sz \<longrightarrow>
        up_fin r = EOF \<and> up_rest r' = [] \<and> (\<exists>ob. m_map s' key = Some ob \<and> o_data ob = up_rest r))"
    using mem.Put_sane [OF p(2,1)] mem.Put_reads [OF p(2) _ p(1)] mem.Put_ok [OF p(2)] p(1) by blast
qed

lemma demo_minio_laws: "minio_laws demo_minio b m_map m_sane"
proof -
  have "get_law demo_minio k bk m_map m_sane" for k bk
    unfolding get_law_def
    by (auto dest: demo_selects split: option.splits) (simp add: demo_window_def)
  moreover have "remove_law demo_minio k bk m_map m_sane" for k bk
    by (auto simp: remove_law_def mem_Delete_def delete_conv' intro: m_sane_delete)
  moreover have "stat_law demo_minio k bk m_map m_sane" for k bk
    by (auto simp: stat_law_def demo_info_def split: option.splits)
  moreover have "list_law demo_minio k bk m_map m_sane" for k bk
    by (auto simp: list_law_def demo_minio_def demo_info_def m_sane_def)
  moreover have "presign_law demo_minio k bk" for k bk
    by (simp add: presign_law_def)
  ultimately show ?thesis
    by (simp add: minio_laws_def demo_put)
qed

section \<open>Properties\<close>

text \<open>
  \<open>SetRange\<close> of minio-go refuses a range with a negative end, unless it is the suffix form, which starts
  at 0.
\<close>

definition range_law :: "('k, 'g, 'o, 's, 'r) minio \<Rightarrow> bool" where
  "range_law M \<longleftrightarrow> (\<forall>i j g. 0 < sint i \<and> sint j < 0 \<longrightarrow> (\<exists>e. mn_SetRange M i j g = Inl e))"

lemma s3_wrapped_refused:
  assumes "range_law M" and "0 \<le> sint off" and "2 ^ 63 < sint off + sint len"
  shows "\<exists>e. s3_GetRange M b key off len s = (Inl e, s)"
proof -
  have len: "0 < sint len" "0 < sint off"
    using assms(2,3) sint64_upper [of off] sint64_upper [of len] by linarith+
  have "sint (len - 1) = sint len - 1"
    using len(1) by (rule sint_minus_one)
  then have "sint (off + (len - 1)) = sint off + sint len - 1 - 2 ^ 64"
    using assms(3) by (subst sint64_add_wraps) simp_all
  then have "sint (off + len - 1) < 0"
    using sint64_upper [of off] sint64_upper [of len] by (simp add: algebra_simps)
  then obtain e where "mn_SetRange M off (off + len - 1) (mn_GetOptions M) = Inl e"
    using assms(1) len(2) unfolding range_law_def by blast
  then show ?thesis
    using len by (simp add: s3_GetRange_def s3_range_options_def sint64_less_iff)
qed

text \<open>C29. Ranged reads over S3.  When the last position of the window fits 64 bits, or the length is not
  positive, a handle that is returned delivers what the interface promises: the window of that length
  at the offset, cut off at the end of the object, or everything from the offset; a handle that
  breaks off has delivered a part of it.  When \<open>offset+length-1\<close> wraps around, the interface promises
  everything from the offset, but the read is refused, before the store is asked; it never delivers
  other bytes.\<close>

theorem s3_GetRange_exact:
  assumes "get_law M (s3_client b) (s3_bucket b) objs sane" and "range_law M"
    and "sane s" and "objs s key = Some ob" and "0 \<le> sint off"
    and "s3_GetRange M b key off len s = (x, s')"
  shows "if 0 < sint len \<and> 2 ^ 63 < sint off + sint len then s' = s \<and> (\<exists>e. x = Inl e)
    else \<forall>src. x = Inr src \<longrightarrow> delivers src
      (if 0 < sint len then take (nat (sint len)) (drop (nat (sint off)) (o_data ob))
       else drop (nat (sint off)) (o_data ob))"
proof (cases "0 < sint len \<and> 2 ^ 63 < sint off + sint len")
  case True
  then show ?thesis
    using s3_wrapped_refused [OF assms(2,5), of len b key s] assms(6) by auto
next
  case False
  then have fits: "0 < sint len \<Longrightarrow> sint off + sint len \<le> 2 ^ 63"
    by simp
  have "delivers src (if 0 < sint len then take (nat (sint len)) (drop (nat (sint off)) (o_data ob))
      else drop (nat (sint off)) (o_data ob))" if "x = Inr src" for src
    using s3_GetRange_selected [OF assms(1,3,4,5) fits] assms(6) that by blast
  then show ?thesis
    unfolding if_not_P [OF False] by blast
qed

definition demo_s3 :: "string s3Backend" where
  "demo_s3 = \<lparr>s3_client = ''http://minio:9000'', s3_presign = ''http://minio:9000'', s3_bucket = ''b''\<rparr>"

theorem s3_GetRange_exact_witness:
  "(\<exists>s'. s3_GetRange demo_minio demo_s3 ''k'' 1 3 demo_store = (Inr (bytes_reader [11, 12, 13]), s')) \<and>
    (\<exists>e. s3_GetRange demo_minio demo_s3 ''k'' 2 9223372036854775807 demo_store = (Inl e, demo_store))"
proof -
  have law: "get_law demo_minio (s3_client demo_s3) (s3_bucket demo_s3) m_map m_sane"
    using demo_minio_laws [of demo_s3] by (rule minio_lawsD(2))
  have range: "range_law demo_minio"
    by (auto simp: range_law_def sint64_less_iff sint64_le_iff)
  have sane: "m_sane demo_store"
    by (simp add: m_sane_def demo_store_def mem_PutAged_def mem_New_def)
  obtain ds s' where r: "s3_GetRange demo_minio demo_s3 ''k'' 1 3 demo_store = (Inr (bytes_reader ds), s')"
    by (simp add: s3_GetRange_def s3_range_options_def demo_store_map sint64_less_iff sint64_le_iff)
  obtain x s'' where w: "s3_GetRange demo_minio demo_s3 ''k'' 2 9223372036854775807 demo_store = (x, s'')"
    by (metis surj_pair)
  show ?thesis
    using s3_GetRange_exact [OF law range sane demo_store_map _ r] r
      s3_GetRange_exact [OF law range sane demo_store_map _ w] w by auto
qed

end
