(* ===== verification/Interleaving.thy ===== *)
theory Interleaving
  imports GcModel
begin

text \<open>
  Uploads and the orphan sweep side by side.  Between writing its object and committing its
  row an upload is in flight, and the sweep is a sequence of moments of its own: it reads the
  referenced keys, then takes the cutoff from the clock, then visits object after object, as in
  \<open>reclaimOrphans\<close>.  The steps are the model's own operations (\<open>stage\<close>, \<open>Create\<close> or
  \<open>CreateForKey\<close>, \<open>StorageKeys\<close>, \<open>visit\<close>, \<open>purgeDeleted\<close>, the handling of
  idempotency keys) in any order, and an upload may stop after writing its object; two bounds
  constrain the timing: \<open>D\<close> for the time from an object's write to its commit, \<open>delta\<close> for the
  time from the reading of the keys to the cutoff.
\<close>

section \<open>The system\<close>

datatype scan_phase =
    Idle
  | Keyed "string set" int
  | Visiting "string set" int "storedObject list"

record sys =
  y_world :: "(memstore, db) world"
  y_now :: int
  y_pending :: "(File \<times> int) list"
  y_scan :: scan_phase

text \<open>The world at the present time.\<close>

definition present :: "sys \<Rightarrow> (memstore, db) world" where
  "present y = set_clock (y_now y) (y_world y)"

text \<open>Committing a staged file, with or without an idempotency key.\<close>

definition commit_file ::
  "(string \<Rightarrow> string option) \<Rightarrow> File \<Rightarrow> string option \<Rightarrow> (memstore, db) world \<Rightarrow>
    File res \<times> (memstore, db) world" where
  "commit_file canon f key w =
     (case key of
        None \<Rightarrow> on_repo (r_Create (pg_repo canon) f) w
      | Some k \<Rightarrow> on_repo (r_CreateForKey (pg_repo canon) f k) w)"

inductive sys_step ::
  "libs \<Rightarrow> (string \<Rightarrow> string option) \<Rightarrow> (memstore, db) collector \<Rightarrow> int \<Rightarrow> int \<Rightarrow> sys \<Rightarrow> sys \<Rightarrow> bool"
  for L :: libs and canon :: "string \<Rightarrow> string option" and c :: "(memstore, db) collector"
    and D :: int and delta :: int where
  sys_staged: "honest_input inp \<Longrightarrow> stage L (model canon) inp (present y) = (Inr f, b, w') \<Longrightarrow>
    sys_step L canon c D delta y (y\<lparr>y_world := w', y_pending := (f, y_now y) # y_pending y\<rparr>)"
| sys_stage_failed: "honest_input inp \<Longrightarrow> stage L (model canon) inp (present y) = (Inl e, b, w') \<Longrightarrow>
    sys_step L canon c D delta y (y\<lparr>y_world := w'\<rparr>)"
| sys_committed: "y_pending y = xs @ (f, t) # ys \<Longrightarrow> y_now y - t \<le> D \<Longrightarrow>
    commit_file canon f key (present y) = (Inr g, w') \<Longrightarrow>
    sys_step L canon c D delta y (y\<lparr>y_world := w', y_pending := xs @ ys\<rparr>)"
| sys_commit_failed: "y_pending y = xs @ (f, t) # ys \<Longrightarrow>
    commit_file canon f key (present y) = (Inl e, w') \<Longrightarrow>
    sys_step L canon c D delta y
      (y\<lparr>y_world := drop_object (model canon) (f_StorageKey f) w', y_pending := xs @ ys\<rparr>)"
| sys_abandoned: "y_pending y = xs @ p # ys \<Longrightarrow>
    sys_step L canon c D delta y (y\<lparr>y_pending := xs @ ys\<rparr>)"
| sys_delete: "Service_Delete L (model canon) i (present y) = (r, w') \<Longrightarrow>
    sys_step L canon c D delta y (y\<lparr>y_world := w'\<rparr>)"
| sys_update: "Service_UpdateMetadata L (model canon) i tags mrg (present y) = (r', w') \<Longrightarrow>
    sys_step L canon c D delta y (y\<lparr>y_world := w'\<rparr>)"
| sys_claim: "on_repo (r_ClaimIdempotencyKey (pg_repo canon) key) (present y) = (x1, w') \<Longrightarrow>
    sys_step L canon c D delta y (y\<lparr>y_world := w'\<rparr>)"
| sys_release: "on_repo (r_ReleaseIdempotencyKey (pg_repo canon) key) (present y) = (x2, w') \<Longrightarrow>
    sys_step L canon c D delta y (y\<lparr>y_world := w'\<rparr>)"
| sys_expire: "on_repo (r_PurgeIdempotencyKeys (co_repo c) before) (present y) = (x3, w') \<Longrightarrow>
    sys_step L canon c D delta y (y\<lparr>y_world := w'\<rparr>)"
| sys_purge: "purgeDeleted c ctx st (present y) = (e', n, st', w') \<Longrightarrow>
    sys_step L canon c D delta y (y\<lparr>y_world := w'\<rparr>)"
| sys_keys: "on_repo (r_StorageKeys (co_repo c)) (present y) = (Inr keys, w') \<Longrightarrow>
    sys_step L canon c D delta y (y\<lparr>y_world := w', y_scan := Keyed keys (y_now y)\<rparr>)"
| sys_cutoff: "y_scan y = Keyed keys t \<Longrightarrow> y_now y - t \<le> delta \<Longrightarrow>
    sys_step L canon c D delta y
      (y\<lparr>y_scan := Visiting keys (time_before (y_now y) (co_grace c)) (snapshot (w_store (y_world y)))\<rparr>)"
| sys_visit: "y_scan y = Visiting keys t (ob # obs) \<Longrightarrow>
    visit c keys t ob (st, w_store (y_world y)) = (x, st', s) \<Longrightarrow>
    sys_step L canon c D delta y
      (y\<lparr>y_world := (y_world y)\<lparr>w_store := s\<rparr>, y_scan := Visiting keys t obs\<rparr>)"
| sys_scan_over: "sys_step L canon c D delta y (y\<lparr>y_scan := Idle\<rparr>)"
| sys_clock: "y_now y \<le> t \<Longrightarrow> sys_step L canon c D delta y (y\<lparr>y_now := t\<rparr>)"

definition sys_start :: "(nat \<Rightarrow> string res) \<Rightarrow> int \<Rightarrow> fault list \<Rightarrow> sys" where
  "sys_start u now faults =
     \<lparr>y_world = start u now faults, y_now = now, y_pending = [], y_scan = Idle\<rparr>"

section \<open>The invariant\<close>

abbreviation r_map :: "(memstore, db) world \<Rightarrow> string \<rightharpoonup> File" where
  "r_map w \<equiv> pg_rows (w_repo w)"

abbreviation o_map :: "(memstore, db) world \<Rightarrow> string \<rightharpoonup> object" where
  "o_map w \<equiv> m_map (w_store w)"

abbreviation row_keys :: "(memstore, db) world \<Rightarrow> string set" where
  "row_keys w \<equiv> f_StorageKey ` ran (r_map w)"

lemma row_keysI: "r_map w c = Some f \<Longrightarrow> f_StorageKey f \<in> row_keys w"
  by (intro imageI ranI)

text \<open>The keys that have been drawn.\<close>

definition drawn_keys :: "(memstore, db) world \<Rightarrow> string set" where
  "drawn_keys w = {k. \<exists>n<w_next w. w_uuids w n = Inr k}"

text \<open>Live rows whose key the sweep does not know have an object it will not take.\<close>

definition spared :: "string set \<Rightarrow> (int \<Rightarrow> bool) \<Rightarrow> (memstore, db) world \<Rightarrow> bool" where
  "spared keys P w \<longleftrightarrow>
     (\<forall>c f. r_map w c = Some f \<and> live f \<and> f_StorageKey f \<notin> keys \<longrightarrow>
       (\<exists>ob. o_map w (f_StorageKey f) = Some ob \<and> P (o_mtime ob)))"

fun scan_ok :: "int64 \<Rightarrow> int \<Rightarrow> int \<Rightarrow> (memstore, db) world \<Rightarrow> scan_phase \<Rightarrow> bool" where
  "scan_ok gr D now w Idle = True"
| "scan_ok gr D now w (Keyed keys t) \<longleftrightarrow> t \<le> now \<and> spared keys (\<lambda>m. t - D \<le> m) w"
| "scan_ok gr D now w (Visiting keys t obs) \<longleftrightarrow>
     t + sint gr \<le> now \<and> spared keys (\<lambda>m. t < m) w \<and>
     (\<forall>ob\<in>set obs. so_key ob \<in> drawn_keys w \<and>
       (\<forall>x. o_map w (so_key ob) = Some x \<longrightarrow> so_mtime ob = o_mtime x))"

definition pending_ok :: "libs \<Rightarrow> int \<Rightarrow> int \<Rightarrow> (memstore, db) world \<Rightarrow> File \<times> int \<Rightarrow> bool" where
  "pending_ok L D now w p \<longleftrightarrow>
     (case p of (f, t) \<Rightarrow>
        f_StorageKey f \<in> drawn_keys w \<and> f_StorageKey f \<notin> row_keys w \<and> t \<le> now \<and>
        (D < now - t \<or> (\<exists>ob. o_map w (f_StorageKey f) = Some ob \<and> matches L f ob \<and> o_mtime ob = t)))"

definition sys_ok :: "libs \<Rightarrow> int64 \<Rightarrow> int \<Rightarrow> sys \<Rightarrow> bool" where
  "sys_ok L gr D y \<longleftrightarrow>
     (let w = y_world y
      in fs.good w \<and> distinct_supply (w_uuids w) \<and> row_keys w \<subseteq> drawn_keys w \<and>
        dom (o_map w) \<subseteq> drawn_keys w \<and> backed L (o_map w) (r_map w) \<and>
        distinct (map (f_StorageKey \<circ> fst) (y_pending y)) \<and>
        (\<forall>p\<in>set (y_pending y). pending_ok L D (y_now y) w p) \<and>
        scan_ok gr D (y_now y) w (y_scan y))"

section \<open>Steps that only take away\<close>

lemma set_clock_sel [simp]:
  "r_map (set_clock t w) = r_map w" "o_map (set_clock t w) = o_map w" "w_uuids (set_clock t w) = w_uuids w"
  "w_next (set_clock t w) = w_next w" "fs.good (set_clock t w) = fs.good w" "m_now (w_store (set_clock t w)) = t"
  "pg_claims (w_repo (set_clock t w)) = pg_claims (w_repo w)"
  by (simp_all add: set_clock_def pg_rows_def fun_eq_iff fs.good_def m_sane_def pg_good_def tables_ok_def
      acked_def pg_claims_def)

text \<open>
  No row and no object is new, live rows and their objects are as they were but for tags; the
  objects of \<open>K\<close> stay.
\<close>

definition mild :: "string set \<Rightarrow> (memstore, db) world \<Rightarrow> (memstore, db) world \<Rightarrow> bool" where
  "mild K w w' \<longleftrightarrow>
     fs.good w' \<and> same_supply w w' \<and> row_keys w' \<subseteq> row_keys w \<and> o_map w' \<subseteq>\<^sub>m o_map w \<and>
     (\<forall>c f. r_map w' c = Some f \<and> live f \<longrightarrow>
       (\<exists>b g. r_map w b = Some g \<and> live g \<and> f_StorageKey g = f_StorageKey f \<and>
         f_SizeBytes g = f_SizeBytes f \<and> f_Checksum g = f_Checksum f \<and>
         o_map w' (f_StorageKey f) = o_map w (f_StorageKey f))) \<and>
     (\<forall>k\<in>K. o_map w' k = o_map w k)"

lemma mildI:
  assumes "fs.good w'" and "same_supply w w'" and "row_keys w' \<subseteq> row_keys w" and "o_map w' \<subseteq>\<^sub>m o_map w"
    and "\<And>c f. r_map w' c = Some f \<Longrightarrow> live f \<Longrightarrow>
      \<exists>b g. r_map w b = Some g \<and> live g \<and> f_StorageKey g = f_StorageKey f \<and>
        f_SizeBytes g = f_SizeBytes f \<and> f_Checksum g = f_Checksum f \<and>
        o_map w' (f_StorageKey f) = o_map w (f_StorageKey f)"
    and "\<And>k. k \<in> K \<Longrightarrow> o_map w' k = o_map w k"
  shows "mild K w w'"
  unfolding mild_def
proof (intro conjI allI impI ballI)
  fix c f assume "r_map w' c = Some f \<and> live f"
  then show "\<exists>b g. r_map w b = Some g \<and> live g \<and> f_StorageKey g = f_StorageKey f \<and>
      f_SizeBytes g = f_SizeBytes f \<and> f_Checksum g = f_Checksum f \<and>
      o_map w' (f_StorageKey f) = o_map w (f_StorageKey f)"
    using assms(5) [of c f] by simp
qed (use assms(1-4,6) in simp_all)

lemma drawn_keys_mono: "same_supply w w' \<Longrightarrow> drawn_keys w \<subseteq> drawn_keys w'"
  by (force simp: same_supply_def drawn_keys_def)

lemma map_le_Some: "m \<subseteq>\<^sub>m m' \<Longrightarrow> m k = Some x \<Longrightarrow> m' k = Some x"
  by (auto simp: map_le_def dom_def)

lemma mild_spared: "mild K w w' \<Longrightarrow> spared keys P w \<Longrightarrow> spared keys P w'"
  unfolding spared_def mild_def by metis

lemma mild_scan: "mild K w w' \<Longrightarrow> scan_ok gr D now w ph \<Longrightarrow> scan_ok gr D now w' ph"
proof (induction ph)
  case (Visiting keys t obs)
  have "drawn_keys w \<subseteq> drawn_keys w'" "o_map w' \<subseteq>\<^sub>m o_map w"
    using Visiting(1) by (simp_all add: mild_def drawn_keys_mono)
  then show ?case
    using Visiting(2) mild_spared [OF Visiting(1)] by (auto dest: map_le_Some)
qed (auto intro: mild_spared)

lemma mild_ok:
  assumes ok: "sys_ok L gr D y" and m: "mild K (y_world y) w'" and pend: "set ps \<subseteq> set (y_pending y)"
    "distinct (map (f_StorageKey \<circ> fst) ps)"
    and kept: "\<And>f t. (f, t) \<in> set ps \<Longrightarrow> f_StorageKey f \<in> K \<or> D < y_now y - t"
  shows "sys_ok L gr D (y\<lparr>y_world := w', y_pending := ps\<rparr>)"
proof -
  let ?w = "y_world y"
  have sup: "same_supply ?w w'" and drawn: "drawn_keys ?w \<subseteq> drawn_keys w'" and good: "fs.good w'"
    and rows: "row_keys w' \<subseteq> row_keys ?w" and objs: "dom (o_map w') \<subseteq> dom (o_map ?w)"
    using m by (simp_all add: mild_def drawn_keys_mono map_le_implies_dom_le)
  have backed: "backed L (o_map w') (r_map w')"
    unfolding backed_def
  proof (intro allI impI)
    fix c f assume "r_map w' c = Some f \<and> live f"
    then obtain b g where g: "r_map ?w b = Some g" "live g" "f_StorageKey g = f_StorageKey f"
      "f_SizeBytes g = f_SizeBytes f" "f_Checksum g = f_Checksum f"
      "o_map w' (f_StorageKey f) = o_map ?w (f_StorageKey f)"
      using m unfolding mild_def by metis
    then show "\<exists>ob. o_map w' (f_StorageKey f) = Some ob \<and> matches L f ob"
      using ok by (fastforce simp: sys_ok_def Let_def backed_def matches_def)
  qed
  have "pending_ok L D (y_now y) w' (f, t)" if p: "(f, t) \<in> set ps" for f t
  proof -
    have "pending_ok L D (y_now y) ?w (f, t)"
      using ok p pend(1) by (auto simp: sys_ok_def Let_def)
    moreover have "o_map w' (f_StorageKey f) = o_map ?w (f_StorageKey f) \<or> D < y_now y - t"
      using kept [OF p] m by (auto simp: mild_def)
    ultimately show ?thesis
      using drawn rows by (auto simp: pending_ok_def)
  qed
  then have pending: "\<forall>p\<in>set ps. pending_ok L D (y_now y) w' p"
    by (simp add: split_paired_all)
  have old: "row_keys ?w \<subseteq> drawn_keys ?w" "dom (o_map ?w) \<subseteq> drawn_keys ?w" "distinct_supply (w_uuids ?w)"
    "scan_ok gr D (y_now y) ?w (y_scan y)"
    using ok by (simp_all add: sys_ok_def Let_def)
  have "row_keys w' \<subseteq> drawn_keys w'" "dom (o_map w') \<subseteq> drawn_keys w'"
    by (rule subset_trans [OF subset_trans [OF rows old(1)] drawn],
        rule subset_trans [OF subset_trans [OF objs old(2)] drawn])
  moreover have "distinct_supply (w_uuids w')"
    using old(3) sup by (simp add: same_supply_def)
  ultimately show ?thesis
    using good backed pend(2) pending mild_scan [OF m old(4)] by (simp add: sys_ok_def Let_def)
qed

text \<open>Nothing about the rows and objects changes.\<close>

lemma mild_same:
  "r_map w' = r_map w \<Longrightarrow> o_map w' = o_map w \<Longrightarrow> fs.good w' \<Longrightarrow> same_supply w w' \<Longrightarrow> mild K w w'"
  unfolding mild_def by auto

text \<open>A row changes its tags, or dies.\<close>

lemma mild_row:
  assumes "r_map w c = Some f" and "r_map w' = (r_map w)(c \<mapsto> g)" and "o_map w' = o_map w" and "fs.good w'"
    and "same_supply w w'" and "f_StorageKey g = f_StorageKey f" and "live f"
    and "f_SizeBytes g = f_SizeBytes f" and "f_Checksum g = f_Checksum f"
  shows "mild K w w'"
proof -
  have "row_keys w' \<subseteq> row_keys w"
    using assms(1,2,6) ran_upd_subset [of "r_map w" c g] by (force intro: ranI)
  moreover have "\<exists>b h. r_map w b = Some h \<and> live h \<and> f_StorageKey h = f_StorageKey e \<and>
      f_SizeBytes h = f_SizeBytes e \<and> f_Checksum h = f_Checksum e" if "r_map w' a = Some e" "live e" for a e
    using that assms by (cases "a = c") auto
  ultimately show ?thesis
    using assms(3-5) by (auto simp: mild_def)
qed

section \<open>Every step keeps the invariant\<close>

lemma sys_okD:
  assumes "sys_ok L gr D y"
  shows "fs.good (y_world y)" "distinct_supply (w_uuids (y_world y))"
    "row_keys (y_world y) \<subseteq> drawn_keys (y_world y)" "dom (o_map (y_world y)) \<subseteq> drawn_keys (y_world y)"
    "backed L (o_map (y_world y)) (r_map (y_world y))"
    "distinct (map (f_StorageKey \<circ> fst) (y_pending y))"
    "\<And>f t. (f, t) \<in> set (y_pending y) \<Longrightarrow> pending_ok L D (y_now y) (y_world y) (f, t)"
    "scan_ok gr D (y_now y) (y_world y) (y_scan y)"
  using assms by (auto simp: sys_ok_def Let_def)

lemma present_sel [simp]:
  "r_map (present y) = r_map (y_world y)" "o_map (present y) = o_map (y_world y)"
  "w_uuids (present y) = w_uuids (y_world y)" "w_next (present y) = w_next (y_world y)"
  "fs.good (present y) = fs.good (y_world y)" "m_now (w_store (present y)) = y_now y"
  "same_supply (present y) w = same_supply (y_world y) w"
  by (simp_all add: present_def same_supply_def)

lemma mild_present [simp]: "mild K (present y) w' = mild K (y_world y) w'"
  by (simp add: mild_def)

lemma mild_step:
  assumes "sys_ok L gr D y" and "mild UNIV (y_world y) w'"
  shows "sys_ok L gr D (y\<lparr>y_world := w'\<rparr>)"
  using mild_ok [OF assms, of "y_pending y"] sys_okD(6) [OF assms(1)] by simp

text \<open>A new upload: its key is fresh, and its object dates from now.\<close>

lemma stage_mtime:
  assumes "stage L (model canon) inp w = (Inr f, b, w')"
  shows "map_option o_mtime (o_map w' (f_StorageKey f)) = Some (m_now (w_store w))"
proof -
  have "map_option o_mtime (m_map s' k) = Some (m_now s)"
    if "mem_Put upload_ReadAll k src sz ct s = (Inr u, src', s')" for k src sz ct s u src' s'
    using that by (auto simp: mem_Put_def update_conv' split: prod.splits option.splits)
  moreover have "w_store v' = s" if "resolve_size (model canon) n k (v\<lparr>w_store := s\<rparr>) = (Inr m, v')" for n k v s m v'
    using that by (auto simp: resolve_size_def on_store_def mem_Stat_def split: if_splits sum.splits prod.splits option.splits)
  ultimately show ?thesis
    using assms by (auto simp: stage_def newID_def split: sum.splits prod.splits)
qed

lemma scan_fresh:
  assumes "scan_ok gr D now w ph" and "r_map w' = r_map w" and "o_map w' = (o_map w)(k \<mapsto> ob)"
    and "k \<notin> drawn_keys w" and "row_keys w \<subseteq> drawn_keys w" and "drawn_keys w \<subseteq> drawn_keys w'"
  shows "scan_ok gr D now w' ph"
proof -
  have "f_StorageKey f \<noteq> k" if "r_map w c = Some f" for c f
    using that assms(4,5) by (auto intro: ranI)
  then have "spared keys P w \<Longrightarrow> spared keys P w'" for keys P
    unfolding spared_def assms(2,3) by (metis fun_upd_other)
  then show ?thesis
    using assms(1,3,4,6) by (cases ph) auto
qed

lemma staged_ok:
  assumes ok: "sys_ok L gr D y" and "honest_input inp" and st: "stage L (model canon) inp (present y) = (Inr f, b, w')"
  shows "sys_ok L gr D (y\<lparr>y_world := w', y_pending := (f, y_now y) # y_pending y\<rparr>)"
proof -
  let ?w = "y_world y" and ?k = "f_StorageKey f"
  note o = sys_okD [OF ok]
  have s: "fs.staged L inp (present y) f w'"
    by (rule fs.stage_ok [OF st _ assms(2)]) (simp add: o(1))
  then obtain ob where ob: "o_map w' = (o_map ?w)(?k \<mapsto> ob)" "matches L f ob"
    by (auto simp: fs.staged_def)
  have mtime: "o_mtime ob = y_now y"
    using stage_mtime [OF st] ob(1) by simp
  have w': "w_repo w' = w_repo (present y)" "r_map w' = r_map ?w" "fs.good w'" "w_uuids w' = w_uuids ?w"
    "w_next w' = Suc (Suc (w_next ?w))" "w_uuids ?w (Suc (w_next ?w)) = Inr ?k"
    using s by (auto simp: fs.staged_def)
  have fresh: "?k \<notin> drawn_keys ?w"
    using o(2) w'(6) unfolding distinct_supply_def drawn_keys_def by fastforce
  have drawn: "insert ?k (drawn_keys ?w) \<subseteq> drawn_keys w'"
    using w'(4-6) by (auto simp: drawn_keys_def intro: less_SucI)
  have old: "f_StorageKey g \<noteq> ?k \<and> pending_ok L D (y_now y) w' (g, t)" if "(g, t) \<in> set (y_pending y)" for g t
    using o(7) [OF that] fresh drawn w'(2) ob(1) by (auto simp: pending_ok_def)
  have new: "pending_ok L D (y_now y) w' (f, y_now y)"
  proof -
    have "?k \<notin> row_keys w'" "?k \<in> drawn_keys w'"
      using fresh o(3) drawn unfolding w'(2) by blast+
    then show ?thesis
      using ob mtime by (simp add: pending_ok_def)
  qed
  have ne: "\<forall>g\<in>ran (r_map ?w). f_StorageKey g \<noteq> ?k"
    using fresh subsetD [OF o(3) imageI [where f = f_StorageKey]] by metis
  have "backed L (o_map w') (r_map w')"
    unfolding w'(2) by (rule backed_other [OF o(5) _ ne]) (simp add: ob(1))
  moreover have "row_keys w' \<subseteq> drawn_keys w'"
    using o(3) drawn unfolding w'(2) by blast
  moreover have "dom (o_map w') \<subseteq> drawn_keys w'"
    using o(4) drawn by (simp add: ob(1)) blast
  moreover have "distinct (map (f_StorageKey \<circ> fst) ((f, y_now y) # y_pending y))"
    using o(6) old by fastforce
  moreover have "scan_ok gr D (y_now y) w' (y_scan y)"
    using scan_fresh [OF o(8) w'(2) ob(1) fresh o(3)] drawn by blast
  moreover have "\<forall>p\<in>set ((f, y_now y) # y_pending y). pending_ok L D (y_now y) w' p"
    using new old by (simp add: split_paired_all)
  ultimately show ?thesis
    using o(2) w'(3,4) by (simp add: sys_ok_def Let_def)
qed

text \<open>What committing does to rows and objects.\<close>

lemma commit_file_facts:
  assumes "commit_file canon f key w = (x, w')" and "fs.good w"
  shows "fs.good w' \<and> o_map w' = o_map w \<and> w_uuids w' = w_uuids w \<and> w_next w' = w_next w \<and>
    (case x of
       Inl e \<Rightarrow> r_map w' = r_map w
     | Inr g \<Rightarrow> \<exists>c. added (r_map w) c f g (r_map w'))"
proof -
  have dg: "pg_good (w_repo w)"
    using assms(2) by (simp add: fs.good_def)
  define op where "op = (case key of None \<Rightarrow> r_Create (pg_repo canon) f
      | Some k \<Rightarrow> r_CreateForKey (pg_repo canon) f k)"
  have "on_repo op w = (x, w')"
    using assms(1) by (simp add: commit_file_def op_def split: option.splits)
  then obtain d where d: "op (w_repo w) = (x, d)" "w' = w\<lparr>w_repo := d\<rparr>"
    by (rule fs.on_repoE)
  have "pg_good d \<and> (case x of Inl e \<Rightarrow> pg_rows d = r_map w | Inr g \<Rightarrow> \<exists>c. added (r_map w) c f g (pg_rows d))"
  proof (cases key)
    case None
    then have "r_Create (pg_repo canon) f (w_repo w) = (x, d)"
      using d(1) by (simp add: op_def)
    then show ?thesis
      using pg.Create_ok [OF dg, of canon f _ d] pg.Create_error [OF dg, of canon f _ d] by (cases x) auto
  next
    case (Some k)
    then have "r_CreateForKey (pg_repo canon) f k (w_repo w) = (x, d)"
      using d(1) by (simp add: op_def)
    then show ?thesis
      using pg.CreateForKey_ok [OF dg, of canon f k _ d] pg.CreateForKey_error [OF dg, of canon f k _ d]
      by (cases x) auto
  qed
  then show ?thesis
    using assms(2) d(2) by (cases x) (simp_all add: fs.good_def)
qed

lemma pending_others:
  assumes "distinct (map (f_StorageKey \<circ> fst) (xs @ (f, t) # ys))" and "(g, u) \<in> set (xs @ ys)"
  shows "f_StorageKey g \<noteq> f_StorageKey f"
  using assms by (auto simp: image_iff)

lemma committed_ok:
  assumes ok: "sys_ok L gr D y" and p: "y_pending y = xs @ (f, t) # ys" and late: "y_now y - t \<le> D"
    and D: "D < sint gr" and c: "commit_file canon f key (present y) = (Inr g, w')"
  shows "sys_ok L gr D (y\<lparr>y_world := w', y_pending := xs @ ys\<rparr>)"
proof -
  let ?w = "y_world y" and ?k = "f_StorageKey f"
  note o = sys_okD [OF ok]
  obtain a where w': "fs.good w'" "o_map w' = o_map ?w" "w_uuids w' = w_uuids ?w" "w_next w' = w_next ?w"
    "filled_in f g" "r_map w' = (r_map ?w)(a \<mapsto> g\<lparr>f_ID := a, f_DeletedAt := None\<rparr>)"
    using commit_file_facts [OF c] o(1) by (auto simp: added_def)
  let ?g = "g\<lparr>f_ID := a, f_DeletedAt := None\<rparr>"
  have g: "f_StorageKey ?g = ?k" "matches L ?g ob \<longleftrightarrow> matches L f ob" for ob
    using w'(5) by (auto simp: filled_in_def matches_def)
  have drawn: "drawn_keys w' = drawn_keys ?w"
    using w'(3,4) by (simp add: drawn_keys_def)
  obtain ob where ob: "o_map ?w ?k = Some ob" "matches L f ob" "o_mtime ob = t" "?k \<in> drawn_keys ?w" "t \<le> y_now y"
    using o(7) [of f t] p late by (auto simp: pending_ok_def)
  have rows: "row_keys w' \<subseteq> insert ?k (row_keys ?w)"
    using ran_upd_subset [of "r_map ?w" a ?g] g(1) unfolding w'(6) by blast
  have "backed L (o_map w') (r_map w')"
    unfolding backed_def
  proof (intro allI impI)
    fix b h assume h: "r_map w' b = Some h \<and> live h"
    show "\<exists>ob. o_map w' (f_StorageKey h) = Some ob \<and> matches L h ob"
    proof (cases "b = a")
      case True
      then have "h = ?g"
        using h by (simp add: w'(6))
      then show ?thesis
        using ob(1,2) g by (simp add: w'(2))
    next
      case False
      then have "r_map ?w b = Some h \<and> live h"
        using h by (simp add: w'(6))
      then show ?thesis
        using o(5) [unfolded backed_def, rule_format, of b h] by (simp add: w'(2))
    qed
  qed
  moreover have "row_keys w' \<subseteq> drawn_keys w'"
    unfolding drawn by (rule subset_trans [OF rows]) (simp add: ob(4) o(3))
  moreover have "\<forall>p\<in>set (xs @ ys). pending_ok L D (y_now y) w' p"
  proof (intro ballI, clarify)
    fix h u assume m: "(h, u) \<in> set (xs @ ys)"
    then have "f_StorageKey h \<noteq> ?k"
      by (rule pending_others [OF o(6) [unfolded p]])
    moreover have h: "pending_ok L D (y_now y) ?w (h, u)"
      by (rule o(7)) (use m p in auto)
    moreover have "f_StorageKey h \<notin> row_keys ?w"
      using h by (simp add: pending_ok_def)
    ultimately have "f_StorageKey h \<notin> row_keys w'"
      using subsetD [OF rows] by (metis insertE)
    with h show "pending_ok L D (y_now y) w' (h, u)"
      by (simp add: pending_ok_def w'(2) drawn)
  qed
  moreover have "scan_ok gr D (y_now y) w' (y_scan y)"
  proof -
    have sp: "spared keys P w'" if "spared keys P ?w" "P t" for keys P
      using that ob(1,3) g(1) unfolding spared_def w'(2,6) by auto
    show ?thesis
    proof (cases "y_scan y")
      case (Keyed keys s)
      then show ?thesis
        using o(8) sp late by auto
    next
      case (Visiting keys s obs)
      then show ?thesis
        using o(8) sp late D w'(2) drawn by auto
    qed simp
  qed
  ultimately show ?thesis
    using o(2,4,6) w'(1-3) p drawn by (simp add: sys_ok_def Let_def)
qed

lemma commit_failed_ok:
  assumes ok: "sys_ok L gr D y" and p: "y_pending y = xs @ (f, t) # ys"
    and c: "commit_file canon f key (present y) = (Inl e, w')"
  shows "sys_ok L gr D (y\<lparr>y_world := drop_object (model canon) (f_StorageKey f) w', y_pending := xs @ ys\<rparr>)"
proof -
  let ?w = "y_world y" and ?k = "f_StorageKey f" and ?v = "drop_object (model canon) (f_StorageKey f) w'"
  note o = sys_okD [OF ok]
  have w': "fs.good w'" "o_map w' = o_map ?w" "w_uuids w' = w_uuids ?w" "w_next w' = w_next ?w"
    "r_map w' = r_map ?w"
    using commit_file_facts [OF c] o(1) by auto
  have v: "fs.good ?v" "o_map ?v = (o_map ?w)(?k := None)" "r_map ?v = r_map ?w" "same_supply ?w ?v"
    by (simp_all add: drop_object_model same_supply_def fs.drop_object_facts [OF w'(1)] w')
  have "?k \<notin> row_keys ?w"
    using o(7) [of f t] p by (simp add: pending_ok_def)
  then have "f_StorageKey h \<noteq> ?k" if "r_map ?w a = Some h" for a h
    using row_keysI [OF that] by metis
  then have "mild (- {?k}) ?w ?v"
    using v(1,4) unfolding mild_def v(2,3) by (auto simp: map_le_def)
  then show ?thesis
    using o(6) p pending_others [of xs f t ys] by (intro mild_ok [OF ok]) auto
qed

text \<open>The moments of the sweep.\<close>

lemma scan_ok_step:
  "sys_ok L gr D y \<Longrightarrow> scan_ok gr D (y_now y) (y_world y) ph \<Longrightarrow> sys_ok L gr D (y\<lparr>y_scan := ph\<rparr>)"
  by (simp add: sys_ok_def Let_def)

lemma keys_ok:
  assumes ok: "sys_ok L gr D y"
    and k: "on_repo (r_StorageKeys (pg_repo canon)) (present y) = (Inr keys, w')"
  shows "sys_ok L gr D (y\<lparr>y_world := w', y_scan := Keyed keys (y_now y)\<rparr>)"
proof -
  obtain d where d: "r_StorageKeys (pg_repo canon) (w_repo (present y)) = (Inr keys, d)"
    "w' = (present y)\<lparr>w_repo := d\<rparr>"
    using k by (auto elim: fs.on_repoE)
  have g2: "fs.good (present y)"
    using sys_okD(1) [OF ok] by simp
  then have g: "pg_good (w_repo (present y))" "m_sane (w_store (present y))"
    unfolding fs.good_def by simp_all
  note frame = pg_gc.StorageKeys_frame [OF g(1) d(1)]
  have keys: "keys = row_keys (y_world y)"
    using pg_gc.StorageKeys_ok [OF g(1) d(1)] by simp
  have "mild UNIV (present y) w'"
    by (rule mild_same) (use frame g in \<open>simp_all add: d(2) fs.good_def same_supply_def\<close>)
  then have "sys_ok L gr D (y\<lparr>y_world := w'\<rparr>)"
    using mild_step [OF ok] by simp
  moreover have "spared keys P w'" for P
    using frame row_keysI [of "y_world y"] by (auto simp: spared_def keys d(2))
  ultimately show ?thesis
    using scan_ok_step [of L gr D "y\<lparr>y_world := w'\<rparr>" "Keyed keys (y_now y)"] by simp
qed

lemma cutoff_ok:
  assumes ok: "sys_ok L gr D y" and ph: "y_scan y = Keyed keys t" and soon: "y_now y - t \<le> delta"
    and gr: "D + delta < sint gr" "0 \<le> sint gr"
  shows "sys_ok L gr D
    (y\<lparr>y_scan := Visiting keys (time_before (y_now y) gr) (snapshot (w_store (y_world y)))\<rparr>)"
proof (rule scan_ok_step [OF ok])
  let ?w = "y_world y"
  have cut: "time_before (y_now y) gr = y_now y - sint gr"
    using gr(2) by (simp add: time_before_def sint64_neg)
  have "spared keys (\<lambda>m. t - D \<le> m) ?w"
    using sys_okD(8) [OF ok] ph by simp
  moreover have "y_now y - sint gr < m" if "t - D \<le> m" for m
    using that soon gr(1) by simp
  ultimately have "spared keys (\<lambda>m. y_now y - sint gr < m) ?w"
    unfolding spared_def by metis
  moreover have "so_key ob \<in> drawn_keys ?w \<and> (\<forall>x. o_map ?w (so_key ob) = Some x \<longrightarrow> so_mtime ob = o_mtime x)"
    if ob: "ob \<in> set (snapshot (w_store ?w))" for ob
  proof -
    have "lists_objects (o_map ?w) (snapshot (w_store ?w))"
      using snapshot_lists sys_okD(1) [OF ok] by (simp add: fs.good_def)
    then obtain x where "o_map ?w (so_key ob) = Some x" "so_mtime ob = o_mtime x"
      using ob unfolding lists_objects_def by metis
    then show ?thesis
      using sys_okD(4) [OF ok] by auto
  qed
  ultimately show "scan_ok gr D (y_now y) ?w (Visiting keys (time_before (y_now y) gr) (snapshot (w_store ?w)))"
    by (simp add: cut)
qed

lemma visit_cases:
  assumes "visit (gc_model canon iv gr ttl) keys t ob (st, s) = (x, st', s')"
  shows "s' = s \<or> (so_key ob \<notin> keys \<and> so_mtime ob \<le> t \<and> snd (mem_Delete (so_key ob) s) = s')"
  using assms by (auto simp: visit_def mem_Delete_def split: if_splits)

lemma visit_ok:
  assumes ok: "sys_ok L gr D y" and ph: "y_scan y = Visiting keys t (ob # obs)" and gr: "D < sint gr"
    and v: "visit (gc_model canon iv gr ttl) keys t ob (st, w_store (y_world y)) = (x, st', s)"
  shows "sys_ok L gr D (y\<lparr>y_world := (y_world y)\<lparr>w_store := s\<rparr>, y_scan := Visiting keys t obs\<rparr>)"
proof -
  let ?w = "y_world y" and ?v = "(y_world y)\<lparr>w_store := s\<rparr>" and ?k = "so_key ob"
  note o = sys_okD [OF ok]
  have scan: "t + sint gr \<le> y_now y" "spared keys (\<lambda>m. t < m) ?w"
    "\<And>z. o_map ?w ?k = Some z \<Longrightarrow> so_mtime ob = o_mtime z"
    using o(8) ph by simp_all
  let ?K = "{k. \<forall>z. o_map ?w k = Some z \<longrightarrow> t < o_mtime z}"
  have m: "mild ?K ?w ?v"
  proof (cases "s = w_store ?w")
    case True
    then show ?thesis
      using o(1) by (intro mild_same) (simp_all add: same_supply_def)
  next
    case False
    then have gone: "?k \<notin> keys" "so_mtime ob \<le> t" "snd (mem_Delete ?k (w_store ?w)) = s"
      using visit_cases [OF v] by simp_all
    have "m_sane s"
      using o(1) gone(3) m_sane_delete by (auto simp: mem_Delete_def fs.good_def)
    then have good: "fs.good ?v"
      using o(1) by (simp add: fs.good_def)
    have objs: "m_map s = (o_map ?w)(?k := None)"
      using gone(3) by (auto simp: mem_Delete_def delete_conv')
    have ne: "f_StorageKey f \<noteq> ?k" if f: "r_map ?w c = Some f" "live f" for c f
    proof
      assume eq: "f_StorageKey f = ?k"
      then obtain z where "o_map ?w ?k = Some z" "t < o_mtime z"
        using scan(2) f gone(1) unfolding spared_def by metis
      then show False
        using scan(3) gone(2) by simp
    qed
    have "\<exists>b g. r_map ?w b = Some g \<and> live g \<and> f_StorageKey g = f_StorageKey f \<and>
        f_SizeBytes g = f_SizeBytes f \<and> f_Checksum g = f_Checksum f \<and>
        o_map ?v (f_StorageKey f) = o_map ?w (f_StorageKey f)" if "r_map ?v c = Some f" "live f" for c f
      using that ne [of c f] objs by (intro exI [of _ c] exI [of _ f]) simp
    moreover have "o_map ?v k = o_map ?w k" if "k \<in> ?K" for k
      using that scan(3) gone(2) objs by (cases "o_map ?w ?k") auto
    ultimately show ?thesis
      by (intro mildI) (simp_all add: good objs same_supply_def map_le_def)
  qed
  have "sys_ok L gr D (y\<lparr>y_world := ?v, y_pending := y_pending y\<rparr>)"
  proof (rule mild_ok [OF ok m])
    fix f u assume "(f, u) \<in> set (y_pending y)"
    then show "f_StorageKey f \<in> ?K \<or> D < y_now y - u"
      using o(7) [of f u] scan(1) gr by (auto simp: pending_ok_def)
  qed (simp_all add: o(6))
  then have "sys_ok L gr D (y\<lparr>y_world := ?v\<rparr>)"
    by simp
  moreover have "scan_ok gr D (y_now y) ?v (Visiting keys t obs)"
    using mild_scan [OF m o(8)] ph by simp
  ultimately show ?thesis
    using scan_ok_step [of L gr D "y\<lparr>y_world := ?v\<rparr>" "Visiting keys t obs"] by simp
qed

text \<open>The remaining steps only take away, or let time pass.\<close>

lemma purge_ok:
  assumes ok: "sys_ok L gr D y"
    and p: "purgeDeleted (gc_model canon iv gr ttl) ctx st (present y) = (e, n, st', w')"
  shows "sys_ok L gr D (y\<lparr>y_world := w'\<rparr>)"
proof -
  let ?w = "present y"
  have good: "fs.good ?w"
    using sys_okD(1) [OF ok] by simp
  have sh: "sweep.shrunk (sweep.dead_keys ?w) ?w w'"
    by (rule sweep.purgeDeleted_shrunk [OF p good])
  have rows: "r_map ?w c = Some f" if "r_map w' c = Some f" for c f
    using sh that unfolding sweep.shrunk_def by (metis option.distinct(1))
  have objs: "o_map w' k = o_map ?w k \<or> (k \<in> sweep.dead_keys ?w \<and> o_map w' k = None)" for k
    using sh unfolding sweep.shrunk_def by blast
  have dead: "sweep.dead_keys ?w \<subseteq> row_keys ?w"
    by (auto simp: sweep.dead_keys_def)
  have "mild (- sweep.dead_keys ?w) ?w w'"
  proof (rule mildI)
    show "fs.good w'" "same_supply ?w w'"
      using sh by (simp_all add: sweep.shrunk_def)
    show "row_keys w' \<subseteq> row_keys ?w"
      using rows by (intro image_mono) (auto simp: ran_def)
    show "o_map w' \<subseteq>\<^sub>m o_map ?w"
      using objs unfolding map_le_def by (metis domIff)
    show "o_map w' k = o_map ?w k" if "k \<in> - sweep.dead_keys ?w" for k
      using objs that by blast
    fix c f assume f: "r_map w' c = Some f" "live f"
    have "f_StorageKey f \<notin> sweep.dead_keys ?w \<union> sweep.stale 0 ?w"
      by (rule sweep.live_key_spared [OF good rows [OF f(1)] f(2)])
    then have "o_map w' (f_StorageKey f) = o_map ?w (f_StorageKey f)"
      using objs by blast
    then show "\<exists>b g. r_map ?w b = Some g \<and> live g \<and> f_StorageKey g = f_StorageKey f \<and>
        f_SizeBytes g = f_SizeBytes f \<and> f_Checksum g = f_Checksum f \<and>
        o_map w' (f_StorageKey f) = o_map ?w (f_StorageKey f)"
      using rows [OF f(1)] f(2) by (intro exI [of _ c] exI [of _ f]) simp
  qed
  then have m: "mild (- sweep.dead_keys ?w) (y_world y) w'"
    by simp
  have "sys_ok L gr D (y\<lparr>y_world := w', y_pending := y_pending y\<rparr>)"
  proof (rule mild_ok [OF ok m])
    fix f t assume "(f, t) \<in> set (y_pending y)"
    then have "f_StorageKey f \<notin> row_keys ?w"
      using sys_okD(7) [OF ok] by (simp add: pending_ok_def)
    then have "f_StorageKey f \<notin> sweep.dead_keys ?w"
      using dead by (rule contra_subsetD [rotated])
    then show "f_StorageKey f \<in> - sweep.dead_keys ?w \<or> D < y_now y - t"
      by simp
  qed (simp_all add: sys_okD(6) [OF ok])
  then show ?thesis
    by simp
qed

lemma delete_ok:
  assumes ok: "sys_ok L gr D y" and d: "Service_Delete L (model canon) i (present y) = (r, w')"
  shows "sys_ok L gr D (y\<lparr>y_world := w'\<rparr>)"
proof (rule mild_step [OF ok])
  have good: "fs.good (present y)"
    using sys_okD(1) [OF ok] by simp
  note f = fs.Delete_facts [OF d good]
  have "mild UNIV (present y) w'"
  proof (cases r)
    case (Inl e)
    then show ?thesis
      using f by (intro mild_same) simp_all
  next
    case (Inr u)
    then obtain c g t where "r_map (present y) c = Some g" "live g"
      "r_map w' = (r_map (present y))(c \<mapsto> g\<lparr>f_DeletedAt := Some t\<rparr>)"
      using f by auto
    then show ?thesis
      using f mild_row [of "present y" c g w' "g\<lparr>f_DeletedAt := Some t\<rparr>"] by simp
  qed
  then show "mild UNIV (y_world y) w'"
    by simp
qed

lemma update_ok:
  assumes ok: "sys_ok L gr D y"
    and d: "Service_UpdateMetadata L (model canon) i tags mrg (present y) = (r, w')"
  shows "sys_ok L gr D (y\<lparr>y_world := w'\<rparr>)"
proof (rule mild_step [OF ok])
  have good: "fs.good (present y)"
    using sys_okD(1) [OF ok] by simp
  note f = fs.UpdateMetadata_facts [OF d good]
  have "mild UNIV (present y) w'"
  proof (cases r)
    case (Inl e)
    then show ?thesis
      using f by (intro mild_same) simp_all
  next
    case (Inr g)
    then obtain c h t where "r_map (present y) c = Some h" "live h"
      "g = h\<lparr>f_Metadata := Some (edited_tags h tags mrg), f_UpdatedAt := Some t\<rparr>"
      "r_map w' = (r_map (present y))(c \<mapsto> g)"
      using f by auto
    then show ?thesis
      using f mild_row [of "present y" c h w' g] by simp
  qed
  then show "mild UNIV (y_world y) w'"
    by simp
qed

lemma stage_failed_ok:
  assumes ok: "sys_ok L gr D y" and "honest_input inp"
    and st: "stage L (model canon) inp (present y) = (Inl e, b, w')"
  shows "sys_ok L gr D (y\<lparr>y_world := w'\<rparr>)"
proof (rule mild_step [OF ok])
  have good: "fs.good (present y)"
    using sys_okD(1) [OF ok] by simp
  have "mild UNIV (present y) w'"
    using fs.stage_error [OF st good assms(2)] stage_error_store [OF st]
    by (intro mild_same) simp_all
  then show "mild UNIV (y_world y) w'"
    by simp
qed

lemma abandoned_ok:
  assumes "sys_ok L gr D y" and "y_pending y = xs @ p # ys"
  shows "sys_ok L gr D (y\<lparr>y_pending := xs @ ys\<rparr>)"
  using assms by (auto simp: sys_ok_def Let_def)

lemma clock_ok:
  assumes ok: "sys_ok L gr D y" and "y_now y \<le> t"
  shows "sys_ok L gr D (y\<lparr>y_now := t\<rparr>)"
proof -
  have "pending_ok L D t (y_world y) p" if "pending_ok L D (y_now y) (y_world y) p" for p
    using that assms(2) by (auto simp: pending_ok_def split: prod.splits)
  moreover have "scan_ok gr D t (y_world y) ph" if "scan_ok gr D (y_now y) (y_world y) ph" for ph
    using that assms(2) by (cases ph) auto
  ultimately show ?thesis
    using ok by (simp add: sys_ok_def Let_def)
qed

text \<open>Claiming, releasing and expiring idempotency keys touches no row of a file.\<close>

lemma repo_ok:
  assumes ok: "sys_ok L gr D y" and r: "on_repo f (present y) = (x, w')"
    and frame: "\<And>z d. pg_good (w_repo (present y)) \<Longrightarrow> f (w_repo (present y)) = (z, d) \<Longrightarrow>
      pg_good d \<and> pg_rows d = pg_rows (w_repo (present y))"
  shows "sys_ok L gr D (y\<lparr>y_world := w'\<rparr>)"
proof (rule mild_step [OF ok])
  obtain d where d: "f (w_repo (present y)) = (x, d)" "w' = (present y)\<lparr>w_repo := d\<rparr>"
    using r by (auto elim: fs.on_repoE)
  have "fs.good (present y)"
    using sys_okD(1) [OF ok] by simp
  then have g: "pg_good (w_repo (present y))" "m_sane (w_store (present y))"
    unfolding fs.good_def by simp_all
  have "mild UNIV (present y) w'"
    by (rule mild_same) (use frame [OF g(1) d(1)] g(2) in \<open>simp_all add: d(2) fs.good_def same_supply_def\<close>)
  then show "mild UNIV (y_world y) w'"
    by simp
qed

lemmas step_ok =
  staged_ok stage_failed_ok committed_ok commit_failed_ok abandoned_ok delete_ok update_ok purge_ok
  keys_ok cutoff_ok visit_ok scan_ok_step clock_ok

lemma sys_step_ok:
  assumes "sys_step L canon (gc_model canon iv gr ttl) D delta y y'" and "sys_ok L gr D y"
    and "D + delta < sint gr" and "0 \<le> delta" and "0 \<le> D"
  shows "sys_ok L gr D y'"
  using assms(1)
proof cases
  case (sys_cutoff keys t)
  show ?thesis
    unfolding sys_cutoff(1) sweep.gc_sel
    by (rule cutoff_ok [OF assms(2) sys_cutoff(2,3)]) (use assms(3-5) in simp_all)
next
  case (sys_committed xs f t ys key g w')
  show ?thesis
    unfolding sys_committed(1)
    by (rule committed_ok [OF assms(2) sys_committed(2,3) _ sys_committed(4)]) (use assms(3-5) in simp)
next
  case (sys_visit keys t ob obs st x st' s)
  show ?thesis
    unfolding sys_visit(1)
    by (rule visit_ok [OF assms(2) sys_visit(2) _ sys_visit(3)]) (use assms(3-5) in simp)
next
  case (sys_claim key x1 w')
  show ?thesis
    unfolding sys_claim(1) by (rule repo_ok [OF assms(2) sys_claim(2)]) (simp add: pg_Claim_cases)
next
  case (sys_release key x2 w')
  show ?thesis
    unfolding sys_release(1) by (rule repo_ok [OF assms(2) sys_release(2)]) (simp add: pg_Release_cases)
next
  case (sys_expire before x3 w')
  show ?thesis
    unfolding sys_expire(1)
    by (rule repo_ok [OF assms(2) sys_expire(2)]) (simp add: pg_gc.PurgeKeys_frame)
next
  case (sys_keys keys w')
  then show ?thesis
    using keys_ok [OF assms(2)] by simp
qed (auto intro: step_ok [OF assms(2)])

lemma sys_start_ok:
  "distinct_supply u \<Longrightarrow> \<forall>e. Unacked e \<notin> set faults \<Longrightarrow> sys_ok L gr D (sys_start u now faults)"
  using start_consistent [where u = u and L = L and now = now and faults = faults]
  by (simp add: sys_start_def sys_ok_def Let_def fs.consistent_def start_rows)
    (simp add: start_def mem_New_def)

lemma sys_run_ok:
  assumes "(sys_step L canon (gc_model canon iv gr ttl) D delta)\<^sup>*\<^sup>* y y'" and "sys_ok L gr D y"
    and "D + delta < sint gr" and "0 \<le> delta" and "0 \<le> D"
  shows "sys_ok L gr D y'"
  using assms(1,2)
proof (induction rule: rtranclp_induct)
  case (step z z')
  then show ?case
    using sys_step_ok assms(3-5) by blast
qed

section \<open>A concrete run\<close>

text \<open>The sweep has read the keys, none; then a file is uploaded, at time zero.\<close>

definition uploaded_late :: "sys \<Rightarrow> string \<Rightarrow> File \<Rightarrow> bool" where
  "uploaded_late y c f \<longleftrightarrow>
     fs.good (y_world y) \<and> y_now y = 0 \<and> y_scan y = Keyed {} 0 \<and> r_map (y_world y) c = Some f \<and> live f \<and>
     f_StorageKey f = ''a'' \<and> (\<exists>ob. o_map (y_world y) = [''a'' \<mapsto> ob] \<and> o_mtime ob = 0)"

lemma demo_uploaded_late:
  "\<exists>y c f. (sys_step demo_libs Some (gc_model Some 1 gr 0) 1 delta)\<^sup>*\<^sup>* (sys_start demo_uuids 0 []) y \<and>
    uploaded_late y c f"
proof -
  let ?step = "sys_step demo_libs Some (gc_model Some 1 gr 0) 1 delta" and ?w0 = "start demo_uuids 0 []"
  let ?y1 = "\<lparr>y_world = ?w0, y_now = 0, y_pending = [], y_scan = Keyed {} 0\<rparr>"
  have w0: "set_clock 0 ?w0 = ?w0" "fs.good ?w0" "o_map ?w0 = Map.empty"
    using demo_good(1) by (simp_all add: set_clock_def start_def mem_New_def demo_start_def)
  have "on_repo (r_StorageKeys (pg_repo Some)) ?w0 = (Inr {}, ?w0)"
    by (simp add: on_repo_def pg_StorageKeys_def start_def send_quiet sql_rows_def)
  then have s1: "?step (sys_start demo_uuids 0 []) ?y1"
    using sys_keys [of "gc_model Some 1 gr 0" "sys_start demo_uuids 0 []" "{}" ?w0]
    by (simp add: sys_start_def present_def w0(1))
  obtain f b w1 where st: "stage demo_libs (model Some) demo_input ?w0 = (Inr f, b, w1)"
    "f_ID f = ''''" "f_StorageKey f = ''a''" "w_repo w1 = w_repo ?w0"
    by (rule demo_stage)
  let ?y2 = "\<lparr>y_world = w1, y_now = 0, y_pending = [(f, 0)], y_scan = Keyed {} 0\<rparr>"
  have s2: "?step ?y1 ?y2"
    using sys_staged [OF demo_good(3), of demo_libs Some ?y1 f b w1] st(1) by (simp add: present_def w0(1))
  obtain ob where ob: "o_map w1 = [''a'' \<mapsto> ob]" "fs.good w1"
    using fs.stage_ok [OF st(1) w0(2) demo_good(3)] st(3) w0(3) by (auto simp: fs.staged_def)
  have mtime: "o_mtime ob = 0"
    using stage_mtime [OF st(1)] ob(1) st(3) by (simp add: start_def mem_New_def)
  obtain g d where c: "pg_Create Some f (w_repo (present ?y2)) = (Inr g, d)"
    using pg_Create_quiet [of "w_repo (present ?y2)" Some f "''''"] st(2,4)
    by (auto simp: present_def set_clock_def start_def pg_rows_def)
  let ?w2 = "(present ?y2)\<lparr>w_repo := d\<rparr>"
  let ?y3 = "\<lparr>y_world = ?w2, y_now = 0, y_pending = [], y_scan = Keyed {} 0\<rparr>"
  have cf: "commit_file Some f None (present ?y2) = (Inr g, ?w2)"
    using c by (simp add: commit_file_def on_repo_def)
  have s3: "?step ?y2 ?y3"
    using sys_committed [of ?y2 "[]" f 0 "[]" 1 Some None g ?w2] cf by simp
  have "fs.good ?w2" "o_map ?w2 = o_map w1" "\<exists>a. added (r_map w1) a f g (r_map ?w2)"
    using commit_file_facts [OF cf] ob(2) by auto
  then obtain a where "fs.good ?w2" "o_map ?w2 = o_map w1" "filled_in f g"
    "r_map ?w2 = (r_map w1)(a \<mapsto> g\<lparr>f_ID := a, f_DeletedAt := None\<rparr>)"
    unfolding added_def by blast
  then have "uploaded_late ?y3 a (g\<lparr>f_ID := a, f_DeletedAt := None\<rparr>)"
    using ob(1) mtime st(3) unfolding uploaded_late_def
    by (intro conjI exI [of _ ob]) (simp_all add: filled_in_def)
  moreover have "?step\<^sup>*\<^sup>* (sys_start demo_uuids 0 []) ?y3"
    using s1 s2 s3 by (meson converse_rtranclp_into_rtranclp rtranclp.rtrancl_refl)
  ultimately show ?thesis
    by blast
qed

lemma cutoff_takes:
  assumes "0 \<le> T" and "T \<le> delta" and "0 \<le> time_before T gr"
  shows "\<exists>y c f. (sys_step demo_libs Some (gc_model Some 1 gr 0) 1 delta)\<^sup>*\<^sup>* (sys_start demo_uuids 0 []) y \<and>
    pg_rows (w_repo (y_world y)) c = Some f \<and> live f \<and> m_map (w_store (y_world y)) (f_StorageKey f) = None"
proof -
  let ?step = "sys_step demo_libs Some (gc_model Some 1 gr 0) 1 delta"
  obtain y c f where y: "?step\<^sup>*\<^sup>* (sys_start demo_uuids 0 []) y" and late: "uploaded_late y c f"
    using demo_uploaded_late by blast
  obtain ob where o: "o_map (y_world y) = [''a'' \<mapsto> ob]" "o_mtime ob = 0"
    using late by (auto simp: uploaded_late_def)
  let ?s = "w_store (y_world y)"
  have "lists_objects (o_map (y_world y)) (snapshot ?s)"
    using late snapshot_lists by (simp add: uploaded_late_def fs.good_def)
  then have l: "so_key ` set (snapshot ?s) = dom (o_map (y_world y))"
    "\<forall>x\<in>set (snapshot ?s). \<exists>z. o_map (y_world y) (so_key x) = Some z \<and> so_mtime x = o_mtime z"
    unfolding lists_objects_def by metis+
  then obtain x xs where x: "snapshot ?s = x # xs"
    using o(1) by (cases "snapshot ?s") simp_all
  then obtain z where "o_map (y_world y) (so_key x) = Some z" "so_mtime x = o_mtime z"
    using l(2) by auto
  then have x: "snapshot ?s = x # xs" "so_key x = ''a''" "so_mtime x = 0"
    using o x by (simp_all split: if_splits)
  let ?y1 = "y\<lparr>y_now := T\<rparr>" and ?y2 = "y\<lparr>y_now := T, y_scan := Visiting {} (time_before T gr) (x # xs)\<rparr>"
  let ?s' = "snd (mem_Delete ''a'' ?s)"
  let ?y3 = "?y2\<lparr>y_world := (y_world y)\<lparr>w_store := ?s'\<rparr>, y_scan := Visiting {} (time_before T gr) xs\<rparr>"
  have s1: "?step y ?y1"
    using sys_clock [of y T] late assms(1) by (simp add: uploaded_late_def)
  have s2: "?step ?y1 ?y2"
    using sys_cutoff [of ?y1 "{}" 0 delta demo_libs Some "gc_model Some 1 gr 0" 1] late x(1) assms(2)
    by (simp add: uploaded_late_def)
  have "visit (gc_model Some 1 gr 0) {} (time_before T gr) x (no_stats, w_store (y_world ?y2)) =
      (Inr (), no_stats\<lparr>st_Orphans := Suc (st_Orphans no_stats)\<rparr>, ?s')"
    using x(2,3) assms(3) by (simp add: visit_def mem_Delete_def)
  then have s3: "?step ?y2 ?y3"
    using sys_visit [of ?y2 "{}" "time_before T gr" x xs "gc_model Some 1 gr 0" no_stats "Inr ()" _ ?s'] by simp
  have run: "?step\<^sup>*\<^sup>* (sys_start demo_uuids 0 []) ?y3"
    using y s1 s2 s3 by (meson rtranclp.rtrancl_into_rtrancl)
  have "m_map (w_store (y_world ?y3)) ''a'' = None"
    by (simp add: mem_Delete_def delete_conv')
  then show ?thesis
    using late by (intro exI [of _ ?y3] exI [of _ c] exI [of _ f] conjI run) (simp_all add: uploaded_late_def)
qed

section \<open>Properties\<close>

text \<open>C4. Uploads in flight survive the orphan sweep.  If every commit follows its object's write
  within \<open>D\<close>, the sweep takes its cutoff within \<open>delta\<close> of reading the keys, and the grace period
  exceeds \<open>D + delta\<close>, then in every state that interleavings of uploads, edits, deletions, purges
  and the moments of sweeps can reach, every live row has its object, and so has every upload in
  flight that is not overdue.\<close>

theorem in_flight_uploads_survive:
  assumes "(sys_step L canon (gc_model canon iv gr ttl) D delta)\<^sup>*\<^sup>* (sys_start u now faults) y"
    and "distinct_supply u" and "\<forall>e. Unacked e \<notin> set faults"
    and "0 \<le> D" and "0 \<le> delta" and "D + delta < sint gr"
  shows "backed L (m_map (w_store (y_world y))) (pg_rows (w_repo (y_world y))) \<and>
    (\<forall>f t. (f, t) \<in> set (y_pending y) \<and> y_now y - t \<le> D \<longrightarrow>
      (\<exists>ob. m_map (w_store (y_world y)) (f_StorageKey f) = Some ob \<and> matches L f ob))"
proof (intro conjI allI impI)
  have ok: "sys_ok L gr D y"
    using sys_run_ok [OF assms(1) sys_start_ok [OF assms(2,3)]] assms(4-6) by simp
  show "backed L (m_map (w_store (y_world y))) (pg_rows (w_repo (y_world y)))"
    by (rule sys_okD(5) [OF ok])
  fix f t assume "(f, t) \<in> set (y_pending y) \<and> y_now y - t \<le> D"
  then show "\<exists>ob. m_map (w_store (y_world y)) (f_StorageKey f) = Some ob \<and> matches L f ob"
    using sys_okD(7) [OF ok, of f t] by (auto simp: pending_ok_def)
qed

theorem in_flight_uploads_survive_witness:
  "\<exists>y c f obs. (sys_step demo_libs Some (gc_model Some 1 10 0) 1 1)\<^sup>*\<^sup>* (sys_start demo_uuids 0 []) y \<and>
    y_scan y = Visiting {} (-10) obs \<and> pg_rows (w_repo (y_world y)) c = Some f \<and> live f \<and>
    backed demo_libs (m_map (w_store (y_world y))) (pg_rows (w_repo (y_world y)))"
proof -
  let ?step = "sys_step demo_libs Some (gc_model Some 1 10 0) 1 1"
  obtain y c f where y: "?step\<^sup>*\<^sup>* (sys_start demo_uuids 0 []) y" "uploaded_late y c f"
    using demo_uploaded_late by blast
  let ?y = "y\<lparr>y_scan := Visiting {} (-10) (snapshot (w_store (y_world y)))\<rparr>"
  have "?step y ?y"
    using sys_cutoff [of y "{}" 0 1 demo_libs Some "gc_model Some 1 10 0" 1] y(2)
    by (simp add: uploaded_late_def time_before_def)
  then have run: "?step\<^sup>*\<^sup>* (sys_start demo_uuids 0 []) ?y"
    using y(1) by simp
  have "backed demo_libs (m_map (w_store (y_world ?y))) (pg_rows (w_repo (y_world ?y)))"
    using in_flight_uploads_survive [OF run demo_distinct] by simp
  then show ?thesis
    using y(2) by (intro exI [of _ ?y] exI [of _ c] exI [of _ f] exI conjI run) (simp_all add: uploaded_late_def)
qed

text \<open>C33. The grace period has to cover the time between reading the keys and taking the cutoff,
  not only the upload: with an upload of no duration and a grace period of 60, a sweep that takes
  its cutoff 100 after reading the keys deletes the object of a live row.\<close>

theorem late_cutoff_loses_upload:
  "\<exists>y c f. (sys_step demo_libs Some (gc_model Some 1 60 0) 1 100)\<^sup>*\<^sup>* (sys_start demo_uuids 0 []) y \<and>
    pg_rows (w_repo (y_world y)) c = Some f \<and> live f \<and> m_map (w_store (y_world y)) (f_StorageKey f) = None"
  by (rule cutoff_takes [of 100]) (simp_all add: time_before_def)

end
