(* ===== verification/Startup.thy ===== *)
theory Startup
  imports Config S3Backend Interleaving FileMap ApiRouter
begin

text \<open>
  \<open>cmd/server\<close>: the composition root.  \<open>boot\<close> loads the configuration, migrates and opens the
  database, opens the object store and wires the service, the collector and the router; \<open>run\<close>
  waits for the listener or a signal and shuts down.  The database drivers and goose are the
  parameter \<open>pgLib\<close>, minio-go is the parameter of \<open>S3Backend\<close>.  The properties are about the
  program as it is deployed: the service over S3, its readiness, and what the configuration
  lets through.
\<close>

section \<open>Setup\<close>

record 'd pgLib =
  pl_sqlOpen :: "string \<Rightarrow> goerr option"
  pl_SetDialect :: "string \<Rightarrow> goerr option"
  pl_Up :: "'d \<Rightarrow> goerr option \<times> 'd"
  pl_poolNew :: "string \<Rightarrow> goerr option"
  pl_Ping :: "'d \<Rightarrow> goerr option \<times> 'd"

definition runMigrations :: "'d pgLib \<Rightarrow> string \<Rightarrow> 'd \<Rightarrow> goerr option \<times> 'd" where
  "runMigrations P dsn d =
     (case pl_sqlOpen P dsn of
        Some e \<Rightarrow> (Some (Wrapped ''open db for migrations'' e), d)
      | None \<Rightarrow>
          (case pl_SetDialect P ''postgres'' of
             Some e \<Rightarrow> (Some (Wrapped ''set goose dialect'' e), d)
           | None \<Rightarrow>
               (case pl_Up P d of
                  (Some e, d') \<Rightarrow> (Some (Wrapped ''run migrations'' e), d')
                | (None, d') \<Rightarrow> (None, d'))))"

definition openPostgres :: "'d pgLib \<Rightarrow> string \<Rightarrow> 'd \<Rightarrow> goerr option \<times> 'd" where
  "openPostgres P dsn d =
     (case pl_poolNew P dsn of
        Some e \<Rightarrow> (Some (Wrapped ''create pg pool'' e), d)
      | None \<Rightarrow>
          (case pl_Ping P d of
             (Some e, d') \<Rightarrow> (Some (Wrapped ''ping postgres'' e), d')
           | (None, d') \<Rightarrow> (None, d')))"

definition s3Options_of :: "storageConfig \<Rightarrow> s3Options" where
  "s3Options_of c =
     \<lparr>op_Endpoint = cs_Endpoint c, op_PublicEndpoint = cs_PublicEndpoint c, op_Region = cs_Region c,
      op_AccessKey = cs_AccessKey c, op_SecretKey = cs_SecretKey c, op_Bucket = cs_Bucket c,
      op_UseSSL = cs_UseSSL c, op_PublicUseSSL = cs_PublicUseSSL c\<rparr>"

section \<open>Boot\<close>

text \<open>What \<open>boot\<close> hands to the server and to the goroutine of the collector.\<close>

record ('s, 'd, 'k) process =
  ps_cfg :: config
  ps_store :: "'k s3Backend"
  ps_collector :: "('s, 'd) collector"
  ps_deps :: "('s, 'd, unit) deps"

definition boot ::
  "fraction \<Rightarrow> 'd pgLib \<Rightarrow> ('k, 'g, 'o, 's, uploadReader) minio \<Rightarrow> 'd repository \<Rightarrow> env \<Rightarrow>
    ('s, 'd) world \<Rightarrow> ('s, 'd, 'k) process res \<times> ('s, 'd) world" where
  "boot fr P M repo env w =
     (case Load fr env of
        Inl e \<Rightarrow> (Inl e, w)
      | Inr cfg \<Rightarrow>
          (case on_repo (runMigrations P (cf_DSN cfg)) w of
             (Some e, w1) \<Rightarrow> (Inl e, w1)
           | (None, w1) \<Rightarrow>
               (case on_repo (openPostgres P (cf_DSN cfg)) w1 of
                  (Some e, w2) \<Rightarrow> (Inl e, w2)
                | (None, w2) \<Rightarrow>
                    (case on_store (s3_New M (s3Options_of (cf_Storage cfg))) w2 of
                       (Inl e, w3) \<Rightarrow> (Inl e, w3)
                     | (Inr b, w3) \<Rightarrow>
                         (Inr \<lparr>ps_cfg = cfg, ps_store = b,
                            ps_collector = gc_New (s3_backend M b) repo (gc_Interval (cf_GC cfg))
                              (gc_GracePeriod (cf_GC cfg)) (gc_IdempotencyTTL (cf_GC cfg)),
                            ps_deps = \<lparr>dp_Files = Some (files_New (s3_backend M b) repo),
                              dp_ReadyCheck = Some (readiness (pl_Ping P)
                                (s3_backend M b :: ('s, uploadReader, unit) backend)),
                              dp_PresignTTL = cf_PresignTTL cfg,
                              dp_MaxUploadBytes = cf_MaxUploadBytes cfg\<rparr>\<rparr>, w3)))))"

text \<open>The observer of the sweeps.\<close>

definition observe_sweeps :: "(gcStats \<times> goerr option) list \<Rightarrow> sample list \<Rightarrow> sample list" where
  "observe_sweeps xs m =
     fold (\<lambda>(s, e). ObserveGCSweep (st_Purged s) (st_Orphans s) (st_ExpiredKeys s) e) xs m"

section \<open>Serving\<close>

datatype serverEvent = ListenReturns "goerr option" | Signal

definition ErrServerClosed :: goerr where
  "ErrServerClosed = Opaque ''http: Server closed''"

text \<open>
  The \<open>select\<close> of \<open>run\<close>: the listener's error, unless it is the one of a shutdown, or the
  signal.  \<open>None\<close> is a server that is still serving; \<open>shutdown\<close> is what \<open>srv.Shutdown\<close>
  returns within the time it is given.
\<close>

fun wait_server :: "serverEvent list \<Rightarrow> goerr option option" where
  "wait_server [] = None"
| "wait_server (Signal # es) = Some None"
| "wait_server (ListenReturns None # es) = wait_server es"
| "wait_server (ListenReturns (Some e) # es) =
     (if errors_is e ErrServerClosed then wait_server es else Some (Some e))"

definition run_server :: "config \<Rightarrow> serverEvent list \<Rightarrow> (int64 \<Rightarrow> goerr option) \<Rightarrow> goerr option option" where
  "run_server cfg events shutdown =
     (case wait_server events of
        None \<Rightarrow> None
      | Some (Some e) \<Rightarrow> Some (Some e)
      | Some None \<Rightarrow> Some (map_option (Wrapped ''graceful shutdown'') (shutdown (cf_ShutdownTimeout cfg))))"

text \<open>The server as \<open>run\<close> configures it; a timeout of 0 is none.\<close>

record httpServer =
  sr_Addr :: string
  sr_ReadHeaderTimeout :: int64
  sr_IdleTimeout :: int64
  sr_ReadTimeout :: int64
  sr_WriteTimeout :: int64

definition http_server :: "config \<Rightarrow> httpServer" where
  "http_server cfg =
     \<lparr>sr_Addr = cf_HTTPAddr cfg, sr_ReadHeaderTimeout = 10 * second, sr_IdleTimeout = 2 * 60 * second,
      sr_ReadTimeout = 0, sr_WriteTimeout = 0\<rparr>"

text \<open>
  \<open>main\<close>: the status the process exits with, \<open>None\<close> while it is serving.  \<open>events\<close> and \<open>shutdown\<close> say
  what the server is going to see under its configuration.
\<close>

definition main_exit ::
  "fraction \<Rightarrow> 'd pgLib \<Rightarrow> ('k, 'g, 'o, 's, uploadReader) minio \<Rightarrow> 'd repository \<Rightarrow> env \<Rightarrow>
    (httpServer \<Rightarrow> serverEvent list) \<Rightarrow> (int64 \<Rightarrow> goerr option) \<Rightarrow> ('s, 'd) world \<Rightarrow> nat option" where
  "main_exit fr P M repo env events shutdown w =
     (case boot fr P M repo env w of
        (Inl e, _) \<Rightarrow> Some 1
      | (Inr p, _) \<Rightarrow>
          (case run_server (ps_cfg p) (events (http_server (ps_cfg p))) shutdown of
             None \<Rightarrow> None
           | Some (Some e) \<Rightarrow> Some 1
           | Some None \<Rightarrow> Some 0))"

text \<open>What does not end the wait: the listener that returns because of a shutdown.\<close>

definition benign :: "serverEvent \<Rightarrow> bool" where
  "benign x =
     (case x of
        Signal \<Rightarrow> False
      | ListenReturns None \<Rightarrow> True
      | ListenReturns (Some e) \<Rightarrow> errors_is e ErrServerClosed)"

lemma wait_server_signal: "wait_server es = Some None \<longleftrightarrow> (\<exists>ys. dropWhile benign es = Signal # ys)"
  by (induction es rule: wait_server.induct) (simp_all add: benign_def)

text \<open>
  The process ends with status 0 exactly when it booted, was told to stop before its listener failed,
  and shut down in the time the configuration gives it.
\<close>

lemma exit_clean:
  "main_exit fr P M repo env events shutdown w = Some 0 \<longleftrightarrow>
    (\<exists>p w' ys. boot fr P M repo env w = (Inr p, w') \<and>
      dropWhile benign (events (http_server (ps_cfg p))) = Signal # ys \<and>
      shutdown (cf_ShutdownTimeout (ps_cfg p)) = None)"
proof -
  have "run_server cfg es shutdown = Some None \<longleftrightarrow> wait_server es = Some None \<and> shutdown (cf_ShutdownTimeout cfg) = None"
    for cfg es
    by (simp add: run_server_def split: option.splits)
  moreover have "main_exit fr P M repo env events shutdown w = Some 0 \<longleftrightarrow> (\<exists>p w'. boot fr P M repo env w = (Inr p, w') \<and>
      run_server (ps_cfg p) (events (http_server (ps_cfg p))) shutdown = Some None)"
    by (auto simp: main_exit_def split: prod.splits sum.splits option.splits)
  ultimately show ?thesis
    by (auto simp: wait_server_signal)
qed

section \<open>What a booted program is\<close>

lemma s3_New_result:
  assumes "s3_New M opts s = (Inr b, s')"
  shows "s3_bucket b = op_Bucket opts"
    "mn_New M (op_Endpoint opts) (op_AccessKey opts) (op_SecretKey opts) (op_UseSSL opts) (op_Region opts) =
      Inr (s3_client b)"
    "if op_PublicEndpoint opts = '''' \<or> op_PublicEndpoint opts = op_Endpoint opts then s3_presign b = s3_client b
     else mn_New M (op_PublicEndpoint opts) (op_AccessKey opts) (op_SecretKey opts) (op_PublicUseSSL opts)
       (op_Region opts) = Inr (s3_presign b)"
  using assms by (auto simp: s3_New_def Let_def split: sum.splits prod.splits if_splits)

lemma boot_result:
  assumes "boot fr P M repo env w = (Inr p, w')"
  obtains s where "Load fr env = Inr (ps_cfg p)"
    "s3_New M (s3Options_of (cf_Storage (ps_cfg p))) (w_store w) = (Inr (ps_store p), s)"
    "ps_collector p = gc_New (s3_backend M (ps_store p)) repo (gc_Interval (cf_GC (ps_cfg p)))
       (gc_GracePeriod (cf_GC (ps_cfg p))) (gc_IdempotencyTTL (cf_GC (ps_cfg p)))"
    "ps_deps p = \<lparr>dp_Files = Some (files_New (s3_backend M (ps_store p)) repo),
       dp_ReadyCheck = Some (readiness (pl_Ping P) (s3_backend M (ps_store p) :: (_, uploadReader, unit) backend)),
       dp_PresignTTL = cf_PresignTTL (ps_cfg p), dp_MaxUploadBytes = cf_MaxUploadBytes (ps_cfg p)\<rparr>"
  using assms by (auto simp: boot_def on_repo_def on_store_def split: sum.splits option.splits prod.splits)

lemma boot_parts:
  assumes "boot fr P M repo env w = (Inr p, w')"
  shows "dp_Files (ps_deps p) = Some (files_New (s3_backend M (ps_store p)) repo)"
    "ps_collector p = gc_New (s3_backend M (ps_store p)) repo (gc_Interval (cf_GC (ps_cfg p)))
       (gc_GracePeriod (cf_GC (ps_cfg p))) (gc_IdempotencyTTL (cf_GC (ps_cfg p)))"
  by (rule boot_result [OF assms]; simp)+

section \<open>A running program\<close>

text \<open>A call of its service, a sweep of its collector, or the passing of time on the database's clock.\<close>

inductive process_step ::
  "libs \<Rightarrow> ('s, db, 'k) process \<Rightarrow> ('s, db) world \<Rightarrow> ('s, db) world \<Rightarrow> bool"
  for L :: libs and p :: "('s, db, 'k) process" where
  process_call: "dp_Files (ps_deps p) = Some S \<Longrightarrow> service_step L S w w' \<Longrightarrow> process_step L p w w'"
| process_sweep: "RunOnce (ps_collector p) ctx now1 now2 w = (r, w') \<Longrightarrow> process_step L p w w'"
| process_clock: "process_step L p w (w\<lparr>w_repo := (w_repo w)\<lparr>d_now := t\<rparr>\<rparr>)"

text \<open>
  A world before its first call: a sane store, empty tables, a database that does not lose
  acknowledgements, and UUIDs that do not repeat.
\<close>

definition fresh_start :: "('s \<Rightarrow> bool) \<Rightarrow> ('s, db) world \<Rightarrow> bool" where
  "fresh_start sane w \<longleftrightarrow>
     sane (w_store w) \<and> d_files (w_repo w) = [] \<and> d_idem (w_repo w) = [] \<and>
     (\<forall>e. Unacked e \<notin> set (d_faults (w_repo w))) \<and> distinct_supply (w_uuids w) \<and> w_next w = 0"

text \<open>The contracts of the service and of the collector, over S3.\<close>

lemma s3_file_service:
  assumes "minio_laws M b objs sane"
  shows "file_service (s3_backend M b) objs sane (pg_repo canon) canon pg_rows pg_claims pg_good"
  by (rule file_service.intro [OF s3_object_store [OF assms] pg.file_repository_axioms])

lemma s3_gc_service:
  fixes M :: "('k, 'g, 'o, 's, uploadReader) minio"
  assumes "minio_laws M b objs sane"
  shows "gc_service (s3_backend M b) objs sane (pg_repo canon) canon pg_rows pg_claims pg_good"
proof (rule gc_service.intro [OF s3_file_service [OF assms] pg_gc.gc_repository_axioms gc_service_axioms.intro])
  fix s ctx fn c x cs' and P :: "gcStats \<times> 's \<Rightarrow> bool"
  assume s: "sane s" and l: "b_List (s3_backend M b) ctx fn (c, s) = (x, cs')"
    and start: "\<And>s1. sane s1 \<Longrightarrow> objs s1 = objs s \<Longrightarrow> P (c, s1)"
    and step: "\<And>ob cs y cs''. listed (objs s) ob \<Longrightarrow> P cs \<Longrightarrow> fn ob cs = (y, cs'') \<Longrightarrow> P cs''"
  obtain obs s1 where obs: "mn_ListObjects M (s3_client b) (s3_bucket b) ctx s = (obs, s1)"
    by (rule prod.exhaust)
  note list = list_lawD [OF minio_lawsD(6) [OF assms] obs s]
  have "s3_list_loop fn obs (c, s1) = (x, cs')"
    using l obs by (simp add: s3_List_def)
  then show "P cs'"
  proof (rule s3_list_loop_visits)
    show "P (c, s1)"
      by (rule start [OF list(1,2)])
    fix info :: minioInfo and cs y cs''
    let ?ob = "\<lparr>so_key = mo_Key info, so_size = mo_Size info, so_mtime = mo_LastModified info\<rparr>"
    assume info: "Inr info \<in> set obs" and v: "P cs" "fn ?ob cs = (y, cs'')"
    have "listed (objs s) ?ob"
      using list(3) [OF info] by (simp add: listed_def)
    then show "P cs''"
      by (rule step [OF _ v])
  qed
qed

lemma process_step_consistent:
  assumes boot: "boot fr P M (pg_repo canon) env w0 = (Inr p, w1)"
    and laws: "minio_laws M (ps_store p) objs sane"
    and step: "process_step L p w w'" and w: "file_service.consistent objs sane pg_rows pg_good L w"
  shows "file_service.consistent objs sane pg_rows pg_good L w'"
proof -
  note fs3 = s3_file_service [OF laws, of canon]
  note gc3 = s3_gc_service [OF laws, of canon]
  note consistent_def = file_service.consistent_def [OF fs3] file_service.good_def [OF fs3]
  from step show ?thesis
  proof cases
    case (process_call S)
    then have "S = files_New (s3_backend M (ps_store p)) (pg_repo canon)"
      by (simp add: boot_parts(1) [OF boot])
    then show ?thesis
      using file_service.consistent_step [OF fs3] process_call(2) w by blast
  next
    case (process_sweep ctx now1 now2 r)
    moreover have "file_service.good sane pg_good w"
      by (rule file_service.consistent_good [OF fs3 w])
    ultimately show ?thesis
      using gc_service.consistent_shrunk [OF gc3 w] gc_service.RunOnce_shrunk [OF gc3]
      unfolding boot_parts(2) [OF boot] by blast
  next
    case (process_clock t)
    have "pg_rows (d\<lparr>d_now := t\<rparr>) = pg_rows d" for d
      by (simp add: pg_rows_def fun_eq_iff)
    then show ?thesis
      using w process_clock
      by (simp add: consistent_def pg_good_def tables_ok_def acked_def drawn_def)
  qed
qed

lemma s3_file_map:
  assumes "minio_laws M b objs sane"
  shows "file_map (s3_backend M b) objs sane (pg_repo canon) canon pg_rows pg_claims pg_good (s3_backend M b)"
  by (rule file_map.intro [OF s3_file_service [OF assms] s3_gc_service [OF assms]
        pg_list.listing_repository_axioms])

lemma process_run_consistent:
  assumes boot: "boot fr P M (pg_repo canon) env w0 = (Inr p, w1)"
    and laws: "minio_laws M (ps_store p) objs sane"
    and start: "fresh_start sane w1" and run: "(process_step L p)\<^sup>*\<^sup>* w1 w"
  shows "file_service.consistent objs sane pg_rows pg_good L w"
  using run
proof (induction rule: rtranclp_induct)
  case base
  note fs3 = s3_file_service [OF laws, of canon]
  show ?case
    unfolding file_service.consistent_def [OF fs3] file_service.good_def [OF fs3]
    using start
    by (simp add: fresh_start_def pg_good_def tables_ok_def acked_def pg_rows_def drawn_def backed_def ran_def)
next
  case (step v w)
  then show ?case
    using process_step_consistent [OF boot laws] by blast
qed

section \<open>Properties\<close>

text \<open>The clients of a store: one for the endpoint, and one for presigned URLs, which is the same unless
  there is another public endpoint.\<close>

definition clients_made :: "('k, 'g, 'o, 's, 'r) minio \<Rightarrow> storageConfig \<Rightarrow> 'k s3Backend \<Rightarrow> bool" where
  "clients_made M c b \<longleftrightarrow>
     mn_New M (cs_Endpoint c) (cs_AccessKey c) (cs_SecretKey c) (cs_UseSSL c) (cs_Region c) = Inr (s3_client b) \<and>
     (if cs_PublicEndpoint c = '''' \<or> cs_PublicEndpoint c = cs_Endpoint c then s3_presign b = s3_client b
      else mn_New M (cs_PublicEndpoint c) (cs_AccessKey c) (cs_SecretKey c) (cs_PublicUseSSL c) (cs_Region c) =
        Inr (s3_presign b))"

text \<open>C16. What \<open>boot\<close> wires.  A program that boots runs under an accepted configuration; its
  service, its collector and its readiness probe share one object store, the first two one repository;
  the upload cap, the lifetime of presigned URLs (the router's own default is never used), and the
  interval, the grace period and the time to live of keys of the collector are each the configured one;
  the bucket is the configured one and not empty, and the S3 clients are made from the storage
  settings, the one for presigned URLs from the public endpoint where there is one.\<close>

theorem boot_wires:
  assumes "boot fr P M repo env w = (Inr p, w')"
  shows "Load fr env = Inr (ps_cfg p) \<and>
    router_handler (ps_deps p) =
      Some \<lparr>fh_svc = files_New (s3_backend M (ps_store p)) repo, fh_presignTTL = cf_PresignTTL (ps_cfg p),
        fh_maxUpload = cf_MaxUploadBytes (ps_cfg p)\<rparr> \<and>
    dp_ReadyCheck (ps_deps p) =
      Some (readiness (pl_Ping P) (s3_backend M (ps_store p) :: (_, uploadReader, unit) backend)) \<and>
    co_store (ps_collector p) = s3_backend M (ps_store p) \<and> co_repo (ps_collector p) = repo \<and>
    co_interval (ps_collector p) = gc_Interval (cf_GC (ps_cfg p)) \<and>
    co_grace (ps_collector p) = gc_GracePeriod (cf_GC (ps_cfg p)) \<and>
    co_idemTTL (ps_collector p) = gc_IdempotencyTTL (cf_GC (ps_cfg p)) \<and>
    s3_bucket (ps_store p) = cs_Bucket (cf_Storage (ps_cfg p)) \<and> s3_bucket (ps_store p) \<noteq> '''' \<and>
    clients_made M (cf_Storage (ps_cfg p)) (ps_store p)"
proof -
  obtain s where p: "Load fr env = Inr (ps_cfg p)"
    "s3_New M (s3Options_of (cf_Storage (ps_cfg p))) (w_store w) = (Inr (ps_store p), s)"
    "ps_collector p = gc_New (s3_backend M (ps_store p)) repo (gc_Interval (cf_GC (ps_cfg p)))
       (gc_GracePeriod (cf_GC (ps_cfg p))) (gc_IdempotencyTTL (cf_GC (ps_cfg p)))"
    "ps_deps p = \<lparr>dp_Files = Some (files_New (s3_backend M (ps_store p)) repo),
       dp_ReadyCheck = Some (readiness (pl_Ping P) (s3_backend M (ps_store p) :: (_, uploadReader, unit) backend)),
       dp_PresignTTL = cf_PresignTTL (ps_cfg p), dp_MaxUploadBytes = cf_MaxUploadBytes (ps_cfg p)\<rparr>"
    using assms by (rule boot_result)
  have "\<not> cf_PresignTTL (ps_cfg p) <=s 0"
    using p(1) by (simp add: Load_iff bounds_ok_def sint64_le_iff)
  moreover have "cs_Bucket (cf_Storage (ps_cfg p)) \<noteq> ''''"
    using p(1) by (auto simp: Load_iff missing_settings_def required_def split: if_splits)
  moreover have "clients_made M (cf_Storage (ps_cfg p)) (ps_store p)"
    using s3_New_result(2,3) [OF p(2)] by (auto simp: clients_made_def s3Options_of_def split: if_splits)
  ultimately show ?thesis
    using p(1) s3_New_result(1) [OF p(2)]
    by (simp add: p(3,4) router_handler_def registerFiles_def gc_New_def s3Options_of_def)
qed

definition demo_pg :: "db pgLib" where
  "demo_pg =
     \<lparr>pl_sqlOpen = (\<lambda>_. None), pl_SetDialect = (\<lambda>_. None), pl_Up = Pair None, pl_poolNew = (\<lambda>_. None),
      pl_Ping = Pair None\<rparr>"

text \<open>The process that the demonstration environment boots.\<close>

lemma demo_boot:
  "\<exists>p. boot (\<lambda>_ _ _. 0) demo_pg demo_minio (pg_repo Some) demo_env demo_start = (Inr p, demo_start) \<and>
    ps_cfg p = demo_config \<and> ps_store p = demo_s3 \<and>
    dp_Files (ps_deps p) = Some (files_New (s3_backend demo_minio demo_s3) (pg_repo Some))"
  by (simp add: boot_def demo_load runMigrations_def openPostgres_def demo_pg_def on_repo_def on_store_def
      s3_New_def ensureBucket_def s3Options_of_def demo_config_def demo_s3_def Let_def)

theorem boot_wires_witness:
  "\<exists>p. boot (\<lambda>_ _ _. 0) demo_pg demo_minio (pg_repo Some) demo_env demo_start = (Inr p, demo_start) \<and>
    co_store (ps_collector p) = s3_backend demo_minio (ps_store p) \<and> s3_bucket (ps_store p) = ''b''"
proof -
  obtain p where p: "boot (\<lambda>_ _ _. 0) demo_pg demo_minio (pg_repo Some) demo_env demo_start = (Inr p, demo_start)"
    "ps_cfg p = demo_config"
    using demo_boot by blast
  show ?thesis
    using boot_wires [OF p(1)] p by (auto simp: demo_config_def)
qed

text \<open>C5. The invariant of the deployed program.  Over any S3 client that keeps the laws, a program
  that boots on empty tables has, after any calls of its service and sweeps of its collector, whatever
  its settings and whatever failures of the database that it acknowledges, an object with the recorded
  length and hash behind every live row.\<close>

theorem deployed_backed:
  assumes "boot fr P M (pg_repo canon) env w0 = (Inr p, w1)" and "minio_laws M (ps_store p) objs sane"
    and "fresh_start sane w1" and "(process_step L p)\<^sup>*\<^sup>* w1 w"
  shows "backed L (objs (w_store w)) (pg_rows (w_repo w))"
  using process_run_consistent [OF assms]
  by (simp add: file_service.consistent_def [OF s3_file_service [OF assms(2), of canon]])

abbreviation demo_service :: "(memstore, db, unit) service" where
  "demo_service \<equiv> files_New (s3_backend demo_minio demo_s3) (pg_repo Some)"

lemma demo_s3_upload:
  "\<exists>f b w c g. Service_Upload demo_libs demo_service demo_input demo_start = (Inr f, b, w) \<and>
    pg_rows (w_repo w) c = Some g \<and> live g"
proof -
  obtain ct src where s: "sniff demo_libs demo_input (new_upload (in_Body demo_input)) = (ct, src)"
    by (cases "sniff demo_libs demo_input (new_upload (in_Body demo_input))") auto
  note facts = fs.sniff_facts [OF s]
  have "body_fin (in_Body demo_input) = EOF"
    by (simp add: demo_input_def)
  then obtain u where u: "upload_ReadAll src = ((body_rest (in_Body demo_input), None), u)"
    using upload_ReadAll_result [OF facts(1)] facts(2,3) by (auto simp: eof_nil_def)
  have ids: "w_uuids demo_start (w_next demo_start) = Inr ''''" "w_uuids demo_start (Suc (w_next demo_start)) = Inr ''a''"
    by (simp_all add: demo_start_def start_def demo_uuids_def)
  have "\<exists>f b w1. stage demo_libs demo_service demo_input demo_start = (Inr f, b, w1) \<and> f_ID f = '''' \<and>
      w_repo w1 = w_repo demo_start"
    using s u ids
    by (simp add: stage_def newID_def files_New_def s3_Put_def mem_Put_def resolve_size_def on_store_def
        s3_Stat_def update_conv' Let_def)
  then obtain f b w1 where st: "stage demo_libs demo_service demo_input demo_start = (Inr f, b, w1)"
    "f_ID f = ''''" "w_repo w1 = w_repo demo_start"
    by blast
  obtain g d where c: "pg_Create Some f (w_repo w1) = (Inr g, d)"
    using pg_Create_quiet [of "w_repo w1" Some f "''''"] st(2,3)
    by (auto simp: demo_start_def start_def pg_rows_def)
  have "fs.good demo_start"
    by (rule demo_good(1))
  then have "\<exists>c. added (pg_rows (w_repo w1)) c f g (pg_rows d)"
    using pg_Create_ok [of "w_repo w1" Some f g d] c st(3) by (auto simp: fs.good_def)
  then show ?thesis
    using st(1) c by (auto simp: Service_Upload_def on_repo_def files_New_def added_def)
qed

text \<open>The process the demonstration environment boots, and its first upload.\<close>

lemma demo_process:
  obtains p f b w c g where
    "boot (\<lambda>_ _ _. 0) demo_pg demo_minio (pg_repo Some) demo_env demo_start = (Inr p, demo_start)"
    "dp_Files (ps_deps p) = Some demo_service" "minio_laws demo_minio (ps_store p) m_map m_sane"
    "fresh_start m_sane demo_start"
    "Service_Upload demo_libs demo_service demo_input demo_start = (Inr f, b, w)"
    "(process_step demo_libs p)\<^sup>*\<^sup>* demo_start w" "pg_rows (w_repo w) c = Some g" "live g"
proof -
  obtain p where p: "boot (\<lambda>_ _ _. 0) demo_pg demo_minio (pg_repo Some) demo_env demo_start = (Inr p, demo_start)"
    "dp_Files (ps_deps p) = Some demo_service"
    using demo_boot by blast
  obtain f b w c g where up: "Service_Upload demo_libs demo_service demo_input demo_start = (Inr f, b, w)"
    "pg_rows (w_repo w) c = Some g" "live g"
    using demo_s3_upload by blast
  have "service_step demo_libs demo_service demo_start w"
    using up(1) demo_good(3) by (auto intro: step_Upload)
  then have run: "(process_step demo_libs p)\<^sup>*\<^sup>* demo_start w"
    using p(2) by (blast intro: process_call)
  have "fresh_start m_sane demo_start"
    using demo_distinct by (simp add: fresh_start_def demo_start_def start_def m_sane_def mem_New_def)
  then show thesis
    using that p demo_minio_laws up run by blast
qed

theorem deployed_backed_witness:
  "\<exists>p f b w c g. boot (\<lambda>_ _ _. 0) demo_pg demo_minio (pg_repo Some) demo_env demo_start = (Inr p, demo_start) \<and>
    Service_Upload demo_libs demo_service demo_input demo_start = (Inr f, b, w) \<and>
    pg_rows (w_repo w) c = Some g \<and> live g \<and> backed demo_libs (m_map (w_store w)) (pg_rows (w_repo w))"
proof -
  obtain p f b w c g where d:
    "boot (\<lambda>_ _ _. 0) demo_pg demo_minio (pg_repo Some) demo_env demo_start = (Inr p, demo_start)"
    "minio_laws demo_minio (ps_store p) m_map m_sane" "fresh_start m_sane demo_start"
    "Service_Upload demo_libs demo_service demo_input demo_start = (Inr f, b, w)"
    "(process_step demo_libs p)\<^sup>*\<^sup>* demo_start w" "pg_rows (w_repo w) c = Some g" "live g"
    by (rule demo_process)
  show ?thesis
    using deployed_backed [OF d(1-3,5)] d by blast
qed

text \<open>C2. The deployed program refines the file map.  Whatever S3 client keeps the laws, in whatever
  state calls and sweeps have brought a booted program, each further call of its service and sweep of
  its collector answers and changes the files as the specification says.\<close>

theorem deployed_refines_file_map:
  assumes "boot fr P M (pg_repo canon) env w0 = (Inr p, w1)" and "minio_laws M (ps_store p) objs sane"
    and "fresh_start sane w1" and "(process_step L p)\<^sup>*\<^sup>* w1 w" and "honest_call call"
    and "dp_Files (ps_deps p) = Some S" and "perform L S (ps_collector p) call w = (r, w')"
  shows "spec L canon call r (files_view objs w) (files_view objs w')"
proof -
  note fm3 = s3_file_map [OF assms(2), of canon]
  have "S = files_New (s3_backend M (ps_store p)) (pg_repo canon)"
    using boot_parts(1) [OF assms(1)] assms(6) by simp
  from file_map.perform_refines [OF fm3 process_run_consistent [OF assms(1-4)] assms(5)
      assms(7) [unfolded boot_parts(2) [OF assms(1)] this]]
  show ?thesis
    by (simp add: files_view_def file_map.files_in_def [OF fm3])
qed

theorem deployed_refines_file_map_witness:
  "\<exists>p f w c. boot (\<lambda>_ _ _. 0) demo_pg demo_minio (pg_repo Some) demo_env demo_start = (Inr p, demo_start) \<and>
    perform demo_libs demo_service (ps_collector p) (UploadFile demo_input) demo_start = (Created f, w) \<and>
    files_view m_map w = (files_view m_map demo_start)(c \<mapsto> uploaded demo_libs demo_input (f_ID f))"
proof -
  obtain p f b w c g where d:
    "boot (\<lambda>_ _ _. 0) demo_pg demo_minio (pg_repo Some) demo_env demo_start = (Inr p, demo_start)"
    "dp_Files (ps_deps p) = Some demo_service" "minio_laws demo_minio (ps_store p) m_map m_sane"
    "fresh_start m_sane demo_start"
    "Service_Upload demo_libs demo_service demo_input demo_start = (Inr f, b, w)"
    by (rule demo_process)
  then have up: "perform demo_libs demo_service (ps_collector p) (UploadFile demo_input) demo_start =
      (Created f, w)"
    by (simp add: answer_def)
  have "honest_call (UploadFile demo_input)"
    using demo_good(3) by simp
  from deployed_refines_file_map [OF d(1,3,4) rtranclp.rtrancl_refl this d(2) up] show ?thesis
    using up d(1) by (auto simp: created_def)
qed

text \<open>C30. Readiness in production.  The probe reports ready exactly when the database answers and
  the store answers the sentinel's \<open>Stat\<close>, with the object or with no such key.\<close>

theorem readiness_over_s3:
  "fst (readiness ping (s3_backend M b) w) = None \<longleftrightarrow>
     (case on_repo ping w of
        (e, w1) \<Rightarrow>
          e = None \<and>
          (case fst (mn_StatObject M (s3_client b) (s3_bucket b) healthSentinelKey (w_store w1)) of
             Inl e \<Rightarrow> mn_Code M e = ''NoSuchKey'' \<or> errors_is e StorageNotFound
           | Inr _ \<Rightarrow> True))"
  by (auto simp: readiness_def s3_Stat_def on_store_def mapErr_def
      split: option.splits sum.splits prod.splits if_splits)

text \<open>C39. The TLS setting of presigned URLs has no effect without a public endpoint of its own: they
  are signed by the client of the service-side endpoint, with that one's scheme.\<close>

theorem public_tls_ignored:
  assumes "boot fr P M repo env w = (Inr p, w')" and "env ''CAIRNMARK_S3_PUBLIC_ENDPOINT'' = None"
  shows "s3_presign (ps_store p) = s3_client (ps_store p) \<and>
    mn_New M (cs_Endpoint (cf_Storage (ps_cfg p))) (cs_AccessKey (cf_Storage (ps_cfg p)))
      (cs_SecretKey (cf_Storage (ps_cfg p))) (cs_UseSSL (cf_Storage (ps_cfg p)))
      (cs_Region (cf_Storage (ps_cfg p))) = Inr (s3_presign (ps_store p))"
proof -
  obtain s where p: "Load fr env = Inr (ps_cfg p)"
    "s3_New M (s3Options_of (cf_Storage (ps_cfg p))) (w_store w) = (Inr (ps_store p), s)"
    using assms(1) by (rule boot_result)
  have "cs_PublicEndpoint (cf_Storage (ps_cfg p)) = cs_Endpoint (cf_Storage (ps_cfg p))"
    using p(1) assms(2) by (simp add: Load_iff settings_def Let_def setting_def)
  then show ?thesis
    using s3_New_result [OF p(2)] by (simp add: s3Options_of_def)
qed

theorem public_tls_ignored_witness:
  "\<exists>p. boot (\<lambda>_ _ _. 0) demo_pg demo_minio (pg_repo Some) demo_env demo_start = (Inr p, demo_start) \<and>
    cs_PublicUseSSL (cf_Storage (ps_cfg p)) \<and> s3_presign (ps_store p) = ''http://minio:9000''"
proof -
  obtain p where p: "boot (\<lambda>_ _ _. 0) demo_pg demo_minio (pg_repo Some) demo_env demo_start = (Inr p, demo_start)"
    "ps_cfg p = demo_config"
    using demo_boot by blast
  show ?thesis
    using public_tls_ignored [OF p(1)] p by (simp add: demo_env_def demo_config_def)
qed

text \<open>C35. The grace period is not checked: a negative one is accepted, and under it the sweep deletes
  the object of an upload that it overlaps, however short both are.\<close>

theorem unchecked_grace_loses_upload:
  "\<exists>cfg y c f. Load (\<lambda>_ _ _. 0) demo_env = Inr cfg \<and>
    (sys_step demo_libs Some (gc_model Some 1 (gc_GracePeriod (cf_GC cfg)) 0) 1 0)\<^sup>*\<^sup>*
      (sys_start demo_uuids 0 []) y \<and>
    pg_rows (w_repo (y_world y)) c = Some f \<and> live f \<and> m_map (w_store (y_world y)) (f_StorageKey f) = None"
proof -
  have "0 \<le> time_before 0 (gc_GracePeriod (cf_GC demo_config))"
    by (simp add: demo_config_def time_before_def)
  then show ?thesis
    using demo_load cutoff_takes [of 0 0 "gc_GracePeriod (cf_GC demo_config)"] by blast
qed

text \<open>
  The counters of the collector add up the sweeps that succeeded; what a sweep reclaimed before it
  failed is not counted.
\<close>

lemma reclaimed_totals:
  "counted gcReclaimed [''purged''] (observe_sweeps xs m) =
    counted gcReclaimed [''purged''] m + (\<Sum>(s, e)\<leftarrow>xs. if e = None then int (st_Purged s) else 0)"
proof -
  have "gcSweeps \<noteq> gcReclaimed"
    by (simp add: gcSweeps_def gcReclaimed_def)
  then show ?thesis
    unfolding observe_sweeps_def
    by (induction xs arbitrary: m) (auto simp: ObserveGCSweep_def counted_def)
qed

text \<open>C28. Recording never panics: every observation of a request and of a sweep is made on a
  registered metric of the right kind, with exactly as many values as the metric declares labels,
  and no counter is decreased; and the registered names are distinct.\<close>

theorem samples_fit:
  assumes "list_all fits m"
  shows "list_all fits (snd (snd (instrument L W expose d elapsed rq w m))) \<and> list_all fits (observe_sweeps xs m) \<and>
    distinct (map mt_Name registered)"
proof (intro conjI registered_distinct)
  show "list_all fits (snd (snd (instrument L W expose d elapsed rq w m)))"
    using assms by (auto simp: instrument_def Let_def ObserveRequest_fits split: prod.splits)
  show "list_all fits (observe_sweeps xs m)"
    unfolding observe_sweeps_def using assms
    by (induction xs arbitrary: m) (auto simp: ObserveGCSweep_fits)
qed

theorem samples_fit_witness:
  "\<exists>m. m = observe_sweeps [(no_stats, None), (no_stats, Some ErrServerClosed)] [] \<and> length m = 5 \<and>
    list_all fits (observe_sweeps [(no_stats, None)] m)"
proof -
  let ?m = "observe_sweeps [(no_stats, None), (no_stats, Some ErrServerClosed)] []"
  have "list_all fits ?m"
    by (rule samples_fit [THEN conjunct2, THEN conjunct1]) simp
  then have "list_all fits (observe_sweeps [(no_stats, None)] ?m)"
    by (rule samples_fit [THEN conjunct2, THEN conjunct1])
  moreover have "length ?m = 5"
    by (simp add: observe_sweeps_def ObserveGCSweep_def)
  ultimately show ?thesis
    by blast
qed

end
