(* ===== verification/Spec2Isabelle.thy ===== *)
theory Spec2Isabelle
  imports SqlProgram KeyLife Paging ApiErrors ApiEdits Startup
begin

text \<open>
  CairnMark, a file service: objects in an S3-compatible store, records in Postgres, an HTTP API
  over both, and a collector that brings the two halves together again.

  \<^bold>\<open>The program and its parts.\<close>  A request enters at the router (\<open>internal/api/api.go\<close>),
  which picks a handler (\<open>files.go\<close>, \<open>metadata.go\<close>, \<open>health.go\<close>) and records a metric.  The
  handlers call the service (\<open>internal/files\<close>), which draws identifiers, streams bodies through
  readers (\<open>limit.go\<close>, \<open>verify.go\<close>, \<open>TeeReader\<close>) into the store and commits records to the
  repository.  Store and repository are interfaces (\<open>internal/storage/backend.go\<close>,
  \<open>internal/metadata/repository.go\<close>) with the implementations \<open>storage/s3\<close>,
  \<open>storage/memory\<close> and \<open>metadata/postgres\<close>.  The collector (\<open>internal/gc\<close>) purges the objects and
  rows of deleted files, deletes orphaned objects and expires idempotency keys.  \<open>cmd/server\<close> reads
  the configuration (\<open>internal/config\<close>) and wires everything.

  \<^bold>\<open>State.\<close>  A \<open>world\<close> is a store state, a database, a supply of UUIDs and how many of it have
  been drawn; every operation of the service, the handlers and the collector is a function that
  returns its result and the next world.  The in-memory store is an association list of objects
  with a clock, the database two lists of rows with a clock and a queue of faults: \<open>send\<close> makes a
  statement fail before or after it takes effect as the head of the queue says (\<open>Unacked\<close>: it took
  effect and the answer was lost).  Errors are values of \<open>goerr\<close>, one constructor for each sentinel,
  and \<open>'a res\<close> is an error or a value; a run-time panic is the error \<open>Panicked\<close>.  An \<open>int64\<close> is a
  word of 64 bits, compared as signed, so that every sum and difference wraps as in Go.

  \<^bold>\<open>Theories, in the order of the code they model.\<close>

  \<^item> \<open>Prelude\<close>, \<open>GoStd\<close>, \<open>Durations\<close>: 64-bit integers, errors with \<open>errors.Is\<close>, and the functions
    of Go's standard library that the parsers use (\<open>strings\<close>, \<open>strconv\<close>, \<open>time.ParseDuration\<close>,
    quoting), with the round trips of printing and parsing.
  \<^item> \<open>RangeHeader\<close>: \<open>parseSingleRange\<close> against the ranges of RFC 9110: bounds, exact selection,
    what it ignores, and the signs it accepts.
  \<^item> \<open>IoReader\<close>, \<open>LimitReader\<close>, \<open>UploadReader\<close>, \<open>VerifyReader\<close>: \<open>io.Reader\<close> as a locale over
    reads of any sizes; the upload cap, the sniffing and hashing of an upload, the verification of a
    download, each interpreted as a reader; what draining one delivers and reports.
  \<^item> \<open>Storage\<close>, \<open>MemoryBackend\<close>, \<open>S3Backend\<close>: the seam as a record of methods, its comments as the
    locale \<open>object_store\<close>; the in-memory store as an interpretation of it, the S3 backend proved
    to satisfy it from the laws of its client library.
  \<^item> \<open>Metadata\<close>, \<open>PostgresRepo\<close>: the seam, its contract as the locale \<open>file_repository\<close>, and every
    method of the Postgres repository over the tables, transactions included, interpreted in it.
  \<^item> \<open>SqlText\<close>, \<open>RepoSql\<close>, \<open>RepoExact\<close>: the same methods one level down.  \<open>SqlText\<close> is the SQL that
    occurs, from its text (lexer, parser, meaning over the tables of the migration); \<open>RepoSql\<close> has
    the methods with the texts they send, the query that \<open>List\<close> assembles and the scanning of rows;
    \<open>RepoExact\<close> proves that they are the methods of \<open>PostgresRepo\<close>.
  \<^item> \<open>FilesService\<close>, \<open>FilesFacts\<close>, \<open>ServiceModel\<close>: every method of the service; in the locale
    \<open>file_service\<close>, which joins the two contracts, what each does on success and on failure and
    the invariant \<open>consistent\<close> (every live row has an object of the recorded length and hash, keys
    are drawn and do not repeat); then the interpretation on the memory store and Postgres.
  \<^item> \<open>GcCollector\<close>, \<open>GcModel\<close>: the sweep and its loop; in \<open>gc_service\<close>, which joins
    \<open>file_service\<close> with the purging methods of the repository (\<open>gc_repository\<close>), what a sweep may take
    (\<open>shrunk\<close>) and that it leaks nothing; its interpretation, complete sweeps, and runs of calls and
    sweeps (\<open>app_step\<close>).
  \<^item> \<open>FileMap\<close>: the abstract specification, a map from identifiers to files, with every method of the
    service and the sweep as calls; the refinement in the locale \<open>file_map\<close>, over any store and
    repository, and its interpretation.
  \<^item> \<open>SqlProgram\<close>: service and collector over the repository of \<open>RepoSql\<close>: the same replies and worlds
    for every list of calls, as every call keeps the tables readable.
  \<^item> \<open>Interleaving\<close>: uploads and a sweep in small steps, with the bounds on the timing under which
    they cannot harm each other, and a run without them in which they do.
  \<^item> \<open>KeyRows\<close>, \<open>KeyRaces\<close>: uploads racing under idempotency keys, cut at their statements
    (\<open>race_step\<close>), with what each statement does to the row of a key; the invariant that ties the
    claims to the rows, and a run of an upload that outlives its key.
  \<^item> \<open>KeyLife\<close>: retries under a key after any calls and sweeps that do not take it for expired
    (\<open>key_step\<close>), also when the file has been deleted and purged.
  \<^item> \<open>Http\<close>, \<open>ApiCodec\<close>, \<open>ApiHandlers\<close>, \<open>MetricsRegistry\<close>, \<open>ApiRouter\<close>: requests and exchanges, the
    JSON bodies, every handler, the metrics, the routing table, probes and instrumentation.  \<open>ApiFacts\<close> has the lemmas on
    exchanges; \<open>ApiModel\<close> (uploads, downloads, ranges), \<open>ApiEdits\<close> (retries, edits), \<open>ApiErrors\<close>
    (what every request is answered with) and \<open>Paging\<close> (the walk of a client along
    \<open>next_cursor\<close>) have the properties of the HTTP interface.
  \<^item> \<open>Config\<close>, \<open>Startup\<close>: loading the environment against a declarative description; the boot
    sequence and its wiring, the readiness probe, how the server ends and with which exit status, the
    steps of a booted process (\<open>process_step\<close>), and the properties of the program as deployed: the contracts of service,
    collector and file map hold over S3, so the invariant and the refinement do.

  \<^bold>\<open>What the properties show.\<close>  The program refines the file map, and in every reachable state the
  records and the objects agree, over the memory store and over S3.  Over a store that deletes and a
  database that acknowledges, an upload stores one file or leaves nothing; within the time to live
  of an idempotency key its retries do not duplicate, also when they race; deleted files are gone,
  sweeps spare what is alive and leak nothing.  The statements that are sent as text
  do what the model of the repository says, their rows fit the scan, and the program over them is the
  program of the other properties.  Over HTTP a posted file comes back unchanged; ranges with
  positions below \<open>2^63\<close> are exact and others ignored; the cap is exact where a body is read;
  listing enumerates every file once; the text of a failure reaches no client but that of the readiness
  probe; and every request whose handler does not panic is answered, and recorded under its route.
  The counterexamples mark the limits: a lost acknowledgement, a cancelled request, an upload that
  outlives its key, a sweep whose cutoff comes late or whose grace period is negative, a null metadata
  header, a TLS setting without effect; two properties of ranged reads say where a window wraps.

  \<^bold>\<open>Assumptions about what is not here.\<close>  SHA-256, content sniffing, UUID syntax (\<open>libs\<close>), JSON and
  media-type syntax (\<open>weblibs\<close>), minio-go (\<open>minio\<close>), the database drivers and goose (\<open>pgLib\<close>) and the
  floating-point product inside \<open>time.ParseDuration\<close> (\<open>fraction\<close>) are parameters.  Properties about
  runs assume that UUIDs do not repeat (\<open>distinct_supply\<close>, \<open>distinct_ids\<close>), that the declared length of a body is
  honest (\<open>honest_input\<close>, which \<open>net/http\<close> enforces), and where they say so that acknowledgements
  are not lost; the statements as texts are exact on tables whose \<open>jsonb\<close> objects have each key once
  (\<open>rows_ok\<close>); the S3 properties assume \<open>minio_laws\<close>, and the one of ranged reads \<open>range_law\<close>.  Each has a witness on a concrete run.

  \<^bold>\<open>Bounds.\<close>  No run is cut short by fuel but that of the listing client, \<open>client_walk\<close>, whose fuel
  counts pages: \<open>list_walk_complete\<close> gives it more than the number of rows, and every page of a walk
  shows at least one row, so it never runs out.  Readers, sums of duration terms and loops over rows
  recurse on what is left.

  \<^bold>\<open>Not modelled.\<close>  Logging; the exposition of the metrics (a parameter of the router); the embedding
  of the migrations (their tables are those of \<open>PostgresRepo\<close> and \<open>SqlText\<close>); closing bodies and
  pools; \<open>ReadFrom\<close> and \<open>Unwrap\<close> of the status writer, which only keep fast paths reachable; how
  \<open>net/http\<close> enforces \<open>Content-Length\<close> and its timeouts, suppresses bodies of \<open>HEAD\<close> and cleans
  paths; the registration of signals; the reading of an S3 object after it has been opened, whose
  bytes are taken from the state at that time (a handle may still break off with an error,
  \<open>delivers\<close>).  The text that \<open>json.Marshal\<close> sends to the database is kept as the value it encodes.
  In \<open>Interleaving\<close> and \<open>KeyRaces\<close> the purge of deleted files and the calls other than uploads are
  single steps; in \<open>KeyRaces\<close> the process and the database read the same clock.
\<close>

end
